(* ===== verification/Prelude.thy ===== *)
theory Prelude
  imports Main "HOL-Library.Word" "HOL-Library.Monad_Syntax" "HOL-Library.AList"
begin

text \<open>
  Shared vocabulary of the development: the machine integers of the Rust code, byte strings,
  panicking computations, big- and little-endian integer codecs, UTF-8 validity, decimal
  printing, and the association lists that stand for the hash maps of the code.
\<close>

section \<open>Machine integers, bytes and strings\<close>

type_synonym u8 = "8 word"
type_synonym u16 = "16 word"
type_synonym u32 = "32 word"
type_synonym u64 = "64 word"
type_synonym i16 = "16 word"
type_synonym i64 = "64 word"
type_synonym bytes = "8 word list"

text \<open>
  Signed integers are words read with \<^const>\<open>sint\<close>; the release profile of the crate
  switches overflow checks off, so \<open>+\<close>, \<open>-\<close> and \<open>*\<close> wrap around exactly as they
  do on words. An \<open>f64\<close> that is only stored and copied is its 64-bit pattern.
\<close>

type_synonym f64_bits = "64 word"

named_theorems codec_simps \<open>facts that evaluate the byte codecs\<close>
named_theorems panic_simps \<open>facts that evaluate bounds-checked reads\<close>

section \<open>Computations that may panic\<close>

text \<open>
  A Rust call that can panic (an index out of range, \<open>copy_from_slice\<close> on slices of
  different lengths, \<open>get_u64\<close> on a short buffer) is an \<open>exec\<close>: \<open>None\<close> is the
  panic, \<open>Some r\<close> an ordinary return of \<open>r\<close>. A Rust \<open>Option<T>\<close> or
  \<open>Result<T, E>\<close> is the returned value itself, an option or a sum.
\<close>

type_synonym 'a exec = "'a option"

abbreviation (input) panic :: "'a exec" where "panic \<equiv> None"
abbreviation (input) ret :: "'a \<Rightarrow> 'a exec" where "ret x \<equiv> Some x"

definition idx :: "'a list \<Rightarrow> nat \<Rightarrow> 'a exec" where
  "idx xs i = (if i < length xs then ret (xs ! i) else panic)"

definition slice :: "'a list \<Rightarrow> nat \<Rightarrow> nat \<Rightarrow> 'a list exec" where
  "slice xs i j = (if i \<le> j \<and> j \<le> length xs then ret (take (j - i) (drop i xs)) else panic)"

text \<open>\<open>dst[i..j].copy_from_slice(src)\<close>\<close>

definition copy_into :: "'a list \<Rightarrow> nat \<Rightarrow> nat \<Rightarrow> 'a list \<Rightarrow> 'a list exec" where
  "copy_into dst i j src =
     (if i \<le> j \<and> j \<le> length dst \<and> length src = j - i
      then ret (take i dst @ src @ drop j dst) else panic)"

text \<open>\<open>dst[i] = v\<close>\<close>

definition store :: "'a list \<Rightarrow> nat \<Rightarrow> 'a \<Rightarrow> 'a list exec" where
  "store dst i v = (if i < length dst then ret (dst[i := v]) else panic)"

lemma idx_ok [panic_simps]: "i < length xs \<Longrightarrow> idx xs i = ret (xs ! i)"
  by (simp add: idx_def)

lemma idx_Cons [panic_simps]:
  "idx (x # xs) 0 = ret x" "idx (x # xs) (Suc n) = idx xs n"
  "idx (x # xs) (numeral k) = idx xs (pred_numeral k)"
  by (simp_all add: idx_def nth_Cons' numeral_eq_Suc)

lemma idx_0 [panic_simps]: "xs \<noteq> [] \<Longrightarrow> idx xs 0 = ret (xs ! 0)"
  by (simp add: idx_def)

lemma slice_ok [panic_simps]:
  "i \<le> j \<Longrightarrow> j \<le> length xs \<Longrightarrow> slice xs i j = ret (take (j - i) (drop i xs))"
  by (simp add: slice_def)

lemma slice_panics: "slice xs i j = panic \<longleftrightarrow> j < i \<or> length xs < j"
  by (auto simp: slice_def)

lemma copy_into_ok [panic_simps]:
  "i \<le> j \<Longrightarrow> j \<le> length dst \<Longrightarrow> length src = j - i \<Longrightarrow>
   copy_into dst i j src = ret (take i dst @ src @ drop j dst)"
  by (simp add: copy_into_def)

lemma store_ok [panic_simps]: "i < length dst \<Longrightarrow> store dst i v = ret (dst[i := v])"
  by (simp add: store_def)

lemma store_0 [panic_simps]: "dst \<noteq> [] \<Longrightarrow> store dst 0 v = ret (v # tl dst)"
  by (cases dst) (simp_all add: store_def)

text \<open>The question-mark operator on a \<open>Result\<close>, and \<open>Option::ok_or\<close>.\<close>

definition try_bind :: "('e + 'a) exec \<Rightarrow> ('a \<Rightarrow> ('e + 'b) exec) \<Rightarrow> ('e + 'b) exec" where
  "try_bind x f = do { r \<leftarrow> x; (case r of Inl e \<Rightarrow> ret (Inl e) | Inr v \<Rightarrow> f v) }"

definition ok_or :: "'a option \<Rightarrow> 'e \<Rightarrow> 'e + 'a" where
  "ok_or x e = (case x of None \<Rightarrow> Inl e | Some v \<Rightarrow> Inr v)"

lemma try_bind_simps [simp]:
  "try_bind (ret (Inl e)) f = ret (Inl e)" "try_bind (ret (Inr v)) f = f v"
  by (simp_all add: try_bind_def)

lemma try_bind_Inr_iff:
  "try_bind x f = ret (Inr y) \<longleftrightarrow> (\<exists>v. x = ret (Inr v) \<and> f v = ret (Inr y))"
  by (cases x) (auto simp: try_bind_def split: sum.splits)

lemma ok_or_simps [simp]: "ok_or None e = Inl e" "ok_or (Some v) e = Inr v"
  by (simp_all add: ok_or_def)

section \<open>External commands\<close>

text \<open>The outcome of \<open>Command::output\<close>: it could not be run, or it ended with this success and error text.\<close>

datatype cmd_outcome = NotRun string | Exited bool string

section \<open>Integer codecs\<close>

text \<open>\<open>to_be_bytes\<close> and \<open>from_be_bytes\<close> at any width: digits in base 256.\<close>

fun be_digits :: "nat \<Rightarrow> nat \<Rightarrow> bytes" where
  "be_digits 0 v = []"
| "be_digits (Suc n) v = be_digits n (v div 256) @ [word_of_nat (v mod 256)]"

definition be_value :: "bytes \<Rightarrow> nat" where
  "be_value bs = foldl (\<lambda>a b. a * 256 + unat b) 0 bs"

lemma length_be_digits [simp]: "length (be_digits n v) = n"
  by (induction n arbitrary: v) auto

lemma be_value_Nil [simp]: "be_value [] = 0"
  by (simp add: be_value_def)

lemma be_value_snoc [simp]: "be_value (bs @ [b]) = be_value bs * 256 + unat b"
  by (simp add: be_value_def)

lemma unat_byte_of_nat [simp]: "unat (word_of_nat (v mod 256) :: u8) = v mod 256"
  by (simp add: unat_of_nat)

lemma unat_less_size: "unat (w :: 'a::len word) < 2 ^ LENGTH('a)"
  by (rule unsigned_less)

lemma unat_byte_less [simp]: "unat (b :: u8) < 256"
  using unat_less_size [of b] by simp

lemma be_value_digits: "v < 256 ^ n \<Longrightarrow> be_value (be_digits n v) = v"
proof (induction n arbitrary: v)
  case (Suc n)
  then have "v div 256 < 256 ^ n" by (simp add: less_mult_imp_div_less mult.commute)
  with Suc.IH show ?case by simp
qed simp

lemma be_value_bound: "be_value bs < 256 ^ length bs"
proof (induction bs rule: rev_induct)
  case (snoc b bs)
  have "be_value bs * 256 + unat b < (be_value bs + 1) * 256" using unat_byte_less [of b] by simp
  also have "\<dots> \<le> 256 ^ length bs * 256" using snoc by (intro mult_le_mono1) simp
  finally show ?case by (simp add: mult.commute)
qed simp

lemma be_digits_value: "length bs = n \<Longrightarrow> be_digits n (be_value bs) = bs"
proof (induction bs arbitrary: n rule: rev_induct)
  case (snoc b bs)
  have "(be_value bs * 256 + unat b) div 256 = be_value bs"
    and "(be_value bs * 256 + unat b) mod 256 = unat b" by simp_all
  with snoc show ?case by auto
qed simp

lemma be_value_append: "be_value (bs @ cs) = be_value bs * 256 ^ length cs + be_value cs"
  by (induction cs rule: rev_induct) (simp_all add: algebra_simps flip: append_assoc)

lemma be_value_digits_mod: "be_value (be_digits n v) = v mod 256 ^ n"
proof (induction n arbitrary: v)
  case (Suc n)
  then show ?case by (simp add: mod_mult2_eq mult.commute)
qed simp

lemma be_digits_append: "be_digits (m + n) v = be_digits m (v div 256 ^ n) @ be_digits n v"
  by (induction n arbitrary: v) (simp_all add: div_mult2_eq)

lemma be_digits_halves:
  "be_digits 8 v = be_digits 6 (v div 65536) @ be_digits 2 v"
  "be_digits 4 v = be_digits 2 (v div 65536) @ be_digits 2 v"
  using be_digits_append [of 6 2 v] be_digits_append [of 2 2 v] by simp_all

definition u16_to_be :: "u16 \<Rightarrow> bytes" where "u16_to_be w = be_digits 2 (unat w)"
definition u32_to_be :: "u32 \<Rightarrow> bytes" where "u32_to_be w = be_digits 4 (unat w)"
definition u64_to_be :: "u64 \<Rightarrow> bytes" where "u64_to_be w = be_digits 8 (unat w)"
definition u16_from_be :: "bytes \<Rightarrow> u16" where "u16_from_be bs = word_of_nat (be_value bs)"
definition u32_from_be :: "bytes \<Rightarrow> u32" where "u32_from_be bs = word_of_nat (be_value bs)"
definition u64_from_be :: "bytes \<Rightarrow> u64" where "u64_from_be bs = word_of_nat (be_value bs)"

text \<open>Evaluation of the integer codecs on literals.\<close>

lemma be_digits_numeral [codec_simps]:
  "be_digits (numeral k) v = be_digits (pred_numeral k) (v div 256) @ [word_of_nat (v mod 256)]"
  unfolding numeral_eq_Suc [of k] by (rule be_digits.simps)

declare u16_to_be_def [codec_simps] u32_to_be_def [codec_simps] u64_to_be_def [codec_simps]
declare u16_from_be_def [codec_simps] u32_from_be_def [codec_simps] u64_from_be_def [codec_simps]
declare be_value_def [codec_simps]

lemma length_to_be [simp]:
  "length (u16_to_be a) = 2" "length (u32_to_be b) = 4" "length (u64_to_be c) = 8"
  by (simp_all add: u16_to_be_def u32_to_be_def u64_to_be_def)

lemma from_to_be16 [simp]: "u16_from_be (u16_to_be w) = w"
  using unat_less_size [of w] by (simp add: u16_from_be_def u16_to_be_def be_value_digits)

lemma from_to_be32 [simp]: "u32_from_be (u32_to_be w) = w"
  using unat_less_size [of w] by (simp add: u32_from_be_def u32_to_be_def be_value_digits)

lemma from_to_be64 [simp]: "u64_from_be (u64_to_be w) = w"
  using unat_less_size [of w] by (simp add: u64_from_be_def u64_to_be_def be_value_digits)

lemma to_from_be16 [simp]: "length bs = 2 \<Longrightarrow> u16_to_be (u16_from_be bs) = bs"
  using be_value_bound [of bs] by (simp add: u16_from_be_def u16_to_be_def be_digits_value unat_of_nat)

lemma to_from_be32 [simp]: "length bs = 4 \<Longrightarrow> u32_to_be (u32_from_be bs) = bs"
  using be_value_bound [of bs] by (simp add: u32_from_be_def u32_to_be_def be_digits_value unat_of_nat)

lemma to_from_be64 [simp]: "length bs = 8 \<Longrightarrow> u64_to_be (u64_from_be bs) = bs"
  using be_value_bound [of bs] by (simp add: u64_from_be_def u64_to_be_def be_digits_value unat_of_nat)

text \<open>
  \<open>uN::from_be_bytes([d[k], d[k + 1], ...])\<close>: the index reads of consecutive bytes, any of
  which panics out of range.
\<close>

definition u16_at :: "bytes \<Rightarrow> nat \<Rightarrow> u16 exec" where
  "u16_at d k = do { s \<leftarrow> slice d k (k + 2); ret (u16_from_be s) }"

definition u32_at :: "bytes \<Rightarrow> nat \<Rightarrow> u32 exec" where
  "u32_at d k = do { s \<leftarrow> slice d k (k + 4); ret (u32_from_be s) }"

definition u64_at :: "bytes \<Rightarrow> nat \<Rightarrow> u64 exec" where
  "u64_at d k = do { s \<leftarrow> slice d k (k + 8); ret (u64_from_be s) }"

lemma uN_at_ok [panic_simps]:
  "k + 2 \<le> length d \<Longrightarrow> u16_at d k = ret (u16_from_be (take 2 (drop k d)))"
  "k + 4 \<le> length d \<Longrightarrow> u32_at d k = ret (u32_from_be (take 4 (drop k d)))"
  "k + 8 \<le> length d \<Longrightarrow> u64_at d k = ret (u64_from_be (take 8 (drop k d)))"
  by (simp_all add: u16_at_def u32_at_def u64_at_def slice_ok)

text \<open>\<open>i16::to_le_bytes\<close>, \<open>u64::to_le_bytes\<close> and the reverse reading.\<close>

definition u16_to_le :: "u16 \<Rightarrow> bytes" where "u16_to_le w = rev (be_digits 2 (unat w))"
definition u16_from_le :: "bytes \<Rightarrow> u16" where "u16_from_le bs = word_of_nat (be_value (rev bs))"
definition u64_to_le :: "u64 \<Rightarrow> bytes" where "u64_to_le w = rev (be_digits 8 (unat w))"

declare u16_to_le_def [codec_simps] u16_from_le_def [codec_simps] u64_to_le_def [codec_simps]

lemma length_to_le [simp]: "length (u16_to_le a) = 2" "length (u64_to_le b) = 8"
  by (simp_all add: u16_to_le_def u64_to_le_def)

lemma from_to_le16 [simp]: "u16_from_le (u16_to_le w) = w"
  using unat_less_size [of w] by (simp add: u16_from_le_def u16_to_le_def be_value_digits)

lemma to_from_le16 [simp]: "length bs = 2 \<Longrightarrow> u16_to_le (u16_from_le bs) = bs"
  using be_value_bound [of "rev bs"]
  by (simp add: u16_from_le_def u16_to_le_def be_digits_value unat_of_nat)

lemma list_of_length_2: "length xs = 2 \<longleftrightarrow> (\<exists>a b. xs = [a, b])"
  by (auto simp: numeral_2_eq_2 length_Suc_conv)

lemma unat_u16_from_be_less [simp]: "unat (u16_from_be bs) < 65536"
  using unat_less_size [of "u16_from_be bs"] by simp

lemma u16_of_nat_inverse [simp]: "n < 65536 \<Longrightarrow> unat (word_of_nat n :: u16) = n"
  by (simp add: unat_of_nat)

lemma u32_of_nat_inverse [simp]: "n < 4294967296 \<Longrightarrow> unat (word_of_nat n :: u32) = n"
  by (simp add: unat_of_nat)

lemma u8_of_nat_inverse [simp]: "n < 256 \<Longrightarrow> unat (word_of_nat n :: u8) = n"
  by (simp add: unat_of_nat)

section \<open>Strings\<close>

text \<open>
  A Rust \<open>String\<close> is a list of bytes that is valid UTF-8; HOL characters are bytes.
  \<open>from_utf8\<close> is the check of the standard library, written out by lead byte.
\<close>

definition bytes_of :: "string \<Rightarrow> bytes" where
  "bytes_of s = map (\<lambda>c. word_of_nat (of_char c)) s"

definition string_of :: "bytes \<Rightarrow> string" where
  "string_of bs = map (\<lambda>b. char_of (unat b)) bs"

lemma length_bytes_of [simp]: "length (bytes_of s) = length s"
  by (simp add: bytes_of_def)

lemma string_of_bytes_of [simp]: "string_of (bytes_of s) = s"
proof -
  have "unat (word_of_nat (of_char c) :: u8) = of_char c" for c
    using nat_of_char_less_256 [of c] by simp
  then show ?thesis by (simp add: string_of_def bytes_of_def map_idI)
qed

lemma bytes_of_string_of [simp]: "bytes_of (string_of bs) = bs"
  by (simp add: string_of_def bytes_of_def map_idI)

definition cont_byte :: "u8 \<Rightarrow> bool" where
  "cont_byte b \<longleftrightarrow> 0x80 \<le> b \<and> b \<le> 0xBF"

fun utf8_valid :: "bytes \<Rightarrow> bool" where
  "utf8_valid [] = True"
| "utf8_valid (a # bs) =
     (if a < 0x80 then utf8_valid bs
      else case bs of
        [] \<Rightarrow> False
      | b # cs \<Rightarrow>
          if 0xC2 \<le> a \<and> a \<le> 0xDF then cont_byte b \<and> utf8_valid cs
          else case cs of
            [] \<Rightarrow> False
          | c # ds \<Rightarrow>
              if 0xE0 \<le> a \<and> a \<le> 0xEF then
                cont_byte b \<and> cont_byte c \<and> (a = 0xE0 \<longrightarrow> 0xA0 \<le> b) \<and> (a = 0xED \<longrightarrow> b \<le> 0x9F)
                \<and> utf8_valid ds
              else case ds of
                [] \<Rightarrow> False
              | d # es \<Rightarrow>
                  0xF0 \<le> a \<and> a \<le> 0xF4 \<and> cont_byte b \<and> cont_byte c \<and> cont_byte d
                  \<and> (a = 0xF0 \<longrightarrow> 0x90 \<le> b) \<and> (a = 0xF4 \<longrightarrow> b \<le> 0x8F) \<and> utf8_valid es)"

definition from_utf8 :: "bytes \<Rightarrow> string option" where
  "from_utf8 bs = (if utf8_valid bs then Some (string_of bs) else None)"

lemma from_utf8_bytes_of: "utf8_valid (bytes_of s) \<Longrightarrow> from_utf8 (bytes_of s) = Some s"
  by (simp add: from_utf8_def)

lemma from_utf8_SomeD: "from_utf8 bs = Some s \<Longrightarrow> bs = bytes_of s \<and> utf8_valid bs"
  by (auto simp: from_utf8_def split: if_splits)

text \<open>Decimal and two-digit lower-case hexadecimal formatting (\<open>{}\<close> and \<open>{:02x}\<close>).\<close>

definition digit_char :: "nat \<Rightarrow> char" where
  "digit_char d = ''0123456789abcdef'' ! d"

fun show_nat :: "nat \<Rightarrow> string" where
  "show_nat n = (if n < 10 then [digit_char n] else show_nat (n div 10) @ [digit_char (n mod 10)])"

declare show_nat.simps [simp del]

definition fmt_02x :: "u8 \<Rightarrow> string" where
  "fmt_02x b = [digit_char (unat b div 16), digit_char (unat b mod 16)]"

definition hex_text :: "bytes \<Rightarrow> string" where
  "hex_text bs = concat (map fmt_02x bs)"

lemma length_hex_text [simp]: "length (hex_text bs) = 2 * length bs"
  by (induction bs) (simp_all add: hex_text_def fmt_02x_def)

section \<open>Hash maps\<close>

text \<open>
  A \<open>HashMap\<close> is an association list whose keys are distinct. Its iteration order is
  unspecified in Rust; the list fixes one, and no statement below depends on which.
\<close>

definition map_ok :: "('k \<times> 'v) list \<Rightarrow> bool" where
  "map_ok m \<longleftrightarrow> distinct (map fst m)"

abbreviation hm_insert :: "'k \<Rightarrow> 'v \<Rightarrow> ('k \<times> 'v) list \<Rightarrow> ('k \<times> 'v) list" where
  "hm_insert \<equiv> AList.update"

abbreviation hm_remove :: "'k \<Rightarrow> ('k \<times> 'v) list \<Rightarrow> ('k \<times> 'v) list" where
  "hm_remove \<equiv> AList.delete"

abbreviation keys :: "('k \<times> 'v) list \<Rightarrow> 'k list" where
  "keys m \<equiv> map fst m"

lemma map_ok_Nil [simp]: "map_ok []"
  by (simp add: map_ok_def)

lemma map_ok_insert [simp]: "map_ok m \<Longrightarrow> map_ok (hm_insert k v m)"
  by (simp add: map_ok_def distinct_update)

lemma map_ok_remove [simp]: "map_ok m \<Longrightarrow> map_ok (hm_remove k m)"
  by (simp add: map_ok_def distinct_delete)

lemma map_ok_filter [simp]: "map_ok m \<Longrightarrow> map_ok (filter P m)"
  by (simp add: map_ok_def distinct_map_filter)

lemma map_of_hm_insert [simp]: "map_of (hm_insert k v m) = (map_of m)(k \<mapsto> v)"
  by (rule update_conv')

lemma map_of_hm_remove [simp]: "map_of (hm_remove k m) = (map_of m)(k := None)"
  by (rule delete_conv')

lemma keys_hm_insert [simp]: "fst ` set (hm_insert k v m) = insert k (fst ` set m)"
  by (simp flip: dom_map_of_conv_image_fst)

lemma keys_hm_remove [simp]: "fst ` set (hm_remove k m) = fst ` set m - {k}"
  by (auto simp flip: dom_map_of_conv_image_fst)

lemma length_hm_insert:
  "length (hm_insert k v m) = (if k \<in> set (keys m) then length m else Suc (length m))"
proof -
  have "length (hm_insert k v m) = length (keys (hm_insert k v m))" by simp
  then show ?thesis unfolding update_keys by auto
qed

lemma length_hm_remove:
  assumes "map_ok m"
  shows "length (hm_remove k m) = (if k \<in> set (keys m) then length m - 1 else length m)"
  using assms
proof (induction m)
  case (Cons p m)
  show ?case
  proof (cases "fst p = k")
    case True
    with Cons.prems have "hm_remove k m = m" by (auto simp: map_ok_def intro: delete_idem)
    with True show ?thesis by (cases p) simp
  next
    case False
    with Cons show ?thesis by (cases p) (auto simp: map_ok_def dest: length_pos_if_in_set)
  qed
qed simp

lemma set_hm_insert_sub: "set (hm_insert k v m) \<subseteq> insert (k, v) (set m)"
  by (induction m) auto

lemma set_hm_remove_sub: "set (hm_remove k m) \<subseteq> set m"
  by (induction m) auto

lemma map_of_filter_ok:
  assumes "map_ok m"
  shows "map_of (filter (\<lambda>(k, v). P k v) m) x =
         (case map_of m x of None \<Rightarrow> None | Some v \<Rightarrow> if P x v then Some v else None)"
  using assms
proof (induction m)
  case (Cons p m)
  then show ?case
    by (cases p) (auto simp: map_ok_def map_of_eq_None_iff split: option.splits)
qed simp

lemma map_of_SomeI_ok: "map_ok m \<Longrightarrow> (k, v) \<in> set m \<Longrightarrow> map_of m k = Some v"
  by (simp add: map_ok_def)

end
