(* ===== verification/Codec.thy ===== *)
theory Codec
  imports Prelude
begin

text \<open>
  The contract every wire format of the crate has: reading back what was written returns
  the value that was written, for the values the format can carry. \<open>ok\<close> embeds a value
  into the reader's result type, which differs between the formats (an option, a result, a
  computation that may panic).
\<close>

locale codec =
  fixes enc :: "'a \<Rightarrow> 'w" and dec :: "'w \<Rightarrow> 'r" and ok :: "'a \<Rightarrow> 'r" and wf :: "'a \<Rightarrow> bool"
  assumes roundtrip: "wf x \<Longrightarrow> dec (enc x) = ok x"
    and ok_inj: "ok x = ok y \<Longrightarrow> x = y"
begin

text \<open>Two different values never share an encoding.\<close>

lemma enc_injective: "wf x \<Longrightarrow> wf y \<Longrightarrow> enc x = enc y \<longleftrightarrow> x = y"
  using roundtrip ok_inj by metis

text \<open>Re-encoding what was read from a well-formed encoding reproduces it byte for byte.\<close>

lemma reencode: "wf x \<Longrightarrow> dec (enc x) = ok y \<Longrightarrow> enc y = enc x"
  using roundtrip ok_inj by metis

lemma enc_inj_on: "inj_on enc {x. wf x}"
  by (auto simp: inj_on_def enc_injective)

end

end
