(* ===== verification/Floats.thy ===== *)
theory Floats
  imports Complex_Main Prelude
begin

text \<open>
  Floating-point arithmetic. The code computes a few quantities in \<open>f64\<close> (resampling
  ratios, exponential averages, back-off delays). The operations are collected in a record
  that the definitions take as an argument, so that a property about such code holds for any
  arithmetic; \<open>exact_ops\<close> is the instance over the rational numbers. \<open>f_to_nat\<close> is the
  cast \<open>as usize\<close>, which truncates and saturates at zero, and \<open>f_to_int\<close> the truncation
  behind the casts to signed integers; \<open>f_secs\<close> is \<open>Duration::from_secs_f64\<close> in
  nanoseconds, \<open>None\<close> where it panics.
\<close>

record 'f f64_ops =
  f_of_nat :: "nat \<Rightarrow> 'f"
  f_of_int :: "int \<Rightarrow> 'f"
  f_of_rat :: "rat \<Rightarrow> 'f"
  f_add :: "'f \<Rightarrow> 'f \<Rightarrow> 'f"
  f_sub :: "'f \<Rightarrow> 'f \<Rightarrow> 'f"
  f_mul :: "'f \<Rightarrow> 'f \<Rightarrow> 'f"
  f_div :: "'f \<Rightarrow> 'f \<Rightarrow> 'f"
  f_abs :: "'f \<Rightarrow> 'f"
  f_less :: "'f \<Rightarrow> 'f \<Rightarrow> bool"
  f_to_nat :: "'f \<Rightarrow> nat"
  f_to_int :: "'f \<Rightarrow> int"
  f_secs :: "'f \<Rightarrow> nat option"

definition exact_ops :: "rat f64_ops" where
  "exact_ops = \<lparr>f_of_nat = of_nat, f_of_int = of_int, f_of_rat = id, f_add = (+), f_sub = (-), f_mul = (*), f_div = (/),
                f_abs = abs, f_less = (<), f_to_nat = (\<lambda>x. nat \<lfloor>x\<rfloor>),
                f_to_int = (\<lambda>x. if x < 0 then \<lceil>x\<rceil> else \<lfloor>x\<rfloor>),
                f_secs = (\<lambda>x. if x < 0 then None else Some (nat \<lfloor>x * 1000000000\<rfloor>))\<rparr>"

text \<open>The cast \<open>as i64\<close> saturates.\<close>

definition f_to_i64 :: "'f f64_ops \<Rightarrow> 'f \<Rightarrow> i64" where
  "f_to_i64 F x =
     (let n = f_to_int F x
      in if n < - (2 ^ 63) then word_of_int (- (2 ^ 63))
         else if n \<ge> 2 ^ 63 then word_of_int (2 ^ 63 - 1) else word_of_int n)"

end
