(* ===== verification/Protocol.thy ===== *)
theory Protocol
  imports Prelude Floats
begin

text \<open>
  \<open>src/src/protocol.rs\<close>: the protocols, the priorities and the bi-temporal message, with
  the per-protocol limits.
\<close>

section \<open>Data\<close>

datatype protocol =
  IridiumSBD | InmarsatC | VSAT | HFVHF | RockBLOCK | Samsara | NIDD | ASTSpaceMobile | LoRaMesh

datatype priority = Emergency | SafetyCritical | Operational | Diagnostic

record message =
  m_protocol :: protocol
  m_data :: bytes
  m_priority :: priority
  m_timestamp :: u64
  m_t_event :: u64
  m_t_system :: u64

section \<open>Protocol constraints\<close>

fun max_message_size :: "protocol \<Rightarrow> nat" where
  "max_message_size IridiumSBD = 340"
| "max_message_size InmarsatC = 128"
| "max_message_size VSAT = 65536"
| "max_message_size HFVHF = 1024"
| "max_message_size RockBLOCK = 340"
| "max_message_size Samsara = 1048576"
| "max_message_size NIDD = 1600"
| "max_message_size ASTSpaceMobile = 120000000"
| "max_message_size LoRaMesh = 250"

fun requires_compression :: "protocol \<Rightarrow> bool" where
  "requires_compression VSAT = True"
| "requires_compression HFVHF = True"
| "requires_compression NIDD = True"
| "requires_compression _ = False"

fun spread_burst_threshold_ms :: "protocol \<Rightarrow> i64" where
  "spread_burst_threshold_ms Samsara = 5000"
| "spread_burst_threshold_ms IridiumSBD = 120000"
| "spread_burst_threshold_ms RockBLOCK = 120000"
| "spread_burst_threshold_ms InmarsatC = 300000"
| "spread_burst_threshold_ms VSAT = 3000"
| "spread_burst_threshold_ms HFVHF = 30000"
| "spread_burst_threshold_ms NIDD = 10000"
| "spread_burst_threshold_ms ASTSpaceMobile = 1000"
| "spread_burst_threshold_ms LoRaMesh = 60000"

fun protocol_name :: "protocol \<Rightarrow> string" where
  "protocol_name IridiumSBD = ''IridiumSBD''"
| "protocol_name InmarsatC = ''InmarsatC''"
| "protocol_name VSAT = ''VSAT''"
| "protocol_name HFVHF = ''HFVHF''"
| "protocol_name RockBLOCK = ''RockBLOCK''"
| "protocol_name Samsara = ''Samsara''"
| "protocol_name NIDD = ''NIDD''"
| "protocol_name ASTSpaceMobile = ''ASTSpaceMobile''"
| "protocol_name LoRaMesh = ''LoRaMesh''"

section \<open>Messages\<close>

text \<open>\<open>Message::new\<close>: the system clock is the argument \<open>now\<close> (\<open>now_ms()\<close>).\<close>

definition message_new :: "u64 \<Rightarrow> protocol \<Rightarrow> bytes \<Rightarrow> priority \<Rightarrow> message" where
  "message_new now p d pr =
     (let max_size = max_message_size p;
          d' = (if length d > max_size then take max_size d else d)
      in \<lparr>m_protocol = p, m_data = d', m_priority = pr, m_timestamp = now,
          m_t_event = now, m_t_system = now\<rparr>)"

definition new_with_temporal :: "protocol \<Rightarrow> bytes \<Rightarrow> priority \<Rightarrow> u64 \<Rightarrow> u64 \<Rightarrow> message" where
  "new_with_temporal p d pr te ts =
     \<lparr>m_protocol = p, m_data = d, m_priority = pr, m_timestamp = ts,
      m_t_event = te, m_t_system = ts\<rparr>"

text \<open>\<open>as i64\<close> keeps the bits, and the subtraction wraps (overflow checks are off).\<close>

definition spread_ms :: "message \<Rightarrow> i64" where
  "spread_ms m = m_t_system m - m_t_event m"

definition spread_seconds :: "'f f64_ops \<Rightarrow> message \<Rightarrow> 'f" where
  "spread_seconds F m = f_div F (f_of_int F (sint (spread_ms m))) (f_of_rat F 1000)"

definition is_delayed :: "message \<Rightarrow> bool" where
  "is_delayed m \<longleftrightarrow> sint (spread_ms m) > 0"

definition is_future :: "message \<Rightarrow> bool" where
  "is_future m \<longleftrightarrow> sint (spread_ms m) < 0"

definition is_emergency :: "message \<Rightarrow> bool" where
  "is_emergency m \<longleftrightarrow> m_priority m = Emergency"

definition message_size :: "message \<Rightarrow> nat" where
  "message_size m = length (m_data m)"

text \<open>The type invariant of messages: the data is at most what the protocol carries.\<close>

definition within_limit :: "message \<Rightarrow> bool" where
  "within_limit m \<longleftrightarrow> message_size m \<le> max_message_size (m_protocol m)"

section \<open>Lemmas\<close>

lemma message_new_fields [simp]:
  "m_protocol (message_new now p d pr) = p"
  "m_data (message_new now p d pr) = take (max_message_size p) d"
  "m_priority (message_new now p d pr) = pr"
  "m_timestamp (message_new now p d pr) = now"
  "m_t_event (message_new now p d pr) = now"
  "m_t_system (message_new now p d pr) = now"
  by (simp_all add: message_new_def Let_def)

lemma message_new_within_limit [simp]: "within_limit (message_new now p d pr)"
  by (simp add: within_limit_def message_size_def)

lemma threshold_positive [simp]: "sint (spread_burst_threshold_ms p) > 0"
  by (cases p) simp_all

lemma spread_seconds_sign:
  "0 < spread_seconds exact_ops m \<longleftrightarrow> is_delayed m" "spread_seconds exact_ops m < 0 \<longleftrightarrow> is_future m"
  by (simp_all add: spread_seconds_def exact_ops_def is_delayed_def is_future_def zero_less_divide_iff divide_less_0_iff
      del: of_int_sint)

text \<open>A wrapping difference of two in-range timestamps is the exact difference.\<close>

lemma sint_diff_exact:
  fixes a b :: u64
  assumes "uint a < 2 ^ 63" and "uint b < 2 ^ 63"
  shows "sint (a - b) = uint a - uint b"
proof -
  have "sint (a - b) = signed_take_bit 63 (uint a - uint b)"
    using signed_of_int [where 'a = int and 'b = 64, of "uint a - uint b"] by simp
  also have "\<dots> = uint a - uint b"
  proof (rule signed_take_bit_int_eq_self)
    have "0 \<le> uint a" "0 \<le> uint b" by simp_all
    with assms show "- (2 ^ 63) \<le> uint a - uint b" "uint a - uint b < 2 ^ 63"
      by linarith+
  qed
  finally show ?thesis .
qed

text \<open>
  A message built by \<open>Message::new\<close> never carries more bytes than its protocol
  allows: the payload is the longest prefix of the input that fits, unchanged when the
  input fits.
\<close>

lemma message_new_fits:
  "message_size (message_new now p d pr) = min (max_message_size p) (length d) \<and>
   m_data (message_new now p d pr) = take (max_message_size p) d"
  by (auto simp: message_size_def)

text \<open>
  The bi-temporal spread is the exact signed delay between event time and system time,
  so its sign classifies the message as delayed, from the future or real-time, whenever
  both timestamps are below \<open>2^63\<close> ms.
\<close>

lemma spread_classifies:
  assumes "uint (m_t_event m) < 2 ^ 63" and "uint (m_t_system m) < 2 ^ 63"
  shows "sint (spread_ms m) = uint (m_t_system m) - uint (m_t_event m) \<and>
         (is_delayed m \<longleftrightarrow> m_t_event m < m_t_system m) \<and>
         (is_future m \<longleftrightarrow> m_t_system m < m_t_event m)"
  using sint_diff_exact [OF assms(2,1)]
  by (simp add: spread_ms_def is_delayed_def is_future_def word_less_def)

end
