(* ===== verification/Nidd.thy ===== *)
theory Nidd
  imports Protocol
begin

text \<open>
  \<open>src/src/nidd.rs\<close>: 3GPP non-IP data delivery frames, parsed without allocation, and the
  typed views of the header bytes.
\<close>

unbundle bit_operations_syntax

datatype pdu_type = UserData | ControlPlane
datatype qos_priority = QosLow | QosNormal | QosHigh | QosEmergency
datatype reliability_class = Unreliable | Reliable
datatype delay_class = DelayInsensitive | DelaySensitive
datatype coverage_enhancement = CENone | Level1 | Level2 | Level3 | Level4

record nidd_header =
  n_pdu_type :: u8
  n_qos_priority :: u8
  n_reliability :: u8
  n_delay_class :: u8
  n_coverage_enhancement :: u8
  n_length :: u16
  n_sequence_number :: u16

record nidd_message =
  n_header :: nidd_header
  n_payload :: bytes
  n_payload_len :: u16

definition nidd_parse :: "bytes \<Rightarrow> nidd_message option exec" where
  "nidd_parse d =
     (if length d < 9 then ret None
      else do {
        pdu \<leftarrow> idx d 0;
        qos \<leftarrow> idx d 1;
        rel \<leftarrow> idx d 2;
        delay \<leftarrow> idx d 3;
        cov \<leftarrow> idx d 4;
        len \<leftarrow> u16_at d 5;
        sq \<leftarrow> u16_at d 7;
        (if length d < 9 + unat len then ret None
         else if len > 1600 then ret None
         else do {
           src \<leftarrow> slice d 9 (9 + unat len);
           payload \<leftarrow> copy_into (replicate 1600 0) 0 (unat len) src;
           ret (Some \<lparr>n_header = \<lparr>n_pdu_type = pdu, n_qos_priority = qos, n_reliability = rel,
                        n_delay_class = delay, n_coverage_enhancement = cov, n_length = len,
                        n_sequence_number = sq\<rparr>,
                      n_payload = payload, n_payload_len = len\<rparr>) }) })"

definition nidd_payload_slice :: "nidd_message \<Rightarrow> bytes exec" where
  "nidd_payload_slice m = slice (n_payload m) 0 (unat (n_payload_len m))"

definition nidd_total_size :: "nidd_message \<Rightarrow> nat" where
  "nidd_total_size m = 9 + unat (n_payload_len m)"

definition nidd_is_control_plane :: "nidd_message \<Rightarrow> bool" where
  "nidd_is_control_plane m \<longleftrightarrow> n_pdu_type (n_header m) AND 0x80 \<noteq> 0"

definition nidd_pdu_type :: "nidd_message \<Rightarrow> pdu_type" where
  "nidd_pdu_type m = (if n_pdu_type (n_header m) AND 0x80 \<noteq> 0 then ControlPlane else UserData)"

definition nidd_qos_priority :: "nidd_message \<Rightarrow> qos_priority" where
  "nidd_qos_priority m =
     (let b = n_qos_priority (n_header m) in
      if b = 0 then QosLow else if b = 1 then QosNormal else if b = 2 then QosHigh
      else if b = 3 then QosEmergency else QosNormal)"

definition nidd_reliability :: "nidd_message \<Rightarrow> reliability_class" where
  "nidd_reliability m =
     (let b = n_reliability (n_header m) in
      if b = 0 then Unreliable else if b = 1 then Reliable else Unreliable)"

definition nidd_delay_class :: "nidd_message \<Rightarrow> delay_class" where
  "nidd_delay_class m =
     (let b = n_delay_class (n_header m) in
      if b = 0 then DelayInsensitive else if b = 1 then DelaySensitive else DelayInsensitive)"

definition nidd_coverage_enhancement :: "nidd_message \<Rightarrow> coverage_enhancement" where
  "nidd_coverage_enhancement m =
     (let b = n_coverage_enhancement (n_header m) in
      if b = 0 then CENone else if b = 1 then Level1 else if b = 2 then Level2
      else if b = 3 then Level3 else if b = 4 then Level4 else CENone)"

text \<open>The declared payload length of a frame.\<close>

definition nidd_declared_len :: "bytes \<Rightarrow> nat" where
  "nidd_declared_len d = unat (u16_from_be (take 2 (drop 5 d)))"

section \<open>Lemmas\<close>

lemma nidd_parse_eq:
  assumes "9 \<le> length d"
  shows "nidd_parse d =
    ret (if 9 + nidd_declared_len d \<le> length d \<and> nidd_declared_len d \<le> 1600
         then Some \<lparr>n_header = \<lparr>n_pdu_type = d ! 0, n_qos_priority = d ! 1, n_reliability = d ! 2,
                      n_delay_class = d ! 3, n_coverage_enhancement = d ! 4,
                      n_length = u16_from_be (take 2 (drop 5 d)),
                      n_sequence_number = u16_from_be (take 2 (drop 7 d))\<rparr>,
                    n_payload = take (nidd_declared_len d) (drop 9 d) @ replicate (1600 - nidd_declared_len d) 0,
                    n_payload_len = u16_from_be (take 2 (drop 5 d))\<rparr>
         else None)"
proof -
  from assms have "d \<noteq> []" by auto
  moreover have "(1600 < u16_from_be (take 2 (drop 5 d))) = (1600 < nidd_declared_len d)"
    by (simp add: nidd_declared_len_def word_less_nat_alt)
  ultimately show ?thesis
    using assms by (simp add: nidd_parse_def panic_simps nidd_declared_len_def)
qed

section \<open>Properties\<close>

text \<open>
  Parsing a NIDD frame never panics. It accepts exactly the buffers that hold the
  nine-byte header and the declared payload, at most 1600 bytes; the payload of the accepted
  message is the declared slice of the buffer and its reported size is the frame's.
\<close>

lemma nidd_parse_correct:
  "nidd_parse d \<noteq> panic \<and>
   ((\<exists>m. nidd_parse d = ret (Some m)) \<longleftrightarrow>
      9 \<le> length d \<and> 9 + nidd_declared_len d \<le> length d \<and> nidd_declared_len d \<le> 1600) \<and>
   (\<forall>m. nidd_parse d = ret (Some m) \<longrightarrow>
      nidd_payload_slice m = ret (take (nidd_declared_len d) (drop 9 d)) \<and>
      nidd_total_size m = 9 + nidd_declared_len d)"
proof (cases "9 \<le> length d")
  case True
  then show ?thesis
    by (auto simp: nidd_parse_eq nidd_payload_slice_def nidd_total_size_def slice_def
        nidd_declared_len_def [symmetric])
qed (simp add: nidd_parse_def)

end
