(* ===== verification/Checksum.thy ===== *)
theory Checksum
  imports Prelude
begin

unbundle bit_operations_syntax

text \<open>
  Error detection of the checksums: one step of a shift register with feedback is injective, and
  a checksum whose step over a byte is injective in the state and in the byte notices every change
  of one byte. Interpreted for the Iridium, Modbus and ATECC608B checksums and the exclusive-or.
\<close>

section \<open>Shift registers\<close>

lemma xor_cancel:
  "a XOR c = b XOR c \<longleftrightarrow> a = b" "c XOR a = c XOR b \<longleftrightarrow> a = b" for a b c :: "'a::len word"
  by (auto simp: bit_eq_iff bit_xor_iff)

definition feedback_left :: "'a::len word \<Rightarrow> 'a word \<Rightarrow> 'a word" where
  "feedback_left poly x =
     (if bit x (LENGTH('a) - 1) then push_bit 1 x XOR poly else push_bit 1 x)"

definition feedback_right :: "'a::len word \<Rightarrow> 'a word \<Rightarrow> 'a word" where
  "feedback_right poly x = (if bit x 0 then drop_bit 1 x XOR poly else drop_bit 1 x)"

lemma bit_push_bit_Suc: "bit (push_bit 1 x) (Suc n) \<longleftrightarrow> Suc n < LENGTH('a) \<and> bit x n" for x :: "'a::len word"
  unfolding bit_push_bit_iff by simp

lemma feedback_left_inj:
  fixes poly :: "'a::len word"
  assumes "bit poly 0"
  shows "feedback_left poly x = feedback_left poly y \<longleftrightarrow> x = y"
proof
  assume eq: "feedback_left poly x = feedback_left poly y"
  have "bit (feedback_left poly z) 0 \<longleftrightarrow> bit z (LENGTH('a) - 1)" for z
    using assms by (simp only: feedback_left_def bit_xor_iff bit_push_bit_iff split: if_split) simp
  with eq have hi: "bit x (LENGTH('a) - 1) = bit y (LENGTH('a) - 1)" by metis
  with eq have "push_bit 1 x = push_bit 1 y" unfolding feedback_left_def
    by (cases "bit y (LENGTH('a) - 1)") (simp_all only: xor_cancel if_True if_False)
  then have lo: "Suc n < LENGTH('a) \<Longrightarrow> bit x n = bit y n" for n by (metis bit_push_bit_Suc)
  show "x = y"
  proof (rule bit_word_eqI)
    fix n
    assume n: "n < LENGTH('a)"
    show "bit x n = bit y n"
    proof (cases "Suc n < LENGTH('a)")
      case False
      with n have "n = LENGTH('a) - 1" by simp
      with hi show ?thesis by (simp only:)
    qed (rule lo)
  qed
qed simp

lemma feedback_right_inj:
  fixes poly :: "'a::len word"
  assumes "bit poly (LENGTH('a) - 1)"
  shows "feedback_right poly x = feedback_right poly y \<longleftrightarrow> x = y"
proof
  assume eq: "feedback_right poly x = feedback_right poly y"
  have "\<not> bit (drop_bit 1 z) (LENGTH('a) - 1)" for z :: "'a word"
    by (simp add: bit_drop_bit_eq bit_imp_le_length [of z "LENGTH('a)"])
  then have "bit (feedback_right poly z) (LENGTH('a) - 1) \<longleftrightarrow> bit z 0" for z
    using assms by (simp only: feedback_right_def bit_xor_iff split: if_split) simp
  with eq have lo: "bit x 0 = bit y 0" by metis
  with eq have d: "drop_bit 1 x = drop_bit 1 y" unfolding feedback_right_def
    by (cases "bit y 0") (simp_all only: xor_cancel if_True if_False)
  have "bit x n = bit y n" for n
  proof (cases n)
    case (Suc k)
    have "bit (drop_bit 1 x) k = bit (drop_bit 1 y) k" by (simp only: d)
    with Suc show ?thesis by (simp add: bit_drop_bit_eq)
  qed (use lo in simp)
  then show "x = y" by (rule bit_eqI)
qed simp

lemma funpow_inj:
  fixes f :: "'a \<Rightarrow> 'a"
  assumes "\<And>x y. f x = f y \<longleftrightarrow> x = y"
  shows "(f ^^ n) x = (f ^^ n) y \<longleftrightarrow> x = y"
  by (induction n) (simp_all add: assms)

lemma ucast_u8_inj: "(ucast b :: u16) = ucast c \<longleftrightarrow> b = c" for b c :: u8
proof -
  have "unat (ucast w :: u16) = unat w" for w :: u8
    using less_trans [OF unat_byte_less [of w], of 65536] by (simp add: unsigned_ucast_eq take_bit_nat_eq_self_iff)
  then show ?thesis by (metis word_unat_eq_iff)
qed

section \<open>Checksums of byte strings\<close>

locale byte_checksum =
  fixes step :: "'c \<Rightarrow> u8 \<Rightarrow> 'c"
  assumes step_state: "step x b = step y b \<longleftrightarrow> x = y"
    and step_byte: "step x b = step x c \<longleftrightarrow> b = c"
begin

lemma fold_state: "foldl step x d = foldl step y d \<longleftrightarrow> x = y"
  by (induction d arbitrary: x y) (simp_all add: step_state)

lemma fold_update:
  assumes "i < length d"
  shows "foldl step x (d[i := c]) = foldl step x d \<longleftrightarrow> c = d ! i"
proof -
  have "foldl step x (d[i := c]) = foldl step x (d[i := d ! i]) \<longleftrightarrow> c = d ! i"
    using assms by (simp only: upd_conv_take_nth_drop foldl_append foldl.simps fold_state step_byte)
  then show ?thesis by simp
qed

text \<open>A checked frame: the data and the stored checksum cannot both match after one change.\<close>

lemma corrupt_detected:
  assumes "i < length (d @ t)" "c \<noteq> (d @ t) ! i" "decode t = foldl step x d"
    and "\<And>u. length u = length t \<Longrightarrow> decode u = decode t \<Longrightarrow> u = t"
  shows "foldl step x (take (length d) ((d @ t)[i := c])) \<noteq> decode (drop (length d) ((d @ t)[i := c]))"
proof (cases "i < length d")
  case True
  with assms fold_update [of i d x c] show ?thesis by (simp add: list_update_append nth_append)
next
  case False
  then have "i - length d < length t" "c \<noteq> t ! (i - length d)" using assms(1,2) by (simp_all add: nth_append)
  then have "t[i - length d := c] \<noteq> t" by (metis nth_list_update_eq)
  then have "decode (t[i - length d := c]) \<noteq> decode t" using assms(4) by fastforce
  with False assms(3) show ?thesis by (simp add: list_update_append)
qed

end

text \<open>The exclusive-or of all bytes.\<close>

interpretation xor_sum: byte_checksum "\<lambda>a b. a XOR b :: u8"
  by unfold_locales (simp_all add: xor_cancel)

end
