(* ===== verification/Iridium.thy ===== *)
theory Iridium
  imports Protocol Checksum
begin

text \<open>
  \<open>src/src/iridium_sbd.rs\<close>: zero-copy parsing of Iridium Short Burst Data packets and
  their chained CRC-16-CCITT.
\<close>

unbundle bit_operations_syntax

section \<open>Data\<close>

record iridium_sbd_header =
  ih_protocol :: u8
  ih_length :: u16

record iridium_sbd_message =
  i_header :: iridium_sbd_header
  i_payload :: bytes
  i_payload_len :: u16
  i_checksum :: u16

section \<open>CRC-16-CCITT\<close>

definition crc16_ccitt_poly :: u16 where "crc16_ccitt_poly = 0x1021"
definition crc16_ccitt_init :: u16 where "crc16_ccitt_init = 0xFFFF"

text \<open>One iteration of the inner loop \<open>for _ in 0..8\<close>.\<close>

definition crc16_bit :: "u16 \<Rightarrow> u16" where
  "crc16_bit crc =
     (if crc AND 0x8000 \<noteq> 0 then push_bit 1 crc XOR crc16_ccitt_poly else push_bit 1 crc)"

definition crc16_byte :: "u16 \<Rightarrow> u8 \<Rightarrow> u16" where
  "crc16_byte crc b = (crc16_bit ^^ 8) (crc XOR push_bit 8 (ucast b))"

fun crc16_ccitt_continue :: "u16 \<Rightarrow> bytes \<Rightarrow> u16" where
  "crc16_ccitt_continue crc [] = crc"
| "crc16_ccitt_continue crc (b # bs) = crc16_ccitt_continue (crc16_byte crc b) bs"

definition crc16_ccitt :: "bytes \<Rightarrow> u16" where
  "crc16_ccitt d = crc16_ccitt_continue crc16_ccitt_init d"

section \<open>Parsing\<close>

definition iridium_parse :: "bytes \<Rightarrow> iridium_sbd_message option exec" where
  "iridium_parse d =
     (if length d < 3 then ret None
      else do {
        p \<leftarrow> idx d 0;
        l1 \<leftarrow> idx d 1;
        l2 \<leftarrow> idx d 2;
        let len = u16_from_be [l1, l2];
        (if length d < 3 + unat len then ret None
         else if len > 340 then ret None
         else do {
           src \<leftarrow> slice d 3 (3 + unat len);
           payload \<leftarrow> copy_into (replicate 340 0) 0 (unat len) src;
           checksum \<leftarrow>
             (if length d \<ge> 3 + unat len + 2
              then do {
                c1 \<leftarrow> idx d (3 + unat len);
                c2 \<leftarrow> idx d (3 + unat len + 1);
                ret (u16_from_be [c1, c2]) }
              else ret 0);
           ret (Some \<lparr>i_header = \<lparr>ih_protocol = p, ih_length = len\<rparr>,
                      i_payload = payload, i_payload_len = len, i_checksum = checksum\<rparr>) })})"

definition iridium_payload_slice :: "iridium_sbd_message \<Rightarrow> bytes exec" where
  "iridium_payload_slice m = slice (i_payload m) 0 (unat (i_payload_len m))"

definition iridium_compute_crc :: "iridium_sbd_message \<Rightarrow> u16 exec" where
  "iridium_compute_crc m = do {
     let header_data =
       [ih_protocol (i_header m), ucast (drop_bit 8 (ih_length (i_header m))),
        ucast (ih_length (i_header m) AND 0xFF)];
     let crc = crc16_ccitt header_data;
     p \<leftarrow> slice (i_payload m) 0 (unat (i_payload_len m));
     ret (crc16_ccitt_continue crc p) }"

definition iridium_validate_checksum :: "iridium_sbd_message \<Rightarrow> bool exec" where
  "iridium_validate_checksum m = do {
     c \<leftarrow> iridium_compute_crc m;
     ret (c = i_checksum m) }"

definition iridium_total_size :: "iridium_sbd_message \<Rightarrow> nat" where
  "iridium_total_size m = 3 + unat (i_payload_len m) + 2"

section \<open>Lemmas\<close>

text \<open>The invariant of a parsed message.\<close>

definition iridium_wf :: "iridium_sbd_message \<Rightarrow> bool" where
  "iridium_wf m \<longleftrightarrow> length (i_payload m) = 340 \<and> unat (i_payload_len m) \<le> 340 \<and>
     ih_length (i_header m) = i_payload_len m"

text \<open>The frame on the wire: header, declared length, payload, optional checksum.\<close>

definition iridium_declared_len :: "bytes \<Rightarrow> nat" where
  "iridium_declared_len d = unat (u16_from_be [d ! 1, d ! 2])"

definition iridium_frame_ok :: "bytes \<Rightarrow> bool" where
  "iridium_frame_ok d \<longleftrightarrow>
     3 \<le> length d \<and> 3 + iridium_declared_len d \<le> length d \<and> iridium_declared_len d \<le> 340"

definition iridium_image :: "bytes \<Rightarrow> iridium_sbd_message" where
  "iridium_image d =
     (let n = iridium_declared_len d; l = u16_from_be [d ! 1, d ! 2]
      in \<lparr>i_header = \<lparr>ih_protocol = d ! 0, ih_length = l\<rparr>,
          i_payload = take n (drop 3 d) @ replicate (340 - n) 0, i_payload_len = l,
          i_checksum = (if n + 5 \<le> length d then u16_from_be [d ! (n + 3), d ! (n + 4)] else 0)\<rparr>)"

lemma crc16_byte_unfold:
  "crc16_byte crc b = crc16_bit (crc16_bit (crc16_bit (crc16_bit (crc16_bit (crc16_bit (crc16_bit
     (crc16_bit (crc XOR push_bit 8 (ucast b)))))))))"
  by (simp add: crc16_byte_def numeral_eq_Suc)

lemmas crc16_eval = crc16_ccitt_def crc16_ccitt_init_def crc16_byte_unfold crc16_bit_def crc16_ccitt_poly_def

lemma crc16_continue_append:
  "crc16_ccitt_continue crc (xs @ ys) = crc16_ccitt_continue (crc16_ccitt_continue crc xs) ys"
  by (induction xs arbitrary: crc) simp_all

text \<open>Parsing is total and equals the direct description of the frame.\<close>

lemma iridium_parse_eq:
  "iridium_parse d = ret (if iridium_frame_ok d then Some (iridium_image d) else None)"
proof (cases "length d < 3")
  case False
  then have ne: "d \<noteq> []" by auto
  have "(u16_from_be [d ! 1, d ! 2] > 340) = (iridium_declared_len d > 340)"
    by (simp add: iridium_declared_len_def word_less_nat_alt)
  with False ne show ?thesis
    by (simp add: iridium_parse_def iridium_frame_ok_def iridium_image_def Let_def panic_simps
        iridium_declared_len_def add.commute)
qed (simp add: iridium_parse_def iridium_frame_ok_def)

lemma high_length_rejected:
  assumes "2 \<le> d ! 1"
  shows "\<not> iridium_frame_ok d"
proof -
  have "512 \<le> be_value [d ! 1, d ! 2]" using assms by (simp add: be_value_def word_le_nat_alt)
  moreover have "be_value [d ! 1, d ! 2] < 65536" using be_value_bound [of "[d ! 1, d ! 2]"] by simp
  ultimately show ?thesis by (simp add: iridium_frame_ok_def iridium_declared_len_def u16_from_be_def unat_of_nat)
qed

lemma iridium_image_wf: "iridium_frame_ok d \<Longrightarrow> iridium_wf (iridium_image d)"
  by (auto simp: iridium_wf_def iridium_image_def iridium_frame_ok_def Let_def iridium_declared_len_def)

lemma iridium_image_payload:
  "iridium_frame_ok d \<Longrightarrow>
   iridium_payload_slice (iridium_image d) = ret (take (iridium_declared_len d) (drop 3 d))"
  by (auto simp: iridium_payload_slice_def iridium_image_def iridium_frame_ok_def Let_def
      panic_simps iridium_declared_len_def)

lemma u16_be_bytes: "[ucast (drop_bit 8 w), ucast (w AND 0xFF)] = u16_to_be w" for w :: u16
proof -
  have a: "unat (ucast (drop_bit 8 w) :: u8) = unat w div 256"
    using unat_less_size [of w]
    by (simp add: unsigned_ucast_eq drop_bit_eq_div unat_div take_bit_eq_mod less_mult_imp_div_less)
  have m: "w AND 0xFF = take_bit 8 w"
    by (simp add: take_bit_eq_mask mask_eq_exp_minus_1)
  have b: "unat (ucast (w AND 0xFF) :: u8) = unat w mod 256"
    unfolding m by (simp add: unsigned_ucast_eq take_bit_eq_mod unat_mod)
  have "(ucast (drop_bit 8 w) :: u8) = word_of_nat (unat w div 256)"
    using arg_cong [OF a, of "word_of_nat :: nat \<Rightarrow> u8"] by simp
  moreover have "(ucast (w AND 0xFF) :: u8) = word_of_nat (unat w mod 256)"
    using arg_cong [OF b, of "word_of_nat :: nat \<Rightarrow> u8"] by simp
  moreover have "unat w div 256 mod 256 = unat w div 256"
    using unat_less_size [of w] by (simp add: less_mult_imp_div_less)
  ultimately show ?thesis
    by (simp only: u16_to_be_def numeral_2_eq_2 be_digits.simps append.simps)
qed

lemma take_3_eq: "3 \<le> length d \<Longrightarrow> take 3 d = [d ! 0, d ! 1, d ! 2]"
  by (cases d; cases "tl d"; cases "tl (tl d)") (auto simp: numeral_3_eq_3 numeral_2_eq_2)

lemma iridium_crc_image:
  assumes "iridium_frame_ok d"
  shows "iridium_compute_crc (iridium_image d) = ret (crc16_ccitt (take (3 + iridium_declared_len d) d))"
proof -
  let ?n = "iridium_declared_len d"
  from assms have len: "3 \<le> length d" by (simp add: iridium_frame_ok_def)
  have hdr: "[ucast (drop_bit 8 (u16_from_be [d ! 1, d ! 2])),
      ucast (u16_from_be [d ! 1, d ! 2] AND 0xFF)] = [d ! 1, d ! 2]"
    by (simp only: u16_be_bytes) simp
  have "take (3 + ?n) d = [d ! 0, d ! 1, d ! 2] @ take ?n (drop 3 d)"
    using len by (simp add: take_add take_3_eq)
  moreover have "slice (i_payload (iridium_image d)) 0 (unat (i_payload_len (iridium_image d))) =
      ret (take ?n (drop 3 d))"
    using iridium_image_payload [OF assms] by (simp add: iridium_payload_slice_def)
  ultimately show ?thesis
    using hdr
    by (simp add: iridium_compute_crc_def crc16_ccitt_def iridium_image_def Let_def)
qed

section \<open>Properties\<close>

text \<open>
  C11. Parsing never panics, and it accepts exactly the buffers that hold the three header
  bytes and the declared number of payload bytes, at most 340; the message it returns
  carries that payload, padded to the fixed array, and keeps the message invariant.
\<close>

theorem iridium_parse_correct:
  "iridium_parse d = ret (if iridium_frame_ok d then Some (iridium_image d) else None) \<and>
   (iridium_frame_ok d \<longrightarrow>
      iridium_wf (iridium_image d) \<and>
      iridium_payload_slice (iridium_image d) = ret (take (iridium_declared_len d) (drop 3 d)))"
  using iridium_parse_eq iridium_image_wf iridium_image_payload by blast

theorem iridium_parse_correct_witness:
  "iridium_frame_ok [1, 0, 2, 72, 105, 0, 0] \<and>
   iridium_payload_slice (iridium_image [1, 0, 2, 72, 105, 0, 0]) = ret [72, 105]"
proof -
  have ok: "iridium_frame_ok [1, 0, 2, 72, 105, 0, 0]"
    by (simp add: iridium_frame_ok_def iridium_declared_len_def codec_simps)
  have len: "iridium_declared_len [1, 0, 2, 72, 105, 0, 0] = 2"
    by (simp add: iridium_declared_len_def codec_simps)
  show ?thesis using iridium_parse_correct [of "[1, 0, 2, 72, 105, 0, 0]"] ok len by simp
qed

text \<open>
  The checksum test covers the whole frame: chaining the CRC state from the header into
  the payload gives the CRC-16-CCITT of the frame's first \<open>3 + length\<close> bytes, so a
  parsed frame that carries a trailer validates exactly when the trailer is that CRC.
\<close>

lemma iridium_checksum_covers_frame:
  assumes "iridium_frame_ok d" and "5 + iridium_declared_len d \<le> length d"
  shows "iridium_validate_checksum (iridium_image d) =
     ret (crc16_ccitt (take (3 + iridium_declared_len d) d) =
          u16_from_be [d ! (3 + iridium_declared_len d), d ! (4 + iridium_declared_len d)])"
proof -
  have "i_checksum (iridium_image d) =
      u16_from_be [d ! (3 + iridium_declared_len d), d ! (4 + iridium_declared_len d)]"
    using assms(2) by (simp add: iridium_image_def Let_def add.commute)
  with iridium_crc_image [OF assms(1)] show ?thesis by (simp add: iridium_validate_checksum_def)
qed

lemma crc16_bit_feedback: "crc16_bit = feedback_left crc16_ccitt_poly"
proof
  fix x :: u16
  have "(0x8000 :: u16) = 2 ^ 15" by simp
  then have "x AND 0x8000 \<noteq> 0 \<longleftrightarrow> bit x 15" by (simp only: and_exp_eq_0_iff_not_bit not_not)
  then show "crc16_bit x = feedback_left crc16_ccitt_poly x" by (simp add: crc16_bit_def feedback_left_def)
qed

lemma crc16_bits_inj: "(crc16_bit ^^ n) x = (crc16_bit ^^ n) y \<longleftrightarrow> x = y"
  by (rule funpow_inj) (simp add: crc16_bit_feedback feedback_left_inj crc16_ccitt_poly_def)

lemma high_byte_inj: "push_bit 8 (ucast b :: u16) = push_bit 8 (ucast c) \<longleftrightarrow> b = c" for b c :: u8
proof
  assume eq: "push_bit 8 (ucast b :: u16) = push_bit 8 (ucast c)"
  have "bit (push_bit 8 (ucast w :: u16)) (8 + n) = bit w n" if "n < 8" for w :: u8 and n
    using that by (simp add: bit_push_bit_iff bit_ucast_iff)
  with eq have "n < 8 \<Longrightarrow> bit b n = bit c n" for n by metis
  then show "b = c" by (intro bit_word_eqI) simp
qed simp

interpretation crc16_sum: byte_checksum crc16_byte
  by unfold_locales (simp_all add: crc16_byte_def crc16_bits_inj xor_cancel high_byte_inj)

lemma crc16_ccitt_fold: "crc16_ccitt d = foldl crc16_byte crc16_ccitt_init d"
proof -
  have "crc16_ccitt_continue crc d = foldl crc16_byte crc d" for crc by (induction d arbitrary: crc) simp_all
  then show ?thesis by (simp add: crc16_ccitt_def)
qed

lemma drop_take_2: "n + 2 \<le> length d \<Longrightarrow> drop n (take (n + 2) d) = [d ! n, d ! (n + 1)]"
  by (rule nth_equalityI) (auto simp: nth_Cons' less_2_cases_iff)

text \<open>
  C40. Error detection: when a frame passes the checksum test, the frame with any one byte of the
  protocol number, the payload or the checksum changed fails it.
\<close>

theorem iridium_corruption_detected:
  assumes "iridium_frame_ok d" "5 + iridium_declared_len d \<le> length d"
    and "iridium_validate_checksum (iridium_image d) = ret True"
    and "i < 5 + iridium_declared_len d" "i \<noteq> 1" "i \<noteq> 2" "c \<noteq> d ! i"
  shows "iridium_validate_checksum (iridium_image (d[i := c])) = ret False"
proof -
  define n where "n = 3 + iridium_declared_len d"
  let ?b = "take n d" and ?t = "drop n (take (n + 2) d)"
  have n: "n + 2 \<le> length d" "i < n + 2" using assms(2,4) by (simp_all add: n_def)
  have len: "iridium_declared_len (d[i := c]) = iridium_declared_len d" using assms(5,6) by (simp add: iridium_declared_len_def)
  with assms(1) have ok: "iridium_frame_ok (d[i := c])" by (simp add: iridium_frame_ok_def)
  have covers: "iridium_validate_checksum (iridium_image x) = ret (crc16_ccitt (take n x) = u16_from_be [x ! n, x ! (n + 1)])"
    if "iridium_frame_ok x" "iridium_declared_len x = iridium_declared_len d" "length x = length d" for x
    using iridium_checksum_covers_frame [OF that(1)] that(2,3) assms(2) by (simp add: n_def add.commute)
  have bt: "take (n + 2) d = ?b @ ?t" using append_take_drop_id [of n "take (n + 2) d"] by simp
  have t: "drop n (take (n + 2) x) = [x ! n, x ! (n + 1)]" if "length x = length d" for x
    using n(1) that by (intro drop_take_2) simp
  have u: "(?b @ ?t)[i := c] = take (n + 2) (d[i := c])" using bt by (simp add: take_update_swap)
  have "foldl crc16_byte crc16_ccitt_init (take (length ?b) ((?b @ ?t)[i := c])) \<noteq> u16_from_be (drop (length ?b) ((?b @ ?t)[i := c]))"
  proof (rule crc16_sum.corrupt_detected)
    show "i < length (?b @ ?t)" "c \<noteq> (?b @ ?t) ! i" unfolding bt [symmetric] using n assms(7) by simp_all
    show "u16_from_be ?t = foldl crc16_byte crc16_ccitt_init ?b"
      using assms(3) covers [OF assms(1)] t [of d] by (simp add: crc16_ccitt_fold)
    show "x = ?t" if "length x = length ?t" "u16_from_be x = u16_from_be ?t" for x
      using that t [of d] by (metis length_Cons list.size(3) numeral_2_eq_2 to_from_be16)
  qed
  then show ?thesis using covers [OF ok len] t [of "d[i := c]"] n(1) unfolding u by (simp add: crc16_ccitt_fold)
qed

theorem iridium_corruption_detected_witness:
  "iridium_validate_checksum (iridium_image ([1, 0, 1, 72, 0x08, 0x89][3 := 73])) = ret False"
proof -
  have ok: "iridium_frame_ok [1, 0, 1, 72, 0x08, 0x89]"
    by (simp add: iridium_frame_ok_def iridium_declared_len_def codec_simps)
  have len: "iridium_declared_len [1, 0, 1, 72, 0x08, 0x89] = 1"
    by (simp add: iridium_declared_len_def codec_simps)
  have crc: "crc16_ccitt [1, 0, 1, 72] = u16_from_be [0x08, 0x89]"
    by (simp add: crc16_eval codec_simps)
  have "iridium_validate_checksum (iridium_image [1, 0, 1, 72, 0x08, 0x89]) = ret True"
    using iridium_checksum_covers_frame [OF ok] len crc by simp
  then show ?thesis using iridium_corruption_detected [OF ok, of 3 73] len by simp
qed

end
