(* ===== verification/Asts.thy ===== *)
theory Asts
  imports Iridium
begin

text \<open>
  \<open>src/src/asts_protobuf.rs\<close>: the AST SpaceMobile frame and the translator from Iridium
  messages, with the process-wide sequence counter as explicit state.
\<close>

section \<open>Data\<close>

record asts_header =
  ah_message_type :: u8
  ah_sequence :: u32
  ah_length :: u16

record asts_message =
  a_header :: asts_header
  a_payload :: bytes
  a_payload_len :: u16

section \<open>Operations\<close>

definition asts_new :: "u8 \<Rightarrow> u32 \<Rightarrow> asts_message" where
  "asts_new ty sq =
     \<lparr>a_header = \<lparr>ah_message_type = ty, ah_sequence = sq, ah_length = 0\<rparr>,
      a_payload = replicate 1024 0, a_payload_len = 0\<rparr>"

definition asts_set_payload :: "asts_message \<Rightarrow> bytes \<Rightarrow> (bool \<times> asts_message) exec" where
  "asts_set_payload m d =
     (if length d > 1024 then ret (False, m)
      else do {
        p \<leftarrow> copy_into (a_payload m) 0 (length d) d;
        ret (True, m\<lparr>a_payload := p, a_payload_len := word_of_nat (length d),
                     a_header := (a_header m)\<lparr>ah_length := word_of_nat (length d)\<rparr>\<rparr>) })"

definition asts_total_size :: "asts_message \<Rightarrow> nat" where
  "asts_total_size m = 7 + unat (a_payload_len m)"

definition asts_payload_slice :: "asts_message \<Rightarrow> bytes exec" where
  "asts_payload_slice m = slice (a_payload m) 0 (unat (a_payload_len m))"

text \<open>The result is the returned size together with the buffer after the call.\<close>

definition asts_encode_to_buffer :: "asts_message \<Rightarrow> bytes \<Rightarrow> (nat option \<times> bytes) exec" where
  "asts_encode_to_buffer m buf =
     (if length buf < asts_total_size m then ret (None, buf)
      else do {
        b1 \<leftarrow> store buf 0 (ah_message_type (a_header m));
        b2 \<leftarrow> copy_into b1 1 5 (u32_to_be (ah_sequence (a_header m)));
        b3 \<leftarrow> copy_into b2 5 7 (u16_to_be (ah_length (a_header m)));
        p \<leftarrow> slice (a_payload m) 0 (unat (a_payload_len m));
        b4 \<leftarrow> copy_into b3 7 (7 + unat (a_payload_len m)) p;
        ret (Some (asts_total_size m), b4) })"

text \<open>
  \<open>ZeroCopyTranslator::translate_with_type\<close>: the argument \<open>sq\<close> and the last result are
  \<open>GLOBAL_SEQUENCE\<close> before and after the call (\<open>fetch_add\<close> wraps).
\<close>

definition asts_translate_with_type ::
    "u32 \<Rightarrow> iridium_sbd_message \<Rightarrow> u8 \<Rightarrow> bytes \<Rightarrow> (nat option \<times> bytes \<times> u32) exec" where
  "asts_translate_with_type sq m ty out = do {
     let msg = asts_new ty sq;
     p \<leftarrow> iridium_payload_slice m;
     (ok, msg) \<leftarrow> asts_set_payload msg p;
     (if \<not> ok then ret (None, out, sq + 1)
      else do {
        (n, out') \<leftarrow> asts_encode_to_buffer msg out;
        ret (n, out', sq + 1) }) }"

definition asts_translate ::
    "u32 \<Rightarrow> iridium_sbd_message \<Rightarrow> bytes \<Rightarrow> (nat option \<times> bytes \<times> u32) exec" where
  "asts_translate sq m out = do {
     let msg = asts_new 0x01 sq;
     p \<leftarrow> iridium_payload_slice m;
     (ok, msg) \<leftarrow> asts_set_payload msg p;
     (if \<not> ok then ret (None, out, sq + 1)
      else do {
        (n, out') \<leftarrow> asts_encode_to_buffer msg out;
        ret (n, out', sq + 1) }) }"

text \<open>A run of translations into fresh buffers of one size, as the hot path performs them.\<close>

fun asts_translate_run :: "nat \<Rightarrow> u32 \<Rightarrow> iridium_sbd_message list \<Rightarrow> (bytes list \<times> u32) exec" where
  "asts_translate_run n sq [] = ret ([], sq)"
| "asts_translate_run n sq (m # ms) = do {
     (_, out, sq) \<leftarrow> asts_translate sq m (replicate n 0);
     (outs, sq) \<leftarrow> asts_translate_run n sq ms;
     ret (out # outs, sq) }"

text \<open>The frame on the wire.\<close>

definition asts_frame :: "u8 \<Rightarrow> u32 \<Rightarrow> bytes \<Rightarrow> bytes" where
  "asts_frame ty sq p = [ty] @ u32_to_be sq @ u16_to_be (word_of_nat (length p)) @ p"

definition iridium_payload :: "iridium_sbd_message \<Rightarrow> bytes" where
  "iridium_payload m = take (unat (i_payload_len m)) (i_payload m)"

section \<open>Lemmas\<close>

lemma iridium_payload_slice_wf:
  "iridium_wf m \<Longrightarrow> iridium_payload_slice m = ret (iridium_payload m)"
  by (simp add: iridium_wf_def iridium_payload_slice_def iridium_payload_def panic_simps)

lemma length_iridium_payload [simp]:
  "iridium_wf m \<Longrightarrow> length (iridium_payload m) = unat (i_payload_len m)"
  by (simp add: iridium_wf_def iridium_payload_def)

lemma length_asts_frame [simp]: "length (asts_frame ty sq p) = 7 + length p"
  by (simp add: asts_frame_def)

lemma asts_set_payload_ok:
  "length d \<le> 1024 \<Longrightarrow>
   asts_set_payload (asts_new ty sq) d =
     ret (True, \<lparr>a_header = \<lparr>ah_message_type = ty, ah_sequence = sq, ah_length = word_of_nat (length d)\<rparr>,
                 a_payload = d @ replicate (1024 - length d) 0, a_payload_len = word_of_nat (length d)\<rparr>)"
  by (simp add: asts_set_payload_def asts_new_def panic_simps)

lemma asts_encode_frame:
  assumes "length d \<le> 1024"
  shows "asts_encode_to_buffer
     \<lparr>a_header = \<lparr>ah_message_type = ty, ah_sequence = sq, ah_length = word_of_nat (length d)\<rparr>,
      a_payload = d @ replicate (1024 - length d) 0, a_payload_len = word_of_nat (length d)\<rparr> buf =
     ret (if length buf < 7 + length d then (None, buf)
          else (Some (7 + length d), asts_frame ty sq d @ drop (7 + length d) buf))"
proof (cases buf)
  case (Cons b bs)
  then show ?thesis
    using assms by (simp add: asts_encode_to_buffer_def asts_total_size_def asts_frame_def panic_simps
        drop_Cons' add.commute)
qed (use assms in \<open>simp add: asts_encode_to_buffer_def asts_total_size_def\<close>)

lemma asts_translate_with_type_eq:
  assumes "iridium_wf m"
  shows "asts_translate_with_type sq m ty out =
    (let p = iridium_payload m in
     ret (if length out < 7 + length p then (None, out, sq + 1)
          else (Some (7 + length p), asts_frame ty sq p @ drop (7 + length p) out, sq + 1)))"
proof -
  have len: "length (iridium_payload m) \<le> 1024" using assms by (simp add: iridium_wf_def)
  show ?thesis
    unfolding asts_translate_with_type_def Let_def iridium_payload_slice_wf [OF assms]
    by (simp only: bind.bind_lunit asts_set_payload_ok [OF len] prod.case asts_encode_frame [OF len])
      simp
qed

lemma asts_translate_eq: "asts_translate sq m out = asts_translate_with_type sq m 1 out"
  by (simp add: asts_translate_def asts_translate_with_type_def)

lemma asts_run_frames:
  assumes "list_all iridium_wf ms" and "\<forall>m\<in>set ms. 7 + length (iridium_payload m) \<le> n"
  shows "asts_translate_run n sq ms =
    ret (map (\<lambda>(i, m). asts_frame 1 (sq + word_of_nat i) (iridium_payload m) @
                          replicate (n - 7 - length (iridium_payload m)) 0)
             (zip [0..<length ms] ms),
         sq + word_of_nat (length ms))"
  using assms
proof (induction ms arbitrary: sq)
  case (Cons m ms)
  have shift: "zip [0..<length (m # ms)] (m # ms) = (0, m) # map (\<lambda>(i, m). (Suc i, m)) (zip [0..<length ms] ms)"
    by (simp add: map_Suc_upt [symmetric] upt_conv_Cons del: upt_Suc) (simp add: zip_map1)
  from Cons show ?case
    unfolding shift
    by (simp add: asts_translate_eq asts_translate_with_type_eq Let_def add.assoc case_prod_beta comp_def not_less)
qed simp

section \<open>Properties\<close>

text \<open>
  Translating an Iridium message never panics. It writes the frame
  \<open>type, sequence, length, payload\<close> at the start of the output buffer, leaves the rest of
  the buffer alone and reports the frame's size, or reports nothing and leaves the buffer
  unchanged when the buffer is too small; the sequence counter advances by one in both cases.
\<close>

lemma asts_translate_correct:
  assumes "iridium_wf m"
  shows "asts_translate_with_type sq m ty out =
    ret (if length out < 7 + length (iridium_payload m) then (None, out, sq + 1)
         else (Some (7 + length (iridium_payload m)),
               asts_frame ty sq (iridium_payload m) @ drop (7 + length (iridium_payload m)) out,
               sq + 1))"
  using asts_translate_with_type_eq [OF assms] by (simp add: Let_def)

text \<open>
  Sequence numbers do not repeat: in any run of at most \<open>2^32\<close> translations, two
  different frames carry different sequence numbers, although the 32-bit counter wraps.
\<close>

lemma asts_sequence_unique:
  assumes "list_all iridium_wf ms" and "length ms \<le> 2 ^ 32"
    and "\<forall>m\<in>set ms. 7 + length (iridium_payload m) \<le> n"
    and "asts_translate_run n sq ms = ret (outs, sq')"
  shows "distinct (map (\<lambda>f. take 4 (drop 1 f)) outs) \<and> length outs = length ms"
proof -
  have outs: "outs = map (\<lambda>(i, m). asts_frame 1 (sq + word_of_nat i) (iridium_payload m) @
      replicate (n - 7 - length (iridium_payload m)) 0) (zip [0..<length ms] ms)"
    using asts_run_frames [OF assms(1,3)] assms(4) by simp
  have hdr: "map (\<lambda>f. take 4 (drop 1 f)) outs = map (\<lambda>i. u32_to_be (sq + word_of_nat i)) [0..<length ms]"
    unfolding outs by (rule nth_equalityI) (simp_all add: asts_frame_def)
  have "inj_on (\<lambda>i. u32_to_be (sq + word_of_nat i)) {0..<length ms}"
  proof (rule inj_onI)
    fix i j
    assume ij: "i \<in> {0..<length ms}" "j \<in> {0..<length ms}"
      and "u32_to_be (sq + word_of_nat i) = u32_to_be (sq + word_of_nat j)"
    then have "(word_of_nat i :: u32) = word_of_nat j"
      by (metis from_to_be32 add_left_cancel)
    then have "unat (word_of_nat i :: u32) = unat (word_of_nat j :: u32)" by (rule arg_cong)
    with ij assms(2) show "i = j" by simp
  qed
  with hdr outs show ?thesis by (simp add: distinct_map)
qed

end
