(* ===== verification/Buffers.thy ===== *)
theory Buffers
  imports Asts
begin

text \<open>
  \<open>src/src/dynamic_buffer.rs\<close> and \<open>src/src/lifetime_safe.rs\<close>: the growing buffer with its
  limit, the round-robin buffer pools, and the translation that returns owned bytes. A vector is
  its contents and its capacity, which the allocator of the standard library chooses: a parameter.
  A mutable borrow of a pooled buffer is the index of the buffer.
\<close>

section \<open>Vectors of the standard library\<close>

text \<open>
  The capacity that \<open>Vec::with_capacity\<close> and \<open>Vec::reserve\<close> leave: the first for a
  requested capacity, the second for a length, a capacity and a number of additional elements.
  Documented is a lower bound, and that a vector with room enough is left alone.
\<close>

record vec_alloc =
  va_with_capacity :: "nat \<Rightarrow> nat"
  va_reserve :: "nat \<Rightarrow> nat \<Rightarrow> nat \<Rightarrow> nat"

definition vec_law :: "vec_alloc \<Rightarrow> bool" where
  "vec_law V \<longleftrightarrow> (\<forall>n. n \<le> va_with_capacity V n) \<and>
     (\<forall>len cap additional. len + additional \<le> va_reserve V len cap additional) \<and>
     (\<forall>len cap additional. len + additional \<le> cap \<longrightarrow> va_reserve V len cap additional = cap)"

text \<open>An allocator that gives exactly what is asked for.\<close>

definition exact_alloc :: vec_alloc where
  "exact_alloc = \<lparr>va_with_capacity = (\<lambda>n. n), va_reserve = (\<lambda>len cap additional. max cap (len + additional))\<rparr>"

text \<open>\<open>usize::next_power_of_two\<close>, by doubling.\<close>

function power_of_two_from :: "nat \<Rightarrow> nat \<Rightarrow> nat" where
  "power_of_two_from p n = (if n \<le> p \<or> p = 0 then p else power_of_two_from (2 * p) n)"
  by auto
termination by (relation "measure (\<lambda>(p, n). n - p)") auto

declare power_of_two_from.simps [simp del]

definition next_power_of_two :: "nat \<Rightarrow> nat" where
  "next_power_of_two n = power_of_two_from 1 n"

section \<open>Dynamic buffer\<close>

datatype buffer_error = TooLarge nat nat | AllocationFailed | InvalidSize

record dynamic_buffer =
  db_buffer :: bytes
  db_capacity :: nat
  db_max_capacity :: nat

definition buffer_new :: "vec_alloc \<Rightarrow> nat \<Rightarrow> nat \<Rightarrow> buffer_error + dynamic_buffer" where
  "buffer_new V initial mx =
     (if initial > mx then Inl (TooLarge initial mx)
      else Inr \<lparr>db_buffer = [], db_capacity = va_with_capacity V initial, db_max_capacity = mx\<rparr>)"

definition buffer_write :: "vec_alloc \<Rightarrow> dynamic_buffer \<Rightarrow> bytes \<Rightarrow> (buffer_error + unit) \<times> dynamic_buffer" where
  "buffer_write V b d =
     (if length d > db_max_capacity b then (Inl (TooLarge (length d) (db_max_capacity b)), b)
      else let cap = (if length d > db_capacity b
                      then va_reserve V (length (db_buffer b)) (db_capacity b)
                             (min (next_power_of_two (length d)) (db_max_capacity b))
                      else db_capacity b)
           in (Inr (), b\<lparr>db_buffer := d, db_capacity := va_reserve V 0 cap (length d)\<rparr>))"

definition buffer_put :: "dynamic_buffer \<Rightarrow> nat \<Rightarrow> u8 \<Rightarrow> dynamic_buffer exec" where
  "buffer_put b i v = do { s \<leftarrow> store (db_buffer b) i v; ret (b\<lparr>db_buffer := s\<rparr>) }"

definition buffer_len :: "dynamic_buffer \<Rightarrow> nat" where
  "buffer_len b = length (db_buffer b)"

definition buffer_is_empty :: "dynamic_buffer \<Rightarrow> bool" where
  "buffer_is_empty b \<longleftrightarrow> db_buffer b = []"

definition buffer_clear :: "dynamic_buffer \<Rightarrow> dynamic_buffer" where
  "buffer_clear b = b\<lparr>db_buffer := []\<rparr>"

definition buffer_reset :: "vec_alloc \<Rightarrow> dynamic_buffer \<Rightarrow> nat \<Rightarrow> (buffer_error + unit) \<times> dynamic_buffer" where
  "buffer_reset V b initial =
     (if initial > db_max_capacity b then (Inl (TooLarge initial (db_max_capacity b)), b)
      else (Inr (), b\<lparr>db_buffer := [], db_capacity := va_with_capacity V initial\<rparr>))"

section \<open>Buffer pool\<close>

record dynamic_buffer_pool =
  dp_buffers :: "dynamic_buffer list"
  dp_max_capacity :: nat
  dp_next_index :: u64

fun pool_buffers :: "vec_alloc \<Rightarrow> nat \<Rightarrow> nat \<Rightarrow> nat \<Rightarrow> buffer_error + dynamic_buffer list" where
  "pool_buffers V 0 initial mx = Inr []"
| "pool_buffers V (Suc n) initial mx =
     (case buffer_new V initial mx of
        Inl e \<Rightarrow> Inl e
      | Inr b \<Rightarrow> (case pool_buffers V n initial mx of Inl e \<Rightarrow> Inl e | Inr bs \<Rightarrow> Inr (b # bs)))"

definition pool_new :: "vec_alloc \<Rightarrow> nat \<Rightarrow> nat \<Rightarrow> nat \<Rightarrow> buffer_error + dynamic_buffer_pool" where
  "pool_new V pool_size initial mx =
     (case pool_buffers V pool_size initial mx of
        Inl e \<Rightarrow> Inl e
      | Inr bs \<Rightarrow> Inr \<lparr>dp_buffers = bs, dp_max_capacity = mx, dp_next_index = 0\<rparr>)"

text \<open>\<open>index % len\<close> panics when the pool is empty.\<close>

definition checked_rem :: "u64 \<Rightarrow> nat \<Rightarrow> nat exec" where
  "checked_rem i n = (if n = 0 then panic else ret (unat i mod n))"

definition pool_get_buffer :: "dynamic_buffer_pool \<Rightarrow> (nat \<times> dynamic_buffer_pool) exec" where
  "pool_get_buffer p = do {
     i \<leftarrow> checked_rem (dp_next_index p) (length (dp_buffers p));
     ret (i, p\<lparr>dp_next_index := dp_next_index p + 1\<rparr>) }"

definition pool_get_buffer_at :: "dynamic_buffer_pool \<Rightarrow> u64 \<Rightarrow> nat exec" where
  "pool_get_buffer_at p i = checked_rem i (length (dp_buffers p))"

section \<open>Arena\<close>

record translation_arena =
  ta_buffers :: "bytes list"
  ta_next_index :: u64
  ta_buffer_size :: nat

definition arena_new :: "nat \<Rightarrow> nat \<Rightarrow> translation_arena" where
  "arena_new pool_size n = \<lparr>ta_buffers = replicate pool_size (replicate n 0), ta_next_index = 0, ta_buffer_size = n\<rparr>"

definition arena_get_buffer :: "translation_arena \<Rightarrow> (nat \<times> translation_arena) exec" where
  "arena_get_buffer a = do {
     i \<leftarrow> checked_rem (ta_next_index a) (length (ta_buffers a));
     ret (i, a\<lparr>ta_next_index := ta_next_index a + 1\<rparr>) }"

definition arena_get_buffer_at :: "translation_arena \<Rightarrow> u64 \<Rightarrow> nat exec" where
  "arena_get_buffer_at a i = checked_rem i (length (ta_buffers a))"

definition clone_to_bytes :: "bytes \<Rightarrow> nat \<Rightarrow> bytes exec" where
  "clone_to_bytes buffer n = slice buffer 0 n"

definition clone_to_bytes_at :: "translation_arena \<Rightarrow> u64 \<Rightarrow> nat \<Rightarrow> bytes exec" where
  "clone_to_bytes_at a i n = do {
     j \<leftarrow> checked_rem i (length (ta_buffers a));
     buffer \<leftarrow> idx (ta_buffers a) j;
     slice buffer 0 n }"

section \<open>Hybrid translator\<close>

record safe_translation_result =
  sr_data :: bytes
  sr_size :: nat

definition safe_result_new :: "bytes \<Rightarrow> safe_translation_result" where
  "safe_result_new d = \<lparr>sr_data = d, sr_size = length d\<rparr>"

text \<open>The translator it creates is stateless: the sequence number is the global counter.\<close>

definition translate_zero_alloc ::
    "u32 \<Rightarrow> iridium_sbd_message \<Rightarrow> bytes \<Rightarrow> (nat option \<times> bytes \<times> u32) exec" where
  "translate_zero_alloc sq m out = asts_translate sq m out"

definition translate_safe :: "u32 \<Rightarrow> iridium_sbd_message \<Rightarrow> (safe_translation_result option \<times> u32) exec" where
  "translate_safe sq m = do {
     (r, local, sq) \<leftarrow> translate_zero_alloc sq m (replicate 2048 0);
     case r of
       None \<Rightarrow> ret (None, sq)
     | Some n \<Rightarrow> do { d \<leftarrow> slice local 0 n; ret (Some (safe_result_new d), sq) } }"

section \<open>Bounds of the buffer\<close>

text \<open>A sequence of operations on a buffer; a failing one leaves it as it was.\<close>

inductive buffer_step :: "vec_alloc \<Rightarrow> dynamic_buffer \<Rightarrow> dynamic_buffer \<Rightarrow> bool" for V :: vec_alloc where
  write_any: "buffer_step V b (snd (buffer_write V b d))"
| put_at: "buffer_put b i v = ret b' \<Longrightarrow> buffer_step V b b'"
| clear_all: "buffer_step V b (buffer_clear b)"
| reset_to: "buffer_step V b (snd (buffer_reset V b n))"

definition buffer_ok :: "dynamic_buffer \<Rightarrow> bool" where
  "buffer_ok b \<longleftrightarrow> length (db_buffer b) \<le> db_capacity b \<and> length (db_buffer b) \<le> db_max_capacity b"

lemma power_of_two_from_ge: "0 < p \<Longrightarrow> n \<le> power_of_two_from p n"
  by (induction p n rule: power_of_two_from.induct) (subst power_of_two_from.simps, auto)

lemma power_of_two_from_least: "0 < p \<Longrightarrow> p < 2 * n \<Longrightarrow> power_of_two_from p n < 2 * n"
  by (induction p n rule: power_of_two_from.induct) (subst power_of_two_from.simps, auto)

lemma power_of_two_from_power: "\<exists>k. power_of_two_from p n = 2 ^ k * p"
proof (induction p n rule: power_of_two_from.induct)
  case (1 p n)
  show ?case
  proof (cases "n \<le> p \<or> p = 0")
    case True
    then show ?thesis by (intro exI [of _ 0]) (simp add: power_of_two_from.simps [of p])
  next
    case False
    with 1 obtain k where "power_of_two_from (2 * p) n = 2 ^ k * (2 * p)" by blast
    with False show ?thesis by (intro exI [of _ "Suc k"]) (simp add: power_of_two_from.simps [of p])
  qed
qed

text \<open>The least power of two that is not smaller.\<close>

lemma next_power_of_two_spec:
  "n \<le> next_power_of_two n \<and> (\<exists>k. next_power_of_two n = 2 ^ k) \<and> (1 \<le> n \<longrightarrow> next_power_of_two n < 2 * n)"
  using power_of_two_from_ge [of 1 n] power_of_two_from_least [of 1 n] power_of_two_from_power [of 1 n]
  by (simp add: next_power_of_two_def)

lemma vec_lawD:
  assumes "vec_law V"
  shows "n \<le> va_with_capacity V n" and "len + additional \<le> va_reserve V len cap additional"
    and "len + additional \<le> cap \<Longrightarrow> va_reserve V len cap additional = cap"
  using assms by (simp_all add: vec_law_def)

lemma reserve_fits:
  assumes "vec_law V" "n \<le> mx"
  shows "n \<le> va_reserve V len cap (min (next_power_of_two n) mx)"
proof -
  have "n \<le> min (next_power_of_two n) mx" using assms(2) next_power_of_two_spec [of n] by simp
  with vec_lawD(2) [OF assms(1), of len "min (next_power_of_two n) mx" cap] show ?thesis by linarith
qed

text \<open>What a write does: an allocation that is too small grows once, by the rounded size.\<close>

lemma buffer_write_eq:
  assumes "vec_law V" "length d \<le> db_max_capacity b"
  shows "buffer_write V b d = (Inr (), b\<lparr>db_buffer := d, db_capacity :=
    (if length d \<le> db_capacity b then db_capacity b
     else va_reserve V (length (db_buffer b)) (db_capacity b) (min (next_power_of_two (length d)) (db_max_capacity b)))\<rparr>)"
  using assms reserve_fits [OF assms] by (simp add: buffer_write_def Let_def vec_lawD(3) [OF assms(1)])

lemma buffer_write_ok:
  assumes "vec_law V" "buffer_ok b"
  shows "buffer_ok (snd (buffer_write V b d))"
proof (cases "length d \<le> db_max_capacity b")
  case True
  with assms reserve_fits [OF assms(1) True] show ?thesis by (simp add: buffer_ok_def buffer_write_eq [OF assms(1) True])
qed (use assms(2) in \<open>simp add: buffer_write_def\<close>)

lemma buffer_step_ok:
  "buffer_step V b b' \<Longrightarrow> vec_law V \<Longrightarrow> buffer_ok b \<Longrightarrow> buffer_ok b' \<and> db_max_capacity b' = db_max_capacity b"
proof (induction rule: buffer_step.induct)
  case (write_any b d)
  then show ?case using buffer_write_ok [of V b d] by (simp add: buffer_write_def Let_def)
qed (auto simp: buffer_ok_def buffer_put_def buffer_clear_def buffer_reset_def store_def bind_eq_Some_conv split: if_splits)

lemma exact_alloc_law: "vec_law exact_alloc"
  by (simp add: vec_law_def exact_alloc_def)

text \<open>
  The limit is on the contents only: what is reserved comes on top of the old contents, so that the
  allocation exceeds the limit, even with an allocator that gives exactly what is asked for.
\<close>

lemma capacity_exceeds_limit:
  "\<exists>b b'. buffer_new exact_alloc 10 100 = Inr b \<and> (buffer_step exact_alloc)\<^sup>*\<^sup>* b b' \<and> db_max_capacity b' = 100 \<and> db_capacity b' = 160"
proof -
  let ?b = "\<lparr>db_buffer = [], db_capacity = 10, db_max_capacity = 100\<rparr>"
  let ?b1 = "snd (buffer_write exact_alloc ?b (replicate 60 0))"
  let ?b2 = "snd (buffer_write exact_alloc ?b1 (replicate 70 0))"
  have p: "next_power_of_two 60 = 64" "next_power_of_two 70 = 128"
    by (simp_all add: next_power_of_two_def power_of_two_from.simps)
  have "(buffer_step exact_alloc)\<^sup>*\<^sup>* ?b ?b2" by (meson buffer_step.write_any rtranclp.rtrancl_into_rtrancl rtranclp.rtrancl_refl)
  then show ?thesis
    by (intro exI [of _ ?b] exI [of _ ?b2]) (simp add: buffer_new_def buffer_write_def Let_def p exact_alloc_def)
qed

section \<open>Round robin\<close>

text \<open>The indices returned by successive borrows.\<close>

primrec borrows :: "('p \<Rightarrow> (nat \<times> 'p) exec) \<Rightarrow> nat \<Rightarrow> 'p \<Rightarrow> nat list" where
  "borrows borrow 0 p = []"
| "borrows borrow (Suc n) p = (case borrow p of None \<Rightarrow> [] | Some (i, p') \<Rightarrow> i # borrows borrow n p')"

lemma mod_shift_inj:
  assumes "(a + i) mod n = (a + j) mod n" "i < n" "j < n"
  shows "i = (j :: nat)"
proof -
  have *: "x = y" if "(a + x) mod n = (a + y) mod n" "x < n" "y < n" "x \<le> y" for x y
  proof -
    from that have "n dvd (a + y) - (a + x)" by (metis add_le_cancel_left mod_eq_dvd_iff_nat)
    with that show ?thesis by (auto dest: dvd_imp_le)
  qed
  from *[of i j] *[of j i] assms show ?thesis by (metis nle_le)
qed

text \<open>What both pools promise: a borrow returns the counter modulo the size, and counts.\<close>

locale round_robin =
  fixes size_of :: "'p \<Rightarrow> nat" and counter :: "'p \<Rightarrow> u64" and borrow :: "'p \<Rightarrow> (nat \<times> 'p) exec"
  assumes borrow_index: "borrow p = ret (i, p') \<Longrightarrow> i = unat (counter p) mod size_of p"
    and borrow_counts: "borrow p = ret (i, p') \<Longrightarrow> counter p' = counter p + 1"
    and borrow_keeps: "borrow p = ret (i, p') \<Longrightarrow> size_of p' = size_of p"
    and borrow_panics: "borrow p = panic \<longleftrightarrow> size_of p = 0"
begin

lemma borrow_some: "0 < size_of p \<Longrightarrow> \<exists>p'. borrow p = ret (unat (counter p) mod size_of p, p')"
  using borrow_panics [of p] borrow_index by (cases "borrow p") auto

lemma borrows_eq:
  "0 < size_of p \<Longrightarrow> unat (counter p) + n \<le> 2 ^ 64 \<Longrightarrow>
   borrows borrow n p = map (\<lambda>i. (unat (counter p) + i) mod size_of p) [0..<n]"
proof (induction n arbitrary: p)
  case (Suc n)
  obtain p' where p': "borrow p = ret (unat (counter p) mod size_of p, p')" using borrow_some [OF Suc.prems(1)] by blast
  show ?case
  proof (cases n)
    case (Suc m)
    have "unat (counter p') = Suc (unat (counter p))"
      using Suc.prems(2) Suc borrow_counts [OF p'] by (simp add: unat_word_ariths)
    with Suc.IH [of p'] Suc.prems borrow_keeps [OF p'] p' show ?thesis
      by (simp add: upt_conv_Cons map_Suc_upt [symmetric] del: upt_Suc)
  qed (simp add: p')
qed simp

lemma borrows_distinct:
  assumes "0 < size_of p" "n \<le> size_of p" "unat (counter p) + n \<le> 2 ^ 64"
  shows "length (borrows borrow n p) = n \<and> distinct (borrows borrow n p) \<and> set (borrows borrow n p) \<subseteq> {..<size_of p}"
proof -
  have "inj_on (\<lambda>i. (unat (counter p) + i) mod size_of p) (set [0..<n])"
  proof (rule inj_onI)
    fix i j
    assume "i \<in> set [0..<n]" "j \<in> set [0..<n]" and e: "(unat (counter p) + i) mod size_of p = (unat (counter p) + j) mod size_of p"
    then show "i = j" using assms(2) by (intro mod_shift_inj [OF e]) auto
  qed
  then show ?thesis using assms by (auto simp: borrows_eq [OF assms(1,3)] distinct_map)
qed

end

interpretation pool_rr: round_robin "\<lambda>p. length (dp_buffers p)" dp_next_index pool_get_buffer
  by unfold_locales (auto simp: pool_get_buffer_def checked_rem_def split: if_splits)

interpretation arena_rr: round_robin "\<lambda>a. length (ta_buffers a)" ta_next_index arena_get_buffer
  by unfold_locales (auto simp: arena_get_buffer_def checked_rem_def split: if_splits)

lemma pool_borrows_distinct:
  assumes "pool_new V n initial mx = Inr p" "0 < n" "k \<le> n" "n \<le> 2 ^ 64"
  shows "distinct (borrows pool_get_buffer k p) \<and> length (borrows pool_get_buffer k p) = k"
proof -
  have len: "length bs = m" if "pool_buffers V m initial mx = Inr bs" for m bs
    using that by (induction m arbitrary: bs) (auto split: sum.splits)
  from assms(1) obtain bs where "pool_buffers V n initial mx = Inr bs" "dp_buffers p = bs" "dp_next_index p = 0"
    by (auto simp: pool_new_def split: sum.splits)
  with len assms(2-4) pool_rr.borrows_distinct [of p k] show ?thesis by auto
qed

text \<open>
  When the counter wraps around and the size does not divide the number of counter values, the
  same buffer is handed out twice in a row.
\<close>

lemma arena_repeats_at_wrap:
  "borrows arena_get_buffer (Suc (Suc 0)) ((arena_new 3 8)\<lparr>ta_next_index := - 1\<rparr>) = [0, 0]"
proof -
  have "unat (- 1 :: u64) mod 3 = 0" by (simp add: unsigned_minus_1_eq_mask mask_eq_exp_minus_1)
  then show ?thesis by (simp add: arena_get_buffer_def checked_rem_def arena_new_def)
qed

section \<open>Owned translation\<close>

text \<open>The owned result is the frame of the translation into a buffer, for every parsed message.\<close>

lemma translate_safe_eq:
  assumes "iridium_wf m"
  shows "translate_safe sq m = ret (Some (safe_result_new (asts_frame 1 sq (iridium_payload m))), sq + 1)"
proof -
  have "unat (i_payload_len m) \<le> 340" using assms by (simp add: iridium_wf_def)
  then show ?thesis using assms
    by (simp add: translate_safe_def translate_zero_alloc_def asts_translate_eq asts_translate_with_type_eq slice_ok Let_def)
qed

text \<open>
  C38. The limit of the dynamic buffer, for every allocator with the documented behaviour: after any
  sequence of writes, slice updates, clears and resets the contents fit the configured maximum and
  the allocation. A write of at most the maximum replaces the contents. It leaves the allocation
  alone if the data fit it; otherwise the allocation grows once, to the length of the old contents
  plus the size rounded up to a power of two (but not above the maximum), or more. A write above the
  maximum is refused with both sizes and leaves the buffer as it is.
\<close>

theorem buffer_bounds:
  assumes "vec_law V" "buffer_new V initial mx = Inr b" "(buffer_step V)\<^sup>*\<^sup>* b b'"
  shows "length (db_buffer b') \<le> mx \<and> length (db_buffer b') \<le> db_capacity b' \<and>
    (if length d \<le> mx
     then \<exists>cap. buffer_write V b' d = (Inr (), b'\<lparr>db_buffer := d, db_capacity := cap\<rparr>) \<and> length d \<le> cap \<and>
       (if length d \<le> db_capacity b' then cap = db_capacity b'
        else length (db_buffer b') + min (next_power_of_two (length d)) mx \<le> cap)
     else buffer_write V b' d = (Inl (TooLarge (length d) mx), b'))"
proof -
  have "buffer_ok b" "db_max_capacity b = mx" using assms(2) by (auto simp: buffer_new_def buffer_ok_def split: if_splits)
  with assms(3) have ok: "buffer_ok b' \<and> db_max_capacity b' = mx"
    by (induction rule: rtranclp_induct) (use buffer_step_ok [OF _ assms(1)] in fastforce)+
  show ?thesis
  proof (cases "length d \<le> mx")
    case True
    with ok reserve_fits [OF assms(1) True] vec_lawD(2) [OF assms(1)] show ?thesis
      by (auto simp: buffer_ok_def buffer_write_eq [OF assms(1)] simp del: min_add_distrib_right)
  qed (use ok in \<open>simp add: buffer_ok_def buffer_write_def\<close>)
qed

theorem buffer_bounds_witness:
  "\<exists>b b'. buffer_new exact_alloc 2 4 = Inr b \<and> (buffer_step exact_alloc)\<^sup>*\<^sup>* b b' \<and> db_buffer b' = [1, 2, 3] \<and>
     length (db_buffer b') \<le> 4 \<and> buffer_write exact_alloc b' [1, 2, 3, 4, 5] = (Inl (TooLarge 5 4), b')"
proof -
  let ?b = "\<lparr>db_buffer = [], db_capacity = 2, db_max_capacity = 4\<rparr>"
  let ?b' = "snd (buffer_write exact_alloc ?b [1, 2, 3])"
  have b: "buffer_new exact_alloc 2 4 = Inr ?b" "(buffer_step exact_alloc)\<^sup>*\<^sup>* ?b ?b'"
    by (auto simp: buffer_new_def exact_alloc_def intro: buffer_step.write_any)
  then show ?thesis using buffer_bounds [OF exact_alloc_law b, of "[1, 2, 3, 4, 5]"]
    by (intro exI [of _ ?b] exI [of _ ?b']) (simp add: buffer_write_def Let_def)
qed

end
