(* ===== verification/Otel_Span.thy ===== *)
theory Otel_Span
  imports Codec
begin

text \<open>
  \<open>src/src/otel_compact_span.rs\<close>: the compact span of the telemetry path, its binary
  format and the reader. A read past the end of a \<open>Bytes\<close> buffer panics. The errors of
  the reader are its message texts.
\<close>

section \<open>Spans\<close>

datatype span_status = SpanOk | SpanError

record compact_span =
  cs_trace_id :: bytes
  cs_span_id :: bytes
  cs_parent_span_id :: bytes
  cs_name :: string
  cs_start_time_unix_nano :: u64
  cs_end_time_unix_nano :: u64
  cs_t_event :: i64
  cs_t_system :: i64
  cs_sensor_id :: string
  cs_attributes :: "(string \<times> string) list"
  cs_status :: span_status

definition span_new :: "u64 \<Rightarrow> i64 \<Rightarrow> bytes \<Rightarrow> bytes \<Rightarrow> string \<Rightarrow> string \<Rightarrow> compact_span" where
  "span_new now now_ms trace_id span_id name sensor_id =
     \<lparr>cs_trace_id = trace_id, cs_span_id = span_id, cs_parent_span_id = replicate 8 0, cs_name = name,
      cs_start_time_unix_nano = now, cs_end_time_unix_nano = now, cs_t_event = now_ms, cs_t_system = now_ms,
      cs_sensor_id = sensor_id, cs_attributes = [], cs_status = SpanOk\<rparr>"

definition with_parent :: "compact_span \<Rightarrow> bytes \<Rightarrow> compact_span" where
  "with_parent s p = s\<lparr>cs_parent_span_id := p\<rparr>"

definition with_t_event :: "compact_span \<Rightarrow> i64 \<Rightarrow> compact_span" where
  "with_t_event s t = s\<lparr>cs_t_event := t\<rparr>"

definition with_t_system :: "compact_span \<Rightarrow> i64 \<Rightarrow> compact_span" where
  "with_t_system s t = s\<lparr>cs_t_system := t\<rparr>"

definition with_attribute :: "compact_span \<Rightarrow> string \<Rightarrow> string \<Rightarrow> compact_span" where
  "with_attribute s k v = s\<lparr>cs_attributes := cs_attributes s @ [(k, v)]\<rparr>"

definition with_status :: "compact_span \<Rightarrow> span_status \<Rightarrow> compact_span" where
  "with_status s st = s\<lparr>cs_status := st\<rparr>"

definition span_complete :: "u64 \<Rightarrow> compact_span \<Rightarrow> compact_span" where
  "span_complete now s = s\<lparr>cs_end_time_unix_nano := now\<rparr>"

definition span_spread_ms :: "compact_span \<Rightarrow> i64" where
  "span_spread_ms s = cs_t_system s - cs_t_event s"

section \<open>Writer\<close>

text \<open>A length byte (which wraps at 256) and the bytes of the text.\<close>

definition put_text :: "string \<Rightarrow> bytes" where
  "put_text s = word_of_nat (length s) # bytes_of s"

fun status_byte :: "span_status \<Rightarrow> u8" where
  "status_byte SpanOk = 0"
| "status_byte SpanError = 1"

fun put_attributes :: "(string \<times> string) list \<Rightarrow> bytes" where
  "put_attributes [] = []"
| "put_attributes ((k, v) # rest) = put_text k @ put_text v @ put_attributes rest"

definition span_encode :: "compact_span \<Rightarrow> bytes" where
  "span_encode s =
     cs_trace_id s @ cs_span_id s @ cs_parent_span_id s @ put_text (cs_name s) @
     u64_to_be (cs_start_time_unix_nano s) @ u64_to_be (cs_end_time_unix_nano s) @
     u64_to_be (cs_t_event s) @ u64_to_be (cs_t_system s) @ put_text (cs_sensor_id s) @
     [word_of_nat (length (cs_attributes s))] @ put_attributes (cs_attributes s) @ [status_byte (cs_status s)]"

definition span_encoded_size :: "compact_span \<Rightarrow> nat" where
  "span_encoded_size s =
     16 + 8 + 8 + 1 + length (cs_name s) + 8 + 8 + 8 + 8 + 1 + length (cs_sensor_id s) + 1 +
     sum_list (map (\<lambda>(k, v). 1 + length k + 1 + length v) (cs_attributes s)) + 1"

section \<open>Reader\<close>

text \<open>\<open>copy_to_slice\<close> and \<open>split_to\<close>; \<open>get_u8\<close>; \<open>get_u64\<close> and \<open>get_i64\<close>\<close>

definition get_bytes :: "nat \<Rightarrow> bytes \<Rightarrow> (bytes \<times> bytes) exec" where
  "get_bytes n buf = (if n \<le> length buf then ret (take n buf, drop n buf) else panic)"

fun get_u8 :: "bytes \<Rightarrow> (u8 \<times> bytes) exec" where
  "get_u8 [] = panic"
| "get_u8 (b # buf) = ret (b, buf)"

definition get_u64 :: "bytes \<Rightarrow> (u64 \<times> bytes) exec" where
  "get_u64 buf = do { (b, buf) \<leftarrow> get_bytes 8 buf; ret (u64_from_be b, buf) }"

text \<open>A length byte, then that many bytes of UTF-8.\<close>

definition get_text :: "string \<Rightarrow> string \<Rightarrow> bytes \<Rightarrow> (string + string \<times> bytes) exec" where
  "get_text short invalid buf = do {
     (n, buf) \<leftarrow> get_u8 buf;
     if length buf < unat n then ret (Inl short)
     else do {
       (b, buf) \<leftarrow> get_bytes (unat n) buf;
       ret (case from_utf8 b of None \<Rightarrow> Inl invalid | Some t \<Rightarrow> Inr (t, buf)) } }"

text \<open>The same with the check that there is a length byte, as in the attribute loop.\<close>

definition get_text_checked :: "string \<Rightarrow> string \<Rightarrow> string \<Rightarrow> bytes \<Rightarrow> (string + string \<times> bytes) exec" where
  "get_text_checked no_len short invalid buf =
     (if length buf < 1 then ret (Inl no_len) else get_text short invalid buf)"

fun get_attributes :: "nat \<Rightarrow> bytes \<Rightarrow> (string + (string \<times> string) list \<times> bytes) exec" where
  "get_attributes 0 buf = ret (Inr ([], buf))"
| "get_attributes (Suc n) buf =
     try_bind (get_text_checked ''Insufficient data for attribute key length''
                 ''Insufficient data for attribute key'' ''Invalid UTF-8 in attribute key'' buf) (\<lambda>(k, buf).
     try_bind (get_text_checked ''Insufficient data for attribute value length''
                 ''Insufficient data for attribute value'' ''Invalid UTF-8 in attribute value'' buf) (\<lambda>(v, buf).
     try_bind (get_attributes n buf) (\<lambda>(rest, buf). ret (Inr ((k, v) # rest, buf)))))"

definition span_decode :: "bytes \<Rightarrow> (string + compact_span) exec" where
  "span_decode data =
     (if length data < 16 + 8 + 8 + 1 + 8 + 8 + 8 + 8 + 1 + 1 + 1
      then ret (Inl ''Insufficient data for compact span'')
      else do {
        (trace_id, buf) \<leftarrow> get_bytes 16 data;
        (span_id, buf) \<leftarrow> get_bytes 8 buf;
        (parent_span_id, buf) \<leftarrow> get_bytes 8 buf;
        try_bind (get_text ''Insufficient data for name'' ''Invalid UTF-8 in name'' buf) (\<lambda>(name, buf). do {
        (start, buf) \<leftarrow> get_u64 buf;
        (stop, buf) \<leftarrow> get_u64 buf;
        (t_event, buf) \<leftarrow> get_u64 buf;
        (t_system, buf) \<leftarrow> get_u64 buf;
        try_bind (get_text ''Insufficient data for sensor_id'' ''Invalid UTF-8 in sensor_id'' buf) (\<lambda>(sensor_id, buf). do {
        (attr_count, buf) \<leftarrow> get_u8 buf;
        try_bind (get_attributes (unat attr_count) buf) (\<lambda>(attributes, buf). do {
        (st, buf) \<leftarrow> get_u8 buf;
        ret (if st = 0 \<or> st = 1
             then Inr \<lparr>cs_trace_id = trace_id, cs_span_id = span_id, cs_parent_span_id = parent_span_id,
                       cs_name = name, cs_start_time_unix_nano = start, cs_end_time_unix_nano = stop,
                       cs_t_event = t_event, cs_t_system = t_system, cs_sensor_id = sensor_id,
                       cs_attributes = attributes, cs_status = (if st = 0 then SpanOk else SpanError)\<rparr>
             else Inl ''Invalid status byte'') }) }) }) })"

section \<open>Well-formed spans\<close>

definition text_wf :: "string \<Rightarrow> bool" where
  "text_wf s \<longleftrightarrow> length s < 256 \<and> utf8_valid (bytes_of s)"

definition span_wf :: "compact_span \<Rightarrow> bool" where
  "span_wf s \<longleftrightarrow>
     length (cs_trace_id s) = 16 \<and> length (cs_span_id s) = 8 \<and> length (cs_parent_span_id s) = 8 \<and>
     text_wf (cs_name s) \<and> text_wf (cs_sensor_id s) \<and> length (cs_attributes s) < 256 \<and>
     (\<forall>(k, v)\<in>set (cs_attributes s). text_wf k \<and> text_wf v)"

section \<open>Readers against writers\<close>

text \<open>Each reader succeeds on exactly what the writer of the same field produces.\<close>

lemma get_bytes_iff: "get_bytes n buf = ret (b, r) \<longleftrightarrow> length b = n \<and> buf = b @ r"
  by (auto simp: get_bytes_def)

lemma get_u8_iff: "get_u8 buf = ret (b, r) \<longleftrightarrow> buf = b # r"
  by (cases buf) auto

lemma get_u64_iff: "get_u64 buf = ret (w, r) \<longleftrightarrow> buf = u64_to_be w @ r"
proof
  assume "get_u64 buf = ret (w, r)"
  then obtain b where "length b = 8" "buf = b @ r" "w = u64_from_be b"
    by (auto simp: get_u64_def get_bytes_iff bind_eq_Some_conv)
  then show "buf = u64_to_be w @ r" by simp
qed (simp add: get_u64_def get_bytes_def)

lemma get_text_iff: "get_text x y buf = ret (Inr (t, r)) \<longleftrightarrow> text_wf t \<and> buf = put_text t @ r"
proof
  assume "get_text x y buf = ret (Inr (t, r))"
  then obtain n b where n: "buf = n # b @ r" "length b = unat n" "from_utf8 b = Some t"
    by (auto simp: get_text_def get_u8_iff get_bytes_iff bind_eq_Some_conv split: if_splits option.splits)
  from n(3) have "b = bytes_of t" "utf8_valid b" by (auto dest: from_utf8_SomeD)
  moreover from this n(2) have "length t = unat n" by simp
  ultimately show "text_wf t \<and> buf = put_text t @ r" using n(1) by (simp add: text_wf_def put_text_def)
next
  assume "text_wf t \<and> buf = put_text t @ r"
  then show "get_text x y buf = ret (Inr (t, r))"
    by (simp add: get_text_def put_text_def text_wf_def get_bytes_def from_utf8_bytes_of)
qed

lemma get_text_checked_iff:
  "get_text_checked l x y buf = ret (Inr (t, r)) \<longleftrightarrow> text_wf t \<and> buf = put_text t @ r"
  by (auto simp: get_text_checked_def get_text_iff put_text_def)

lemma get_attributes_iff:
  "get_attributes n buf = ret (Inr (ats, r)) \<longleftrightarrow>
     length ats = n \<and> (\<forall>(k, v)\<in>set ats. text_wf k \<and> text_wf v) \<and> buf = put_attributes ats @ r"
proof (induction n arbitrary: buf ats)
  case (Suc n)
  show ?case
    by (cases ats) (auto simp: try_bind_Inr_iff get_text_checked_iff Suc)
qed auto

lemmas reader_iffs = get_bytes_iff get_u8_iff get_u64_iff get_text_iff get_attributes_iff

lemma reader_apps:
  "length b = n \<Longrightarrow> get_bytes n (b @ r) = ret (b, r)"
  "get_u64 (u64_to_be w @ r) = ret (w, r)"
  "text_wf t \<Longrightarrow> get_text x y (put_text t @ r) = ret (Inr (t, r))"
  "length ats = n \<Longrightarrow> \<forall>(k, v)\<in>set ats. text_wf k \<and> text_wf v \<Longrightarrow>
     get_attributes n (put_attributes ats @ r) = ret (Inr (ats, r))"
  by (simp_all add: reader_iffs)

lemma length_put_text [simp]: "length (put_text s) = 1 + length s"
  by (simp add: put_text_def)

lemma length_put_attributes:
  "length (put_attributes ats) = sum_list (map (\<lambda>(k, v). 1 + length k + 1 + length v) ats)"
  by (induction ats rule: put_attributes.induct) auto

lemma length_span_encode:
  "span_wf s \<Longrightarrow> length (span_encode s) = span_encoded_size s"
  by (simp add: span_encode_def span_encoded_size_def span_wf_def length_put_attributes)

lemma span_encoded_size_ge: "68 \<le> span_encoded_size s"
  by (simp add: span_encoded_size_def)

lemma status_of_byte: "st = 0 \<or> st = 1 \<Longrightarrow> status_byte (if st = 0 then SpanOk else SpanError) = st"
  by auto

lemma span_decode_sound:
  assumes "span_decode d = ret (Inr s)"
  shows "span_wf s \<and> (\<exists>r. d = span_encode s @ r)"
proof -
  have "\<not> length d < 16 + 8 + 8 + 1 + 8 + 8 + 8 + 8 + 1 + 1 + 1"
    using assms unfolding span_decode_def by (auto split: if_splits)
  with assms show ?thesis
    unfolding span_decode_def
    apply (simp only: if_False)
    apply (clarsimp simp: try_bind_Inr_iff bind_eq_Some_conv reader_iffs simp del: length_append split: if_splits)
    apply (auto simp: span_encode_def span_wf_def)
    done
qed

lemma status_byte_iff:
  "status_byte st = 0 \<longleftrightarrow> st = SpanOk" "status_byte st = 1 \<longleftrightarrow> st = SpanError" "st \<noteq> SpanOk \<longleftrightarrow> st = SpanError"
  by (cases st; simp)+

lemma span_decode_complete:
  assumes "span_wf s"
  shows "span_decode (span_encode s @ r) = ret (Inr s)"
proof -
  have "68 \<le> length (span_encode s @ r)"
    using length_span_encode [OF assms] span_encoded_size_ge [of s] by simp
  then show ?thesis using assms
    by (cases s, cases "cs_status s") (simp_all add: span_decode_def span_encode_def span_wf_def reader_apps)
qed

interpretation span_codec: codec span_encode span_decode "\<lambda>s. ret (Inr s)" span_wf
  by unfold_locales (use span_decode_complete [where r = "[]"] in auto)

text \<open>No proper prefix of an encoding is an encoding.\<close>

lemma span_prefix_free:
  assumes "span_wf s" "span_wf x" "span_encode s = span_encode x @ r"
  shows "r = [] \<and> x = s"
  using span_decode_complete [OF assms(2), of r] span_codec.roundtrip [OF assms(1)] assms(3) by auto

text \<open>
  A frame that lost its last byte is not reported as an error: the reader panics in \<open>get_u8\<close>
  as soon as the frame is longer than the shortest one.
\<close>

lemma span_truncated_panics:
  assumes "span_wf s" "69 \<le> span_encoded_size s"
  shows "span_decode (butlast (span_encode s)) = panic"
proof -
  have "butlast (span_encode s) =
     cs_trace_id s @ cs_span_id s @ cs_parent_span_id s @ put_text (cs_name s) @
     u64_to_be (cs_start_time_unix_nano s) @ u64_to_be (cs_end_time_unix_nano s) @
     u64_to_be (cs_t_event s) @ u64_to_be (cs_t_system s) @ put_text (cs_sensor_id s) @
     word_of_nat (length (cs_attributes s)) # put_attributes (cs_attributes s) @ []"
    (is "_ = ?cut") by (simp add: span_encode_def butlast_append)
  moreover have "68 \<le> length (butlast (span_encode s))"
    using assms length_span_encode [OF assms(1)] by simp
  then have "\<not> length ?cut < 68" unfolding calculation by simp
  moreover have "span_decode ?cut = panic" if "\<not> length ?cut < 68"
    using assms(1) that unfolding span_decode_def
    by (simp add: span_wf_def reader_apps del: append_Nil2 length_append)
  ultimately show ?thesis by simp
qed

text \<open>
  C19. The reader of compact spans accepts exactly the encodings of well-formed spans, with
  anything after them, and returns the span that was encoded; so no truncated encoding is ever
  accepted as some other span. The size estimate is the exact size.
\<close>

theorem span_decode_exact:
  "(span_decode d = ret (Inr s) \<longleftrightarrow> span_wf s \<and> (\<exists>r. d = span_encode s @ r)) \<and>
   (span_wf s \<longrightarrow> length (span_encode s) = span_encoded_size s \<and>
      (\<forall>k < span_encoded_size s. \<forall>x. span_decode (take k (span_encode s)) \<noteq> ret (Inr x)))"
proof (intro conjI impI allI notI)
  show "span_decode d = ret (Inr s) \<longleftrightarrow> span_wf s \<and> (\<exists>r. d = span_encode s @ r)"
    using span_decode_sound span_decode_complete by auto
  fix k x
  assume wf: "span_wf s" and k: "k < span_encoded_size s"
    and x: "span_decode (take k (span_encode s)) = ret (Inr x)"
  from span_decode_sound [OF x] obtain r where r: "span_wf x" "take k (span_encode s) = span_encode x @ r" by auto
  then have "span_encode s = span_encode x @ (r @ drop k (span_encode s))" by (metis append.assoc append_take_drop_id)
  from span_prefix_free [OF wf r(1) this] k length_span_encode [OF wf] show False by simp
qed (rule length_span_encode)

theorem span_decode_exact_witness:
  "\<exists>s. s = with_attribute (span_new 5 6 (replicate 16 1) (replicate 8 2) ''read'' ''dev'') ''t'' ''25'' \<and>
     span_wf s \<and> span_decode (span_encode s @ [9]) = ret (Inr s) \<and>
     (\<forall>x. span_decode (take 70 (span_encode s)) \<noteq> ret (Inr x))"
proof -
  let ?s = "with_attribute (span_new 5 6 (replicate 16 1) (replicate 8 2) ''read'' ''dev'') ''t'' ''25''"
  have "span_wf ?s" by (simp add: span_wf_def text_wf_def with_attribute_def span_new_def bytes_of_def)
  moreover have "70 < span_encoded_size ?s" by (simp add: span_encoded_size_def with_attribute_def span_new_def)
  ultimately show ?thesis using span_decode_exact [of "span_encode ?s @ [9]" ?s] by auto
qed

end
