(* ===== verification/Externals.thy ===== *)
theory Externals
  imports Prelude
begin

text \<open>
  The third-party functions the crate calls, as one record of parameters: the \<open>crc\<close>,
  \<open>crc32fast\<close>, \<open>hex\<close>, \<open>zstd\<close> and \<open>flate2\<close> crates and the \<open>nom\<close>
  number parsers. Every operation of the model that calls one of them takes the record as
  an argument. What the code relies on is stated as named laws of documented behaviour;
  \<open>ref_ext\<close> is a concrete instance that satisfies all of them.
\<close>

record ext =
  x_crc16 :: "bytes \<Rightarrow> u16"                                \<comment> \<open>\<open>Crc::<u16>::new(&CRC_16_IBM_3740).checksum\<close>\<close>
  x_crc32 :: "bytes \<Rightarrow> u32"                                \<comment> \<open>\<open>crc32fast::Hasher\<close>\<close>
  x_hex_encode :: "bytes \<Rightarrow> string"                        \<comment> \<open>\<open>hex::encode\<close>\<close>
  x_hex_decode :: "string \<Rightarrow> bytes option"                 \<comment> \<open>\<open>hex::decode\<close>\<close>
  x_zstd_encode :: "bytes \<Rightarrow> int \<Rightarrow> bytes option"          \<comment> \<open>\<open>zstd::encode_all\<close>\<close>
  x_zstd_decode :: "bytes \<Rightarrow> bytes option"                 \<comment> \<open>\<open>zstd::decode_all\<close>\<close>
  x_gzip_encode :: "bytes \<Rightarrow> int \<Rightarrow> bytes option"          \<comment> \<open>\<open>GzEncoder\<close>\<close>
  x_gzip_decode :: "bytes \<Rightarrow> bytes option"                 \<comment> \<open>\<open>GzDecoder::read_to_end\<close>\<close>
  x_be_u8 :: "bytes \<Rightarrow> (bytes \<times> u8) option"               \<comment> \<open>\<open>nom::number::complete::be_u8\<close>\<close>
  x_be_u16 :: "bytes \<Rightarrow> (bytes \<times> u16) option"
  x_be_u32 :: "bytes \<Rightarrow> (bytes \<times> u32) option"
  x_be_u64 :: "bytes \<Rightarrow> (bytes \<times> u64) option"
  x_be_f64 :: "bytes \<Rightarrow> (bytes \<times> f64_bits) option"
  x_take :: "nat \<Rightarrow> bytes \<Rightarrow> (bytes \<times> bytes) option"      \<comment> \<open>\<open>nom::bytes::complete::take\<close>\<close>

section \<open>Documented behaviour\<close>

text \<open>\<open>hex::decode\<close> reads two digits per byte, so it inverts lower-case hexadecimal text.\<close>

definition hex_decode_law :: "ext \<Rightarrow> bool" where
  "hex_decode_law e \<longleftrightarrow>
     (\<forall>bs. x_hex_decode e (hex_text bs) = Some bs) \<and>
     (\<forall>s bs. x_hex_decode e s = Some bs \<longrightarrow> length s = 2 * length bs)"

text \<open>\<open>hex::encode\<close> prints lower-case hexadecimal text.\<close>

definition hex_encode_law :: "ext \<Rightarrow> bool" where
  "hex_encode_law e \<longleftrightarrow> (\<forall>bs. x_hex_encode e bs = hex_text bs)"

text \<open>Decompression undoes compression.\<close>

definition zstd_law :: "ext \<Rightarrow> bool" where
  "zstd_law e \<longleftrightarrow> (\<forall>d l c. x_zstd_encode e d l = Some c \<longrightarrow> x_zstd_decode e c = Some d)"

definition gzip_law :: "ext \<Rightarrow> bool" where
  "gzip_law e \<longleftrightarrow> (\<forall>d l c. x_gzip_encode e d l = Some c \<longrightarrow> x_gzip_decode e c = Some d)"

text \<open>
  The \<open>complete\<close> parsers of nom fail on a short input and otherwise return the rest of
  the input with the big-endian value of its first bytes.
\<close>

definition nom_law :: "ext \<Rightarrow> bool" where
  "nom_law e \<longleftrightarrow>
     (\<forall>i. x_be_u8 e i = (case i of [] \<Rightarrow> None | b # r \<Rightarrow> Some (r, b))) \<and>
     (\<forall>i. x_be_u16 e i = (if length i < 2 then None else Some (drop 2 i, u16_from_be (take 2 i)))) \<and>
     (\<forall>i. x_be_u32 e i = (if length i < 4 then None else Some (drop 4 i, u32_from_be (take 4 i)))) \<and>
     (\<forall>i. x_be_u64 e i = (if length i < 8 then None else Some (drop 8 i, u64_from_be (take 8 i)))) \<and>
     (\<forall>i. x_be_f64 e i = (if length i < 8 then None else Some (drop 8 i, u64_from_be (take 8 i)))) \<and>
     (\<forall>n i. x_take e n i = (if length i < n then None else Some (drop n i, take n i)))"

section \<open>A concrete instance\<close>

text \<open>
  Hexadecimal decoding and the nom parsers as documented; the checksums and compressors
  are simple functions that satisfy the laws, used to evaluate the model on examples.
\<close>

definition hex_val :: "char \<Rightarrow> nat option" where
  "hex_val c = map_of (zip ''0123456789abcdef'' [0..<16]) c"

fun ref_hex_decode :: "string \<Rightarrow> bytes option" where
  "ref_hex_decode [] = Some []"
| "ref_hex_decode [c] = None"
| "ref_hex_decode (c # d # s) =
     (case (hex_val c, hex_val d, ref_hex_decode s) of
        (Some h, Some l, Some bs) \<Rightarrow> Some (word_of_nat (16 * h + l) # bs)
      | _ \<Rightarrow> None)"

definition ref_ext :: ext where
  "ref_ext = \<lparr>
     x_crc16 = (\<lambda>bs. word_of_nat (sum_list (map unat bs))),
     x_crc32 = (\<lambda>bs. word_of_nat (sum_list (map unat bs))),
     x_hex_encode = hex_text,
     x_hex_decode = ref_hex_decode,
     x_zstd_encode = (\<lambda>d l. Some d), x_zstd_decode = Some,
     x_gzip_encode = (\<lambda>d l. Some d), x_gzip_decode = Some,
     x_be_u8 = (\<lambda>i. case i of [] \<Rightarrow> None | b # r \<Rightarrow> Some (r, b)),
     x_be_u16 = (\<lambda>i. if length i < 2 then None else Some (drop 2 i, u16_from_be (take 2 i))),
     x_be_u32 = (\<lambda>i. if length i < 4 then None else Some (drop 4 i, u32_from_be (take 4 i))),
     x_be_u64 = (\<lambda>i. if length i < 8 then None else Some (drop 8 i, u64_from_be (take 8 i))),
     x_be_f64 = (\<lambda>i. if length i < 8 then None else Some (drop 8 i, u64_from_be (take 8 i))),
     x_take = (\<lambda>n i. if length i < n then None else Some (drop n i, take n i)) \<rparr>"

lemma hex_val_digit_char: "d < 16 \<Longrightarrow> hex_val (digit_char d) = Some d"
proof -
  assume "d < 16"
  then have "d \<in> set [0..<16]" by simp
  moreover have "\<forall>d\<in>set [0..<16]. hex_val (digit_char d) = Some d"
    by (simp add: hex_val_def digit_char_def upt_rec numeral_nat)
  ultimately show ?thesis by blast
qed

lemma ref_hex_decode_text: "ref_hex_decode (hex_text bs) = Some bs"
proof (induction bs)
  case (Cons b bs)
  have "unat b div 16 < 16" using unat_byte_less [of b] by (simp add: less_mult_imp_div_less)
  then have "hex_val (digit_char (unat b div 16)) = Some (unat b div 16)"
    and "hex_val (digit_char (unat b mod 16)) = Some (unat b mod 16)"
    by (simp_all add: hex_val_digit_char)
  with Cons show ?case by (simp add: hex_text_def fmt_02x_def mult.commute)
qed (simp add: hex_text_def)

lemma ref_hex_decode_length: "ref_hex_decode s = Some bs \<Longrightarrow> length s = 2 * length bs"
  by (induction s arbitrary: bs rule: ref_hex_decode.induct) (auto split: option.splits)

lemma ref_ext_laws:
  "hex_decode_law ref_ext" "hex_encode_law ref_ext" "zstd_law ref_ext" "gzip_law ref_ext" "nom_law ref_ext"
  by (simp_all add: hex_decode_law_def hex_encode_law_def zstd_law_def gzip_law_def nom_law_def
      ref_ext_def ref_hex_decode_text ref_hex_decode_length)

end
