(* ===== verification/Otel_Bundle.thy ===== *)
theory Otel_Bundle
  imports Otel_Span Externals
begin

text \<open>
  \<open>src/src/otel_bundle.rs\<close>: bundles of compact spans for the satellite link, with optional
  compression. The compressors are parameters of the model.
\<close>

section \<open>Bundles\<close>

datatype compression_type = CompNone | Zstd | Gzip

record telemetry_bundle =
  tb_sequence_number :: u64
  tb_batch_timestamp :: i64
  tb_compression_type :: compression_type
  tb_spans :: "compact_span list"
  tb_compressed_data :: "bytes option"

definition bundle_new :: "i64 \<Rightarrow> u64 \<Rightarrow> telemetry_bundle" where
  "bundle_new now n =
     \<lparr>tb_sequence_number = n, tb_batch_timestamp = now, tb_compression_type = CompNone,
      tb_spans = [], tb_compressed_data = None\<rparr>"

definition add_span :: "telemetry_bundle \<Rightarrow> compact_span \<Rightarrow> telemetry_bundle" where
  "add_span b s = b\<lparr>tb_spans := tb_spans b @ [s]\<rparr>"

definition with_compression :: "telemetry_bundle \<Rightarrow> compression_type \<Rightarrow> telemetry_bundle" where
  "with_compression b c = b\<lparr>tb_compression_type := c\<rparr>"

text \<open>Every span behind its length in four bytes.\<close>

fun put_spans :: "compact_span list \<Rightarrow> bytes" where
  "put_spans [] = []"
| "put_spans (s # rest) = u32_to_be (word_of_nat (length (span_encode s))) @ span_encode s @ put_spans rest"

text \<open>\<open>None\<close> is the error of the compressor, which leaves the bundle as it is.\<close>

definition bundle_compress :: "ext \<Rightarrow> telemetry_bundle \<Rightarrow> int \<Rightarrow> telemetry_bundle option" where
  "bundle_compress e b level =
     (if tb_spans b = [] then Some b
      else case tb_compression_type b of
        CompNone \<Rightarrow> Some (b\<lparr>tb_compressed_data := None\<rparr>)
      | Zstd \<Rightarrow> map_option (\<lambda>c. b\<lparr>tb_compressed_data := Some c\<rparr>) (x_zstd_encode e (put_spans (tb_spans b)) level)
      | Gzip \<Rightarrow> map_option (\<lambda>c. b\<lparr>tb_compressed_data := Some c\<rparr>)
                  (x_gzip_encode e (put_spans (tb_spans b)) (uint (word_of_int level :: u32))))"

fun compression_byte :: "compression_type \<Rightarrow> u8" where
  "compression_byte CompNone = 0"
| "compression_byte Zstd = 1"
| "compression_byte Gzip = 2"

definition put_block :: "bytes \<Rightarrow> bytes" where
  "put_block d = u32_to_be (word_of_nat (length d)) @ d"

definition bundle_encode :: "telemetry_bundle \<Rightarrow> bytes" where
  "bundle_encode b =
     u64_to_be (tb_sequence_number b) @ u64_to_be (tb_batch_timestamp b) @
     [compression_byte (tb_compression_type b),
      if tb_compressed_data b \<noteq> None \<or> tb_spans b \<noteq> [] then 1 else 0] @
     (case tb_compressed_data b of
        Some d \<Rightarrow> put_block d
      | None \<Rightarrow> if tb_spans b \<noteq> [] then put_block (put_spans (tb_spans b)) else u32_to_be 0)"

section \<open>Reader\<close>

definition get_u32 :: "bytes \<Rightarrow> (u32 \<times> bytes) exec" where
  "get_u32 buf = do { (b, buf) \<leftarrow> get_bytes 4 buf; ret (u32_from_be b, buf) }"

text \<open>The loop over the spans ends with fewer than four bytes left, which it ignores.\<close>

function (sequential) get_spans :: "bytes \<Rightarrow> (string + compact_span list) exec" where
  "get_spans buf =
     (if 4 \<le> length buf
      then let n = unat (u32_from_be (take 4 buf)); buf = drop 4 buf
           in if length buf < n then ret (Inl ''Insufficient data for span'')
              else try_bind (span_decode (take n buf)) (\<lambda>s.
                   try_bind (get_spans (drop n buf)) (\<lambda>rest. ret (Inr (s # rest))))
      else ret (Inr []))"
  by pat_completeness auto
termination by (relation "measure length") auto

declare get_spans.simps [simp del]

definition compression_of_byte :: "u8 \<Rightarrow> compression_type option" where
  "compression_of_byte b =
     (if b = 0 then Some CompNone else if b = 1 then Some Zstd else if b = 2 then Some Gzip else None)"

definition decompress :: "ext \<Rightarrow> compression_type \<Rightarrow> bytes \<Rightarrow> string + bytes" where
  "decompress e c d =
     (case c of
        CompNone \<Rightarrow> Inr d
      | Zstd \<Rightarrow> ok_or (x_zstd_decode e d) ''Zstd decompression failed''
      | Gzip \<Rightarrow> ok_or (x_gzip_decode e d) ''Gzip decompression failed'')"

definition bundle_decode :: "ext \<Rightarrow> bytes \<Rightarrow> (string + telemetry_bundle) exec" where
  "bundle_decode e data =
     (if length data < 8 + 8 + 1 + 1 + 4 then ret (Inl ''Insufficient data for bundle header'')
      else do {
        (sequence_number, buf) \<leftarrow> get_u64 data;
        (batch_timestamp, buf) \<leftarrow> get_u64 buf;
        (cb, buf) \<leftarrow> get_u8 buf;
        case compression_of_byte cb of
          None \<Rightarrow> ret (Inl ''Invalid compression type'')
        | Some compression_type \<Rightarrow> do {
            (flag, buf) \<leftarrow> get_u8 buf;
            (data_len, buf) \<leftarrow> get_u32 buf;
            if length buf < unat data_len then ret (Inl ''Insufficient data for bundle payload'')
            else
              let bundle = \<lparr>tb_sequence_number = sequence_number, tb_batch_timestamp = batch_timestamp,
                            tb_compression_type = compression_type, tb_spans = [], tb_compressed_data = None\<rparr>
              in if flag = 1
                 then do {
                   (d, _) \<leftarrow> get_bytes (unat data_len) buf;
                   try_bind (ret (decompress e compression_type d)) (\<lambda>raw.
                   try_bind (get_spans raw) (\<lambda>spans.
                   ret (Inr (bundle\<lparr>tb_spans := spans\<rparr>)))) }
                 else ret (Inr bundle) } })"

definition span_count :: "telemetry_bundle \<Rightarrow> nat" where
  "span_count b = length (tb_spans b)"

definition bundle_encoded_size :: "telemetry_bundle \<Rightarrow> nat" where
  "bundle_encoded_size b =
     8 + 8 + 1 + 1 + 4 +
     (case tb_compressed_data b of
        Some d \<Rightarrow> length d
      | None \<Rightarrow> sum_list (map (\<lambda>s. 4 + span_encoded_size s) (tb_spans b)))"

text \<open>A bundle that has not been compressed yet, whose spans and payload fit their length fields.\<close>

definition bundle_wf :: "telemetry_bundle \<Rightarrow> bool" where
  "bundle_wf b \<longleftrightarrow>
     tb_compressed_data b = None \<and> (\<forall>s\<in>set (tb_spans b). span_wf s) \<and>
     length (put_spans (tb_spans b)) < 2 ^ 32"

definition payload_fits :: "telemetry_bundle \<Rightarrow> bool" where
  "payload_fits b \<longleftrightarrow> (case tb_compressed_data b of None \<Rightarrow> True | Some d \<Rightarrow> length d < 2 ^ 32)"

section \<open>Round trip\<close>

lemma get_u32_app [simp]: "get_u32 (u32_to_be w @ r) = ret (w, r)"
  by (simp add: get_u32_def get_bytes_def)

lemma put_spans_length: "length (put_spans ss) = sum_list (map (\<lambda>s. 4 + length (span_encode s)) ss)"
  by (induction ss) auto

lemma get_spans_put:
  assumes "\<forall>s\<in>set ss. span_wf s" "length (put_spans ss) < 2 ^ 32"
  shows "get_spans (put_spans ss) = ret (Inr ss)"
  using assms
proof (induction ss)
  case (Cons s ss)
  then have "get_spans (put_spans ss) = ret (Inr ss)" "unat (word_of_nat (length (span_encode s)) :: u32) = length (span_encode s)"
    by simp_all
  with Cons.prems show ?case by (subst get_spans.simps) (simp add: Let_def span_codec.roundtrip)
qed (simp add: get_spans.simps)

lemma compression_of_byte_inverse [simp]: "compression_of_byte (compression_byte c) = Some c"
  by (cases c) (simp_all add: compression_of_byte_def)

lemma bundle_decode_frame:
  assumes "length d < 2 ^ 32"
  shows "bundle_decode e (u64_to_be n @ u64_to_be t @ compression_byte c # flag # put_block d) =
    (let b = \<lparr>tb_sequence_number = n, tb_batch_timestamp = t, tb_compression_type = c, tb_spans = [], tb_compressed_data = None\<rparr>
     in if flag = 1
        then try_bind (ret (decompress e c d)) (\<lambda>raw. try_bind (get_spans raw) (\<lambda>spans. ret (Inr (b\<lparr>tb_spans := spans\<rparr>))))
        else ret (Inr b))"
  using assms by (simp add: bundle_decode_def reader_apps put_block_def get_bytes_def Let_def)

lemma length_bundle_encode:
  assumes "\<forall>s\<in>set (tb_spans b). span_wf s"
  shows "length (bundle_encode b) = bundle_encoded_size b"
proof -
  have "length (put_spans (tb_spans b)) = sum_list (map (\<lambda>s. 4 + span_encoded_size s) (tb_spans b))"
    unfolding put_spans_length using assms by (intro arg_cong [of _ _ sum_list] map_cong) (simp_all add: length_span_encode)
  then show ?thesis
    by (auto simp: bundle_encode_def bundle_encoded_size_def put_block_def split: option.splits)
qed

lemma bundle_roundtrip_aux:
  assumes "zstd_law e" "gzip_law e" "bundle_wf b" "bundle_compress e b level = Some b'" "payload_fits b'"
  shows "bundle_decode e (bundle_encode b') = ret (Inr b)"
proof (cases "tb_spans b = []")
  case True
  with assms(3,4) have "bundle_encode b' = u64_to_be (tb_sequence_number b) @ u64_to_be (tb_batch_timestamp b) @
      compression_byte (tb_compression_type b) # 0 # put_block []"
    by (simp add: bundle_compress_def bundle_encode_def bundle_wf_def put_block_def)
  with True assms(3) show ?thesis by (cases b) (simp add: bundle_decode_frame bundle_wf_def)
next
  case False
  let ?raw = "put_spans (tb_spans b)"
  from assms(4) False obtain d where d: "bundle_encode b' = u64_to_be (tb_sequence_number b) @ u64_to_be (tb_batch_timestamp b) @
      compression_byte (tb_compression_type b) # 1 # put_block d"
    and raw: "decompress e (tb_compression_type b) d = Inr ?raw" and len: "length d < 2 ^ 32"
    using assms(1-3,5)
    by (cases "tb_compression_type b")
       (auto simp: bundle_compress_def bundle_encode_def bundle_wf_def payload_fits_def decompress_def zstd_law_def gzip_law_def)
  have "get_spans ?raw = ret (Inr (tb_spans b))" using assms(3) by (intro get_spans_put) (simp_all add: bundle_wf_def)
  with assms(3) raw show ?thesis unfolding d bundle_decode_frame [OF len] by (cases b) (simp add: bundle_wf_def)
qed

text \<open>
  Round trip of a telemetry bundle: a bundle of well-formed spans, compressed with any
  algorithm and level the compressor accepts and then encoded, is returned by decoding, spans in
  order and without compressed data left over; the size estimate is the exact size, and bundles
  with the same bytes on the link are equal.
\<close>

lemma bundle_roundtrip:
  assumes "zstd_law e" "gzip_law e"
    and "bundle_wf b" "bundle_compress e b level = Some c" "payload_fits c"
    and "bundle_wf b'" "bundle_compress e b' level' = Some c'" "payload_fits c'"
  shows "bundle_decode e (bundle_encode c) = ret (Inr b) \<and>
    length (bundle_encode c) = bundle_encoded_size c \<and> (bundle_encode c = bundle_encode c' \<longrightarrow> b = b')"
proof -
  have "tb_spans c = tb_spans b" using assms(4)
    by (auto simp: bundle_compress_def split: if_splits compression_type.splits)
  with assms(3) have "length (bundle_encode c) = bundle_encoded_size c"
    by (intro length_bundle_encode) (simp add: bundle_wf_def)
  with bundle_roundtrip_aux [OF assms(1-5)] bundle_roundtrip_aux [OF assms(1,2,6-8)] show ?thesis by auto
qed

end
