(* ===== verification/Decimal.thy ===== *)
theory Decimal
  imports Prelude
begin

text \<open>
  Decimal text of integers: \<open>to_string\<close> and the \<open>FromStr\<close> parsers of the standard
  library. A parser accepts an optional sign (no minus for unsigned types) and at least one
  digit, and rejects values outside the type.
\<close>

definition show_int :: "int \<Rightarrow> string" where
  "show_int i = (if i < 0 then CHR ''-'' # show_nat (nat (- i)) else show_nat (nat i))"

definition digit_value :: "char \<Rightarrow> nat option" where
  "digit_value c = (if of_char c \<ge> (48 :: nat) \<and> of_char c \<le> (57 :: nat) then Some (of_char c - 48) else None)"

fun parse_digits :: "nat \<Rightarrow> string \<Rightarrow> nat option" where
  "parse_digits acc [] = Some acc"
| "parse_digits acc (c # cs) = do { d \<leftarrow> digit_value c; parse_digits (10 * acc + d) cs }"

definition parse_nat :: "string \<Rightarrow> nat option" where
  "parse_nat s = (if s = [] then None else parse_digits 0 s)"

text \<open>\<open>parse::<uN>\<close> with the largest value of the type, and \<open>parse\<close> for \<open>i64\<close> and \<open>i32\<close>.\<close>

definition parse_unsigned :: "nat \<Rightarrow> string \<Rightarrow> nat option" where
  "parse_unsigned hi s = do {
     n \<leftarrow> parse_nat (case s of [] \<Rightarrow> [] | c # cs \<Rightarrow> if c = CHR ''+'' then cs else s);
     if n \<le> hi then Some n else None }"

definition parse_i64 :: "string \<Rightarrow> i64 option" where
  "parse_i64 s =
     (case s of
        [] \<Rightarrow> None
      | c # cs \<Rightarrow>
          if c = CHR ''-''
          then do { n \<leftarrow> parse_nat cs; if n \<le> 2 ^ 63 then Some (word_of_int (- int n)) else None }
          else do { n \<leftarrow> parse_nat (if c = CHR ''+'' then cs else s);
                    if n < 2 ^ 63 then Some (word_of_nat n) else None })"

definition parse_i32 :: "string \<Rightarrow> 32 word option" where
  "parse_i32 s =
     (case s of
        [] \<Rightarrow> None
      | c # cs \<Rightarrow>
          if c = CHR ''-''
          then do { n \<leftarrow> parse_nat cs; if n \<le> 2 ^ 31 then Some (word_of_int (- int n)) else None }
          else do { n \<leftarrow> parse_nat (if c = CHR ''+'' then cs else s);
                    if n < 2 ^ 31 then Some (word_of_nat n) else None })"

lemma digit_value_digit_char:
  assumes "d < 10"
  shows "digit_value (digit_char d) = Some d"
proof -
  have "\<forall>d\<in>set [0..<10]. digit_value (digit_char d) = Some d"
    by (simp add: digit_value_def digit_char_def upt_rec numeral_nat)
  with assms show ?thesis by simp
qed

lemma parse_digits_append:
  "parse_digits a (xs @ ys) = do { b \<leftarrow> parse_digits a xs; parse_digits b ys }"
  by (induction xs arbitrary: a) (auto simp: Option.bind_assoc)

lemma parse_digits_show: "parse_digits 0 (show_nat n) = Some n"
proof (induction n rule: show_nat.induct)
  case (1 n)
  then show ?case
    by (subst show_nat.simps) (simp add: parse_digits_append digit_value_digit_char)
qed

lemma show_nat_Cons: "\<exists>c cs. show_nat n = c # cs \<and> digit_value c \<noteq> None"
proof (induction n rule: show_nat.induct)
  case (1 n)
  then show ?case
    by (subst show_nat.simps) (fastforce simp: digit_value_digit_char)
qed

lemma show_nat_no_sign:
  obtains c cs where "show_nat n = c # cs" "c \<noteq> CHR ''-''" "c \<noteq> CHR ''+''"
proof -
  obtain c cs where c: "show_nat n = c # cs" "digit_value c \<noteq> None" using show_nat_Cons by blast
  have "digit_value CHR ''-'' = None" "digit_value CHR ''+'' = None" by (simp_all add: digit_value_def)
  with c(2) have "c \<noteq> CHR ''-''" "c \<noteq> CHR ''+''" by metis+
  with c(1) show thesis by (rule that)
qed

lemma parse_nat_show [simp]: "parse_nat (show_nat n) = Some n"
  using show_nat_Cons [of n] parse_digits_show [of n] by (auto simp: parse_nat_def)

lemma parse_unsigned_show: "n \<le> hi \<Longrightarrow> parse_unsigned hi (show_nat n) = Some n"
  by (rule show_nat_no_sign [of n]) (use parse_nat_show [of n] in \<open>simp add: parse_unsigned_def\<close>)

lemma parse_i64_show [simp]: "parse_i64 (show_int (sint w)) = Some w"
proof (cases "sint w < 0")
  case True
  moreover have "- (2 ^ 63) \<le> sint w" using sint_ge [of w] by simp
  ultimately show ?thesis by (simp add: parse_i64_def show_int_def nat_le_iff)
next
  case False
  moreover have "sint w < 2 ^ 63" using sint_lt [of w] by simp
  moreover obtain c cs where "show_nat (nat (sint w)) = c # cs" "c \<noteq> CHR ''-''" "c \<noteq> CHR ''+''"
    by (rule show_nat_no_sign)
  ultimately show ?thesis using parse_nat_show [of "nat (sint w)"]
    by (simp add: parse_i64_def show_int_def nat_less_iff)
qed

end
