(* ===== verification/Otel_Converter.thy ===== *)
theory Otel_Converter
  imports Otel_Bundle Decimal
begin

text \<open>
  \<open>src/src/otel_converter.rs\<close>: compact spans and bundles as OTLP spans and export requests,
  and the two exports. A JSON object is a map from keys to values, so that inserting a key a
  second time replaces its value; the order of its keys carries no meaning.
\<close>

section \<open>OTLP spans\<close>

datatype otlp_status = StatusUnset | StatusOk | StatusError

record otlp_span =
  os_trace_id :: string
  os_span_id :: string
  os_parent_span_id :: "string option"
  os_name :: string
  os_start_time_unix_nano :: u64
  os_end_time_unix_nano :: u64
  os_attributes :: "(string \<times> string) list"
  os_status :: otlp_status

record otlp_export_request =
  er_resource_attributes :: "(string \<times> string) list"
  er_spans :: "otlp_span list"

datatype json = JString string | JNumber u64 | JArray "json list" | JObject "(string \<times> json) list"

fun otlp_status_of :: "span_status \<Rightarrow> otlp_status" where
  "otlp_status_of SpanOk = StatusOk"
| "otlp_status_of SpanError = StatusError"

definition from_compact :: "ext \<Rightarrow> compact_span \<Rightarrow> otlp_span" where
  "from_compact e s =
     \<lparr>os_trace_id = x_hex_encode e (cs_trace_id s), os_span_id = x_hex_encode e (cs_span_id s),
      os_parent_span_id = (if cs_parent_span_id s \<noteq> replicate 8 0 then Some (x_hex_encode e (cs_parent_span_id s)) else None),
      os_name = cs_name s, os_start_time_unix_nano = cs_start_time_unix_nano s,
      os_end_time_unix_nano = cs_end_time_unix_nano s,
      os_attributes =
        [(''t_event'', show_int (sint (cs_t_event s))), (''t_system'', show_int (sint (cs_t_system s))),
         (''sensor_id'', cs_sensor_id s), (''spread_ms'', show_int (sint (cs_t_system s - cs_t_event s)))] @
        cs_attributes s,
      os_status = otlp_status_of (cs_status s)\<rparr>"

fun status_str :: "otlp_status \<Rightarrow> string" where
  "status_str StatusUnset = ''STATUS_UNSET''"
| "status_str StatusOk = ''STATUS_OK''"
| "status_str StatusError = ''STATUS_ERROR''"

definition json_strings :: "(string \<times> string) list \<Rightarrow> (string \<times> json) list" where
  "json_strings ats = foldl (\<lambda>m (k, v). hm_insert k (JString v) m) [] ats"

definition otlp_span_to_json :: "otlp_span \<Rightarrow> json" where
  "otlp_span_to_json s =
     (let obj = hm_insert ''traceId'' (JString (os_trace_id s)) [];
          obj = hm_insert ''spanId'' (JString (os_span_id s)) obj;
          obj = (case os_parent_span_id s of Some p \<Rightarrow> hm_insert ''parentSpanId'' (JString p) obj | None \<Rightarrow> obj);
          obj = hm_insert ''name'' (JString (os_name s)) obj;
          obj = hm_insert ''startTimeUnixNano'' (JNumber (os_start_time_unix_nano s)) obj;
          obj = hm_insert ''endTimeUnixNano'' (JNumber (os_end_time_unix_nano s)) obj;
          obj = hm_insert ''status'' (JString (status_str (os_status s))) obj;
          obj = hm_insert ''attributes'' (JObject (json_strings (os_attributes s))) obj
      in JObject obj)"

section \<open>Export requests\<close>

definition request_new :: otlp_export_request where
  "request_new = \<lparr>er_resource_attributes = [], er_spans = []\<rparr>"

definition with_resource_attribute :: "otlp_export_request \<Rightarrow> string \<Rightarrow> string \<Rightarrow> otlp_export_request" where
  "with_resource_attribute r k v = r\<lparr>er_resource_attributes := er_resource_attributes r @ [(k, v)]\<rparr>"

definition with_span :: "otlp_export_request \<Rightarrow> otlp_span \<Rightarrow> otlp_export_request" where
  "with_span r s = r\<lparr>er_spans := er_spans r @ [s]\<rparr>"

text \<open>The derived \<open>Debug\<close> text of the compression type.\<close>

fun compression_debug :: "compression_type \<Rightarrow> string" where
  "compression_debug CompNone = ''None''"
| "compression_debug Zstd = ''Zstd''"
| "compression_debug Gzip = ''Gzip''"

definition from_bundle :: "ext \<Rightarrow> telemetry_bundle \<Rightarrow> otlp_export_request" where
  "from_bundle e b =
     (let r = with_resource_attribute request_new ''bundle.sequence_number'' (show_nat (unat (tb_sequence_number b)));
          r = with_resource_attribute r ''bundle.timestamp'' (show_int (sint (tb_batch_timestamp b)));
          r = with_resource_attribute r ''bundle.compression'' (compression_debug (tb_compression_type b))
      in foldl (\<lambda>r s. with_span r (from_compact e s)) r (tb_spans b))"

definition request_to_json :: "otlp_export_request \<Rightarrow> json" where
  "request_to_json r =
     (let resource = JObject (json_strings (er_resource_attributes r));
          spans = JArray (map otlp_span_to_json (er_spans r))
      in JObject (hm_insert ''resourceSpans''
           (JArray [JObject [(''resource'', resource), (''scopeSpans'', JArray [JObject [(''spans'', spans)]])]])
           (hm_insert ''resource'' resource [])))"

definition put_str32 :: "string \<Rightarrow> bytes" where
  "put_str32 s = u32_to_be (word_of_nat (length s)) @ bytes_of s"

fun put_pairs32 :: "(string \<times> string) list \<Rightarrow> bytes" where
  "put_pairs32 [] = []"
| "put_pairs32 ((k, v) # rest) = put_str32 k @ put_str32 v @ put_pairs32 rest"

fun otlp_status_byte :: "otlp_status \<Rightarrow> u8" where
  "otlp_status_byte StatusUnset = 0"
| "otlp_status_byte StatusOk = 1"
| "otlp_status_byte StatusError = 2"

definition hex_decode_or_empty :: "ext \<Rightarrow> string \<Rightarrow> bytes" where
  "hex_decode_or_empty e s = (case x_hex_decode e s of Some b \<Rightarrow> b | None \<Rightarrow> [])"

definition put_otlp_span :: "ext \<Rightarrow> otlp_span \<Rightarrow> bytes" where
  "put_otlp_span e s =
     hex_decode_or_empty e (os_trace_id s) @ hex_decode_or_empty e (os_span_id s) @
     (case os_parent_span_id s of Some p \<Rightarrow> 1 # hex_decode_or_empty e p | None \<Rightarrow> [0]) @
     put_str32 (os_name s) @ u64_to_be (os_start_time_unix_nano s) @ u64_to_be (os_end_time_unix_nano s) @
     [otlp_status_byte (os_status s)] @
     u32_to_be (word_of_nat (length (os_attributes s))) @ put_pairs32 (os_attributes s)"

definition to_binary :: "ext \<Rightarrow> otlp_export_request \<Rightarrow> bytes" where
  "to_binary e r =
     u32_to_be (word_of_nat (length (er_resource_attributes r))) @ put_pairs32 (er_resource_attributes r) @
     u32_to_be (word_of_nat (length (er_spans r))) @ concat (map (put_otlp_span e) (er_spans r))"

section \<open>What the conversion keeps\<close>

lemma foldl_with_span: "er_spans (foldl (\<lambda>r s. with_span r (f s)) r ss) = er_spans r @ map f ss"
  by (induction ss arbitrary: r) (simp_all add: with_span_def)

lemma from_bundle_spans [simp]: "er_spans (from_bundle e b) = map (from_compact e) (tb_spans b)"
  by (simp add: from_bundle_def foldl_with_span with_resource_attribute_def request_new_def)

text \<open>In a JSON object the last of several attributes with the same key is the one that stays.\<close>

lemma foldl_json_strings:
  "map_of (foldl (\<lambda>m (k, v). hm_insert k (JString v) m) m0 ats) k =
     (case map_of (rev ats) k of None \<Rightarrow> map_of m0 k | Some v \<Rightarrow> Some (JString v))"
  by (induction ats arbitrary: m0) (auto split: option.splits simp: map_add_def)

lemma map_of_json_strings: "map_of (json_strings ats) k = map_option JString (map_of (rev ats) k)"
  by (auto simp: json_strings_def foldl_json_strings split: option.splits)

text \<open>
  So a custom attribute that is called like one of the bi-temporal ones replaces it in the JSON
  export, while the attribute list itself keeps the span's own time in front.
\<close>

lemma json_event_time_shadowed:
  assumes "map_of (rev (cs_attributes s)) ''t_event'' = Some v"
  shows "map_of (json_strings (os_attributes (from_compact e s))) ''t_event'' = Some (JString v) \<and>
         map_of (os_attributes (from_compact e s)) ''t_event'' = Some (show_int (sint (cs_t_event s)))"
  using assms by (simp add: map_of_json_strings from_compact_def map_add_def)

text \<open>The binary export restores the identifiers byte for byte.\<close>

lemma put_otlp_span_compact:
  assumes "hex_decode_law e" "hex_encode_law e"
  shows "put_otlp_span e (from_compact e s) =
     cs_trace_id s @ cs_span_id s @ (if cs_parent_span_id s \<noteq> replicate 8 0 then 1 # cs_parent_span_id s else [0]) @
     put_str32 (cs_name s) @ u64_to_be (cs_start_time_unix_nano s) @ u64_to_be (cs_end_time_unix_nano s) @
     [otlp_status_byte (otlp_status_of (cs_status s))] @
     u32_to_be (word_of_nat (4 + length (cs_attributes s))) @ put_pairs32 (os_attributes (from_compact e s))"
  using assms by (simp add: put_otlp_span_def from_compact_def hex_decode_or_empty_def hex_decode_law_def hex_encode_law_def)

end
