(* ===== verification/Fifo.thy ===== *)
theory Fifo
  imports Prelude
begin

text \<open>
  The contract of the bounded stores of the gateway: a push appends one item and, when the
  store is full, first drops the oldest. \<open>items\<close> is the abstraction to the list of stored
  items, oldest first.
\<close>

definition push_bounded :: "nat \<Rightarrow> 'a list \<Rightarrow> 'a \<Rightarrow> 'a list" where
  "push_bounded cap xs x = (if cap \<le> length xs then tl xs else xs) @ [x]"

text \<open>The last \<open>n\<close> elements of a list.\<close>

definition last_n :: "nat \<Rightarrow> 'a list \<Rightarrow> 'a list" where
  "last_n n xs = drop (length xs - n) xs"

lemma length_last_n [simp]: "length (last_n n xs) = min n (length xs)"
  by (simp add: last_n_def)

lemma last_n_all [simp]: "length xs \<le> n \<Longrightarrow> last_n n xs = xs"
  by (simp add: last_n_def)

lemma push_bounded_last_n:
  assumes "length xs \<le> max 1 cap"
  shows "push_bounded cap xs x = last_n (max 1 cap) (xs @ [x])"
proof (cases "cap \<le> length xs")
  case True
  then show ?thesis
    using assms by (cases xs) (auto simp: push_bounded_def last_n_def max_def split: if_splits)
next
  case False
  then show ?thesis by (simp add: push_bounded_def)
qed

lemma last_n_append_last_n: "last_n n (last_n n xs @ ys) = last_n n (xs @ ys)"
proof (cases "length xs \<le> n")
  case False
  then have "length ys + (length xs - n) = length xs + length ys - n" by simp
  with False show ?thesis by (simp add: last_n_def)
qed simp

locale bounded_fifo =
  fixes push :: "'s \<Rightarrow> 'a \<Rightarrow> 's" and items :: "'s \<Rightarrow> 'a list" and cap :: "'s \<Rightarrow> nat"
  assumes push_items: "items (push s x) = push_bounded (cap s) (items s) x"
    and push_cap: "cap (push s x) = cap s"
begin

lemma push_length: "length (items s) \<le> max 1 (cap s) \<Longrightarrow> length (items (push s x)) \<le> max 1 (cap s)"
  by (auto simp: push_items push_bounded_def)

lemma fold_cap: "cap (foldl push s xs) = cap s"
  by (induction xs arbitrary: s) (simp_all add: push_cap)

text \<open>Any sequence of pushes leaves the most recent items, in order.\<close>

lemma fold_items:
  assumes "length (items s) \<le> max 1 (cap s)"
  shows "items (foldl push s xs) = last_n (max 1 (cap s)) (items s @ xs)"
  using assms
proof (induction xs arbitrary: s)
  case (Cons x xs)
  have "items (push s x) = last_n (max 1 (cap s)) (items s @ [x])"
    using Cons.prems by (simp add: push_items push_bounded_last_n)
  with Cons.IH [of "push s x"] push_length [OF Cons.prems, of x] show ?case
    by (simp add: push_cap last_n_append_last_n)
qed simp

end

end
