(* ===== verification/Bitemporal.thy ===== *)
theory Bitemporal
  imports Protocol Floats Fifo
begin

text \<open>
  \<open>src/src/bitemporal.rs\<close>: the bounded store of messages and its bi-temporal queries.
\<close>

datatype query_time = ValidTime | TransactionTime

record bitemporal_query =
  q_query_time :: query_time
  q_start_ms :: u64
  q_end_ms :: u64
  q_protocol_filter :: "protocol option"
  q_max_spread_ms :: "i64 option"

definition query_new :: "query_time \<Rightarrow> u64 \<Rightarrow> u64 \<Rightarrow> bitemporal_query" where
  "query_new qt a b = \<lparr>q_query_time = qt, q_start_ms = a, q_end_ms = b,
     q_protocol_filter = None, q_max_spread_ms = None\<rparr>"

definition with_protocol :: "bitemporal_query \<Rightarrow> protocol \<Rightarrow> bitemporal_query" where
  "with_protocol q p = q\<lparr>q_protocol_filter := Some p\<rparr>"

definition with_max_spread :: "bitemporal_query \<Rightarrow> i64 \<Rightarrow> bitemporal_query" where
  "with_max_spread q s = q\<lparr>q_max_spread_ms := Some s\<rparr>"

text \<open>\<open>i64::abs\<close>, which wraps on the least value.\<close>

definition i64_abs :: "i64 \<Rightarrow> i64" where
  "i64_abs w = (if sint w < 0 then - w else w)"

definition query_matches :: "bitemporal_query \<Rightarrow> message \<Rightarrow> bool" where
  "query_matches q m =
     (let timestamp = (case q_query_time q of ValidTime \<Rightarrow> m_t_event m | TransactionTime \<Rightarrow> m_t_system m) in
      if timestamp < q_start_ms q \<or> timestamp > q_end_ms q then False
      else if (case q_protocol_filter q of Some p \<Rightarrow> m_protocol m \<noteq> p | None \<Rightarrow> False) then False
      else if (case q_max_spread_ms q of
                 Some s \<Rightarrow> sint (i64_abs (spread_ms m)) > sint s | None \<Rightarrow> False) then False
      else True)"

record bitemporal_store =
  bs_messages :: "message list"
  bs_max_messages :: nat

definition bitemporal_new :: "nat \<Rightarrow> bitemporal_store" where
  "bitemporal_new n = \<lparr>bs_messages = [], bs_max_messages = n\<rparr>"

text \<open>\<open>pop_front\<close> on an empty queue does nothing, as \<open>tl\<close>.\<close>

definition bitemporal_store_one :: "bitemporal_store \<Rightarrow> message \<Rightarrow> bitemporal_store" where
  "bitemporal_store_one s m =
     (let ms = (if length (bs_messages s) \<ge> bs_max_messages s then tl (bs_messages s) else bs_messages s)
      in s\<lparr>bs_messages := ms @ [m]\<rparr>)"

fun store_batch_loop :: "nat \<Rightarrow> message list \<Rightarrow> message list \<Rightarrow> message list" where
  "store_batch_loop n ms [] = ms"
| "store_batch_loop n ms (b # bs) =
     store_batch_loop n ((if length ms \<ge> n then tl ms else ms) @ [b]) bs"

definition store_batch :: "bitemporal_store \<Rightarrow> message list \<Rightarrow> bitemporal_store" where
  "store_batch s batch =
     (if batch = [] then s
      else s\<lparr>bs_messages := store_batch_loop (bs_max_messages s) (bs_messages s) batch\<rparr>)"

definition bitemporal_query_run :: "bitemporal_store \<Rightarrow> bitemporal_query \<Rightarrow> message list" where
  "bitemporal_query_run s q = filter (query_matches q) (bs_messages s)"

definition query_valid_time :: "bitemporal_store \<Rightarrow> u64 \<Rightarrow> u64 \<Rightarrow> message list" where
  "query_valid_time s a b = bitemporal_query_run s (query_new ValidTime a b)"

definition query_transaction_time :: "bitemporal_store \<Rightarrow> u64 \<Rightarrow> u64 \<Rightarrow> message list" where
  "query_transaction_time s a b = bitemporal_query_run s (query_new TransactionTime a b)"

definition system_belief_at :: "bitemporal_store \<Rightarrow> u64 \<Rightarrow> message list" where
  "system_belief_at s t = filter (\<lambda>m. m_t_system m \<le> t) (bs_messages s)"

definition actual_state_at :: "bitemporal_store \<Rightarrow> u64 \<Rightarrow> message list" where
  "actual_state_at s t = filter (\<lambda>m. m_t_event m \<le> t) (bs_messages s)"

record spread_stats =
  ss_message_count :: nat
  ss_avg_spread_ms :: i64
  ss_min_spread_ms :: i64
  ss_max_spread_ms :: i64
  ss_total_spread_ms :: i64

definition spread_stats_default :: spread_stats where
  "spread_stats_default = \<lparr>ss_message_count = 0, ss_avg_spread_ms = 0, ss_min_spread_ms = 0,
     ss_max_spread_ms = 0, ss_total_spread_ms = 0\<rparr>"

text \<open>\<open>iter().min().unwrap()\<close> and \<open>iter().max().unwrap()\<close> on a non-empty list.\<close>

definition i64_min :: "i64 list \<Rightarrow> i64" where
  "i64_min xs = foldl (\<lambda>a b. if sint b < sint a then b else a) (hd xs) (tl xs)"

definition i64_max :: "i64 list \<Rightarrow> i64" where
  "i64_max xs = foldl (\<lambda>a b. if sint b \<ge> sint a then b else a) (hd xs) (tl xs)"

definition bitemporal_spread_stats :: "'f f64_ops \<Rightarrow> bitemporal_store \<Rightarrow> u64 \<Rightarrow> u64 \<Rightarrow> spread_stats" where
  "bitemporal_spread_stats F s a b =
     (let relevant = filter (\<lambda>m. m_t_system m \<ge> a \<and> m_t_system m \<le> b) (bs_messages s) in
      if relevant = [] then spread_stats_default
      else let spreads = map spread_ms relevant;
               total = sum_list spreads
           in \<lparr>ss_message_count = length relevant,
               ss_avg_spread_ms = f_to_i64 F
                 (f_div F (f_of_int F (sint total)) (f_of_nat F (length spreads))),
               ss_min_spread_ms = i64_min spreads,
               ss_max_spread_ms = i64_max spreads,
               ss_total_spread_ms = total\<rparr>)"

definition avg_spread_seconds :: "'f f64_ops \<Rightarrow> spread_stats \<Rightarrow> 'f" where
  "avg_spread_seconds F st = f_div F (f_of_int F (sint (ss_avg_spread_ms st))) (f_of_rat F 1000)"

definition bitemporal_stats :: "bitemporal_store \<Rightarrow> nat \<times> nat" where
  "bitemporal_stats s = (length (bs_messages s), bs_max_messages s)"

text \<open>What it means for a message to lie in the requested window.\<close>

definition query_spec :: "bitemporal_query \<Rightarrow> message \<Rightarrow> bool" where
  "query_spec q m \<longleftrightarrow>
     (let t = (if q_query_time q = ValidTime then m_t_event m else m_t_system m)
      in q_start_ms q \<le> t \<and> t \<le> q_end_ms q) \<and>
     (\<forall>p. q_protocol_filter q = Some p \<longrightarrow> m_protocol m = p) \<and>
     (\<forall>s. q_max_spread_ms q = Some s \<longrightarrow>
        \<bar>uint (m_t_system m) - uint (m_t_event m)\<bar> \<le> sint s)"

section \<open>Lemmas\<close>

lemma store_batch_loop_push:
  "store_batch_loop n ms bs = foldl (push_bounded n) ms bs"
  by (induction bs arbitrary: ms) (simp_all add: push_bounded_def)

interpretation bitemporal_fifo: bounded_fifo bitemporal_store_one bs_messages bs_max_messages
  by unfold_locales (simp_all add: bitemporal_store_one_def push_bounded_def Let_def)

lemma store_batch_foldl: "store_batch s batch = foldl bitemporal_store_one s batch"
proof (induction batch arbitrary: s)
  case (Cons m batch)
  have "store_batch s (m # batch) = store_batch (bitemporal_store_one s m) batch"
    by (cases batch) (simp_all add: store_batch_def bitemporal_store_one_def Let_def)
  with Cons show ?case by simp
qed (simp add: store_batch_def)

lemma i64_abs_spread:
  assumes "uint (m_t_event m) < 2 ^ 63" and "uint (m_t_system m) < 2 ^ 63"
  shows "sint (i64_abs (spread_ms m)) = \<bar>uint (m_t_system m) - uint (m_t_event m)\<bar>"
  using sint_diff_exact [OF assms] sint_diff_exact [OF assms(2,1)]
  by (simp add: i64_abs_def spread_ms_def)

lemma foldl_min_sint:
  fixes a :: i64
  shows "(\<forall>x\<in>set (a # xs). sint (foldl (\<lambda>a b. if sint b < sint a then b else a) a xs) \<le> sint x) \<and>
         foldl (\<lambda>a b. if sint b < sint a then b else a) a xs \<in> set (a # xs)"
  by (induction xs arbitrary: a) (auto, force+)

lemma foldl_max_sint:
  fixes a :: i64
  shows "(\<forall>x\<in>set (a # xs). sint x \<le> sint (foldl (\<lambda>a b. if sint b \<ge> sint a then b else a) a xs)) \<and>
         foldl (\<lambda>a b. if sint b \<ge> sint a then b else a) a xs \<in> set (a # xs)"
  by (induction xs arbitrary: a) (auto, force+)

lemma query_matches_spec:
  assumes "uint (m_t_event m) < 2 ^ 63" and "uint (m_t_system m) < 2 ^ 63"
  shows "query_matches q m = query_spec q m"
  by (auto simp: query_matches_def query_spec_def Let_def i64_abs_spread [OF assms] not_less not_le
      split: option.splits query_time.splits)

section \<open>Properties\<close>

text \<open>
  C14. The store never holds more messages than its capacity (one message when the capacity
  is zero); after any sequence of stores it holds exactly the most recent ones in arrival
  order, and storing a batch under one lock does the same as storing its messages one by one.
\<close>

theorem bitemporal_keeps_recent:
  "bs_messages (foldl bitemporal_store_one (bitemporal_new n) ms) = last_n (max 1 n) ms \<and>
   length (bs_messages (foldl bitemporal_store_one (bitemporal_new n) ms)) \<le> max 1 n \<and>
   store_batch (foldl bitemporal_store_one (bitemporal_new n) ms) batch =
     foldl bitemporal_store_one (bitemporal_new n) (ms @ batch)"
  using bitemporal_fifo.fold_items [of "bitemporal_new n" ms]
  by (simp add: bitemporal_new_def store_batch_foldl)

text \<open>
  A bi-temporal query returns, in stored order, exactly the messages whose chosen
  timestamp lies in the closed window, whose protocol is the requested one and whose true
  delay does not exceed the limit in absolute value, for timestamps below \<open>2^63\<close> ms.
\<close>

lemma bitemporal_query_correct:
  assumes "\<forall>m\<in>set (bs_messages s). uint (m_t_event m) < 2 ^ 63 \<and> uint (m_t_system m) < 2 ^ 63"
  shows "bitemporal_query_run s q = filter (query_spec q) (bs_messages s)"
  unfolding bitemporal_query_run_def
  by (rule filter_cong [OF refl]) (use assms query_matches_spec in auto)

text \<open>
  The spread statistics of a window that holds a message: the count is the number of
  messages in it, the reported extremes are spreads of messages in the window and bound the
  spread of each of them, and the total is their sum modulo \<open>2^64\<close>.
\<close>

lemma spread_stats_correct:
  assumes "r = filter (\<lambda>m. m_t_system m \<ge> a \<and> m_t_system m \<le> b) (bs_messages s)" and "r \<noteq> []"
  shows "let st = bitemporal_spread_stats F s a b in
     ss_message_count st = length r \<and>
     ss_min_spread_ms st \<in> spread_ms ` set r \<and> ss_max_spread_ms st \<in> spread_ms ` set r \<and>
     (\<forall>m\<in>set r. sint (ss_min_spread_ms st) \<le> sint (spread_ms m) \<and>
                sint (spread_ms m) \<le> sint (ss_max_spread_ms st)) \<and>
     ss_total_spread_ms st = sum_list (map spread_ms r)"
proof -
  obtain x xs where r: "r = x # xs" using assms(2) by (cases r) auto
  show ?thesis
    using foldl_min_sint [of "spread_ms x" "map spread_ms xs"] foldl_max_sint [of "spread_ms x" "map spread_ms xs"]
    unfolding bitemporal_spread_stats_def Let_def assms(1) [symmetric] unfolding r
    by (simp add: i64_min_def i64_max_def)
qed

end
