(* ===== verification/Otel_Reconciler.thy ===== *)
theory Otel_Reconciler
  imports Otel_Converter Bitemporal "HOL-Library.Multiset"
begin

text \<open>
  \<open>src/src/otel_reconciler.rs\<close>: the collector's bi-temporal reconciler. The spans of one
  entity are kept in the order they came in. Iteration over the entities is in an unspecified
  order, so that query results are compared as multisets or sets.
\<close>

section \<open>State and operations\<close>

record bitemporal_record =
  br_entity_id :: string
  br_t_event :: i64
  br_t_system :: i64
  br_span :: otlp_span

record 'f reconciliation_stats =
  st_total_records :: nat
  st_positive_spread :: nat
  st_negative_spread :: nat
  st_zero_spread :: nat
  st_avg_spread_ms :: 'f
  st_max_spread_ms :: i64
  st_min_spread_ms :: i64

record bitemporal_reconciler =
  rc_records :: "(string \<times> bitemporal_record list) list"

definition rc_new :: bitemporal_reconciler where
  "rc_new = \<lparr>rc_records = []\<rparr>"

definition extract_t_event :: "otlp_span \<Rightarrow> i64" where
  "extract_t_event s =
     (case find (\<lambda>(k, _). k = ''t_event'') (os_attributes s) of
        None \<Rightarrow> 0 | Some (_, v) \<Rightarrow> (case parse_i64 v of None \<Rightarrow> 0 | Some t \<Rightarrow> t))"

definition extract_t_system :: "otlp_span \<Rightarrow> i64" where
  "extract_t_system s =
     (case find (\<lambda>(k, _). k = ''t_system'') (os_attributes s) of
        None \<Rightarrow> 0 | Some (_, v) \<Rightarrow> (case parse_i64 v of None \<Rightarrow> 0 | Some t \<Rightarrow> t))"

definition entity_id_of :: "string \<Rightarrow> string \<Rightarrow> string" where
  "entity_id_of trace_id span_id = trace_id @ '':'' @ span_id"

definition get_records :: "bitemporal_reconciler \<Rightarrow> string \<Rightarrow> bitemporal_record list" where
  "get_records r k = (case map_of (rc_records r) k of None \<Rightarrow> [] | Some rs \<Rightarrow> rs)"

text \<open>\<open>self.records.entry(entity_id).or_default().push(record)\<close>\<close>

definition push_record :: "bitemporal_reconciler \<Rightarrow> bitemporal_record \<Rightarrow> bitemporal_reconciler" where
  "push_record r x =
     r\<lparr>rc_records := hm_insert (br_entity_id x) (get_records r (br_entity_id x) @ [x]) (rc_records r)\<rparr>"

definition rc_ingest :: "bitemporal_reconciler \<Rightarrow> otlp_span \<Rightarrow> bitemporal_reconciler" where
  "rc_ingest r s = push_record r
     \<lparr>br_entity_id = entity_id_of (os_trace_id s) (os_span_id s), br_t_event = extract_t_event s,
      br_t_system = extract_t_system s, br_span = s\<rparr>"

definition retroactive_correction :: "bitemporal_reconciler \<Rightarrow> otlp_span \<Rightarrow> i64 \<Rightarrow> bitemporal_reconciler" where
  "retroactive_correction r s new_t_event = push_record r
     \<lparr>br_entity_id = entity_id_of (os_trace_id s) (os_span_id s), br_t_event = new_t_event,
      br_t_system = extract_t_system s, br_span = s\<rparr>"

definition in_window :: "i64 \<Rightarrow> i64 \<Rightarrow> i64 \<Rightarrow> bool" where
  "in_window a b t \<longleftrightarrow> sint a \<le> sint t \<and> sint t \<le> sint b"

definition all_records :: "bitemporal_reconciler \<Rightarrow> bitemporal_record list" where
  "all_records r = concat (map snd (rc_records r))"

definition rc_query_valid_time :: "bitemporal_reconciler \<Rightarrow> i64 \<Rightarrow> i64 \<Rightarrow> otlp_span list" where
  "rc_query_valid_time r a b = map br_span (filter (\<lambda>x. in_window a b (br_t_event x)) (all_records r))"

definition rc_query_transaction_time :: "bitemporal_reconciler \<Rightarrow> i64 \<Rightarrow> i64 \<Rightarrow> otlp_span list" where
  "rc_query_transaction_time r a b = map br_span (filter (\<lambda>x. in_window a b (br_t_system x)) (all_records r))"

text \<open>\<open>max_by_key\<close> keeps the last of several maxima.\<close>

definition latest :: "i64 \<Rightarrow> bitemporal_record list \<Rightarrow> bitemporal_record option" where
  "latest t rs = foldl (\<lambda>acc x. case acc of
       None \<Rightarrow> Some x
     | Some y \<Rightarrow> if sint (br_t_system x) \<ge> sint (br_t_system y) then Some x else acc) None
     (filter (\<lambda>x. sint (br_t_system x) \<le> sint t) rs)"

fun opt_list :: "'a option \<Rightarrow> 'a list" where
  "opt_list None = []"
| "opt_list (Some x) = [x]"

definition rc_system_belief_at :: "bitemporal_reconciler \<Rightarrow> i64 \<Rightarrow> otlp_span list" where
  "rc_system_belief_at r t = concat (map (\<lambda>(_, rs). map br_span (opt_list (latest t rs))) (rc_records r))"

definition rc_actual_state_at :: "bitemporal_reconciler \<Rightarrow> i64 \<Rightarrow> otlp_span list" where
  "rc_actual_state_at r t = map br_span (filter (\<lambda>x. br_t_event x = t) (all_records r))"

definition stats_default :: "'f f64_ops \<Rightarrow> 'f reconciliation_stats" where
  "stats_default F = \<lparr>st_total_records = 0, st_positive_spread = 0, st_negative_spread = 0, st_zero_spread = 0,
     st_avg_spread_ms = f_of_nat F 0, st_max_spread_ms = 0, st_min_spread_ms = 0\<rparr>"

definition tally_spread :: "'f reconciliation_stats \<Rightarrow> i64 \<Rightarrow> 'f reconciliation_stats" where
  "tally_spread st d =
     (let st = st\<lparr>st_total_records := st_total_records st + 1\<rparr>
      in if sint d > 0 then st\<lparr>st_positive_spread := st_positive_spread st + 1\<rparr>
         else if sint d < 0 then st\<lparr>st_negative_spread := st_negative_spread st + 1\<rparr>
         else st\<lparr>st_zero_spread := st_zero_spread st + 1\<rparr>)"

definition rc_spread_stats :: "'f f64_ops \<Rightarrow> bitemporal_reconciler \<Rightarrow> i64 \<Rightarrow> i64 \<Rightarrow> 'f reconciliation_stats" where
  "rc_spread_stats F r a b =
     (let spreads = map (\<lambda>x. br_t_system x - br_t_event x) (filter (\<lambda>x. in_window a b (br_t_system x)) (all_records r));
          st = foldl tally_spread (stats_default F) spreads
      in if spreads = [] then st
         else st\<lparr>st_max_spread_ms := i64_max spreads, st_min_spread_ms := i64_min spreads,
                 st_avg_spread_ms := f_div F (f_of_int F (sint (sum_list spreads))) (f_of_nat F (length spreads))\<rparr>)"

definition entity_history :: "bitemporal_reconciler \<Rightarrow> string \<Rightarrow> string \<Rightarrow> bitemporal_record list" where
  "entity_history r trace_id span_id = get_records r (entity_id_of trace_id span_id)"

definition rc_clear :: "bitemporal_reconciler \<Rightarrow> bitemporal_reconciler" where
  "rc_clear r = r\<lparr>rc_records := []\<rparr>"

definition record_count :: "bitemporal_reconciler \<Rightarrow> nat" where
  "record_count r = sum_list (map (length \<circ> snd) (rc_records r))"

text \<open>The records of a sequence of compact spans.\<close>

definition same_entity :: "compact_span \<Rightarrow> compact_span \<Rightarrow> bool" where
  "same_entity x y \<longleftrightarrow> cs_trace_id x = cs_trace_id y \<and> cs_span_id x = cs_span_id y"

definition entity_of :: "ext \<Rightarrow> compact_span \<Rightarrow> string" where
  "entity_of e s = entity_id_of (x_hex_encode e (cs_trace_id s)) (x_hex_encode e (cs_span_id s))"

definition record_of :: "ext \<Rightarrow> compact_span \<Rightarrow> bitemporal_record" where
  "record_of e s = \<lparr>br_entity_id = entity_of e s, br_t_event = cs_t_event s, br_t_system = cs_t_system s,
     br_span = from_compact e s\<rparr>"

definition ingest_all :: "ext \<Rightarrow> compact_span list \<Rightarrow> bitemporal_reconciler" where
  "ingest_all e ss = foldl (\<lambda>r s. rc_ingest r (from_compact e s)) rc_new ss"

text \<open>
  An element of a list is believed at a time when none known by then has a later key, and none
  after it has the same.
\<close>

definition believed :: "('a \<Rightarrow> int) \<Rightarrow> int \<Rightarrow> 'a list \<Rightarrow> 'a \<Rightarrow> bool" where
  "believed key t xs x \<longleftrightarrow> (\<exists>ys zs. xs = ys @ x # zs \<and> key x \<le> t \<and>
     (\<forall>y\<in>set ys. key y \<le> t \<longrightarrow> key y \<le> key x) \<and> (\<forall>z\<in>set zs. key z \<le> t \<longrightarrow> key z < key x))"

section \<open>Ingesting converted spans\<close>

text \<open>The bi-temporal times survive the detour through decimal text, whatever the custom attributes.\<close>

lemma extract_times [simp]:
  "extract_t_event (from_compact e s) = cs_t_event s"
  "extract_t_system (from_compact e s) = cs_t_system s"
  by (simp_all add: extract_t_event_def extract_t_system_def from_compact_def)

lemma colon_notin_hex: "CHR '':'' \<notin> set (hex_text bs)"
proof -
  have "\<forall>d\<in>set [0..<16]. digit_char d \<noteq> CHR '':''"
    by (simp add: digit_char_def upt_rec numeral_nat)
  then have "CHR '':'' \<noteq> digit_char d" if "d < 16" for d using that by fastforce
  moreover have "unat b div 16 < 16" for b :: u8
    using unat_byte_less [of b] by (simp add: less_mult_imp_div_less)
  ultimately have "CHR '':'' \<notin> set (fmt_02x b)" for b by (simp add: fmt_02x_def)
  then show ?thesis by (simp add: hex_text_def)
qed

lemma split_at_first: "x \<notin> set a \<Longrightarrow> x \<notin> set c \<Longrightarrow> a @ x # b = c @ x # d \<longleftrightarrow> a = c \<and> b = d"
  by (induction a arbitrary: c; case_tac c) auto

lemma hex_text_inj: "hex_text a = hex_text b \<longleftrightarrow> a = b"
  using ref_hex_decode_text by (metis option.inject)

lemma entity_id_inj: "entity_id_of (hex_text a) (hex_text b) = entity_id_of (hex_text c) (hex_text d) \<longleftrightarrow> a = c \<and> b = d"
  by (simp add: entity_id_of_def split_at_first colon_notin_hex hex_text_inj)

lemma entity_of_eq: "hex_encode_law e \<Longrightarrow> entity_of e x = entity_of e y \<longleftrightarrow> same_entity x y"
  by (simp add: entity_of_def same_entity_def hex_encode_law_def entity_id_inj)

lemma from_compact_ids [simp]:
  "os_trace_id (from_compact e s) = x_hex_encode e (cs_trace_id s)"
  "os_span_id (from_compact e s) = x_hex_encode e (cs_span_id s)"
  by (simp_all add: from_compact_def)

lemma record_of_simps [simp]:
  "br_entity_id (record_of e s) = entity_of e s" "br_t_event (record_of e s) = cs_t_event s"
  "br_t_system (record_of e s) = cs_t_system s" "br_span (record_of e s) = from_compact e s"
  by (simp_all add: record_of_def)

lemma rc_ingest_compact: "rc_ingest r (from_compact e s) = push_record r (record_of e s)"
  by (simp add: rc_ingest_def record_of_def entity_of_def)

lemma ingest_all_simps [simp]:
  "ingest_all e [] = rc_new" "ingest_all e (ss @ [s]) = push_record (ingest_all e ss) (record_of e s)"
  by (simp_all add: ingest_all_def rc_ingest_compact)

lemma mset_concat_insert:
  "mset (concat (map snd (hm_insert k ((case map_of m k of None \<Rightarrow> [] | Some v \<Rightarrow> v) @ [x]) m))) =
     add_mset x (mset (concat (map snd m)))"
  by (induction m) auto

lemma mset_push_record: "mset (all_records (push_record r x)) = add_mset x (mset (all_records r))"
  by (simp add: all_records_def push_record_def get_records_def mset_concat_insert)

lemma get_records_push:
  "get_records (push_record r x) k = get_records r k @ (if k = br_entity_id x then [x] else [])"
  by (auto simp: get_records_def push_record_def)

lemma ingest_all_records: "mset (all_records (ingest_all e ss)) = mset (map (record_of e) ss)"
  by (induction ss rule: rev_induct) (simp_all add: mset_push_record, simp add: all_records_def rc_new_def)

lemma ingest_all_history: "get_records (ingest_all e ss) k = map (record_of e) (filter (\<lambda>s. entity_of e s = k) ss)"
  by (induction ss rule: rev_induct) (auto simp: get_records_push, simp add: get_records_def rc_new_def)

lemma ingest_all_map_ok: "map_ok (rc_records (ingest_all e ss))"
  by (induction ss rule: rev_induct) (simp_all add: rc_new_def push_record_def)

lemma record_count_all: "record_count r = size (mset (all_records r))"
  by (simp add: record_count_def all_records_def length_concat comp_def)

lemma mset_query:
  "mset (map f (filter P (all_records (ingest_all e ss)))) = mset (map (f \<circ> record_of e) (filter (P \<circ> record_of e) ss))"
proof -
  have "mset (map f (filter P (all_records (ingest_all e ss)))) = image_mset f (filter_mset P (mset (map (record_of e) ss)))"
    by (simp add: ingest_all_records)
  also have "\<dots> = mset (map f (filter P (map (record_of e) ss)))" by simp
  finally show ?thesis by (simp add: filter_map)
qed

section \<open>Beliefs\<close>

lemma latest_snoc:
  "latest t (rs @ [x]) =
     (if sint (br_t_system x) \<le> sint t
      then case latest t rs of
             None \<Rightarrow> Some x
           | Some y \<Rightarrow> if sint (br_t_system x) \<ge> sint (br_t_system y) then Some x else Some y
      else latest t rs)"
  by (auto simp: latest_def split: option.splits)

lemma latest_Nil [simp]: "latest t [] = None"
  by (simp add: latest_def)

lemma latest_None: "latest t rs = None \<longleftrightarrow> (\<forall>x\<in>set rs. \<not> sint (br_t_system x) \<le> sint t)"
  by (induction rs rule: rev_induct) (auto simp: latest_snoc split: option.splits)

lemma believed_Nil [simp]: "\<not> believed key t [] x"
  by (simp add: believed_def)

lemma believed_snoc:
  "believed key t (xs @ [w]) x \<longleftrightarrow>
     (x = w \<and> key w \<le> t \<and> (\<forall>y\<in>set xs. key y \<le> t \<longrightarrow> key y \<le> key w)) \<or>
     (believed key t xs x \<and> (key w \<le> t \<longrightarrow> key w < key x))"
proof
  assume "believed key t (xs @ [w]) x"
  then obtain ys zs where s: "xs @ [w] = ys @ x # zs" "key x \<le> t" "\<forall>y\<in>set ys. key y \<le> t \<longrightarrow> key y \<le> key x"
    "\<forall>z\<in>set zs. key z \<le> t \<longrightarrow> key z < key x" by (auto simp: believed_def)
  show "(x = w \<and> key w \<le> t \<and> (\<forall>y\<in>set xs. key y \<le> t \<longrightarrow> key y \<le> key w)) \<or>
     (believed key t xs x \<and> (key w \<le> t \<longrightarrow> key w < key x))"
  proof (cases zs rule: rev_cases)
    case (snoc zs' z)
    with s show ?thesis by (auto simp: believed_def)
  qed (use s in auto)
next
  assume "(x = w \<and> key w \<le> t \<and> (\<forall>y\<in>set xs. key y \<le> t \<longrightarrow> key y \<le> key w)) \<or>
     (believed key t xs x \<and> (key w \<le> t \<longrightarrow> key w < key x))"
  then show "believed key t (xs @ [w]) x"
  proof
    assume "believed key t xs x \<and> (key w \<le> t \<longrightarrow> key w < key x)"
    then obtain ys zs where "xs = ys @ x # zs" "key x \<le> t" "\<forall>y\<in>set ys. key y \<le> t \<longrightarrow> key y \<le> key x"
      "\<forall>z\<in>set (zs @ [w]). key z \<le> t \<longrightarrow> key z < key x" by (auto simp: believed_def)
    then show ?thesis unfolding believed_def by (intro exI [of _ ys] exI [of _ "zs @ [w]"]) simp
  next
    assume "x = w \<and> key w \<le> t \<and> (\<forall>y\<in>set xs. key y \<le> t \<longrightarrow> key y \<le> key w)"
    then show ?thesis unfolding believed_def by (intro exI [of _ xs] exI [of _ "[]"]) simp
  qed
qed

lemma believedD:
  assumes "believed key t xs x"
  shows "x \<in> set xs" "key x \<le> t" "y \<in> set xs \<Longrightarrow> key y \<le> t \<Longrightarrow> key y \<le> key x"
  using assms by (auto simp: believed_def) fastforce

lemma latest_believed: "latest t rs = Some x \<longleftrightarrow> believed (\<lambda>x. sint (br_t_system x)) (sint t) rs x"
proof (induction rs arbitrary: x rule: rev_induct)
  case (snoc w rs)
  show ?case
  proof (cases "latest t rs")
    case None
    then have "\<not> believed (\<lambda>x. sint (br_t_system x)) (sint t) rs x" using snoc [of x] by simp
    moreover have "\<forall>x\<in>set rs. \<not> sint (br_t_system x) \<le> sint t" using None by (simp add: latest_None)
    ultimately show ?thesis using None by (auto simp: latest_snoc believed_snoc)
  next
    case (Some y)
    then have y: "believed (\<lambda>x. sint (br_t_system x)) (sint t) rs z \<longleftrightarrow> z = y" for z using snoc [of z] by auto
    have "believed (\<lambda>x. sint (br_t_system x)) (sint t) rs y" by (simp add: y)
    note D = believedD [OF this]
    from D(3) have "(\<forall>z\<in>set rs. sint (br_t_system z) \<le> sint t \<longrightarrow> sint (br_t_system z) \<le> sint (br_t_system w)) \<longleftrightarrow>
        sint (br_t_system y) \<le> sint (br_t_system w)"
      using D(1,2) by (meson order_trans)
    then show ?thesis using Some by (auto simp: latest_snoc believed_snoc y)
  qed
qed simp

lemma believed_map: "believed key t (map f xs) y \<longleftrightarrow> (\<exists>x. y = f x \<and> believed (key \<circ> f) t xs x)"
proof
  assume "believed key t (map f xs) y"
  then obtain ys zs where "map f xs = ys @ y # zs" "key y \<le> t" "\<forall>y'\<in>set ys. key y' \<le> t \<longrightarrow> key y' \<le> key y"
    "\<forall>z\<in>set zs. key z \<le> t \<longrightarrow> key z < key y" by (auto simp: believed_def)
  then show "\<exists>x. y = f x \<and> believed (key \<circ> f) t xs x"
    by (fastforce simp: believed_def map_eq_append_conv map_eq_Cons_conv)
qed (fastforce simp: believed_def)

section \<open>Properties\<close>

lemma reconciler_queries:
  assumes "hex_encode_law e" and "r = ingest_all e ss"
  shows "record_count r = length ss"
    and "mset (rc_query_valid_time r a b) = mset (map (from_compact e) (filter (\<lambda>s. in_window a b (cs_t_event s)) ss))"
    and "mset (rc_query_transaction_time r a b) = mset (map (from_compact e) (filter (\<lambda>s. in_window a b (cs_t_system s)) ss))"
    and "entity_history r (x_hex_encode e tid) (x_hex_encode e sid) =
       map (record_of e) (filter (\<lambda>s. cs_trace_id s = tid \<and> cs_span_id s = sid) ss)"
proof -
  show "record_count r = length ss" by (simp add: assms(2) record_count_all ingest_all_records)
  show "entity_history r (x_hex_encode e tid) (x_hex_encode e sid) =
       map (record_of e) (filter (\<lambda>s. cs_trace_id s = tid \<and> cs_span_id s = sid) ss)"
    using assms(1)
    by (simp add: assms(2) entity_history_def ingest_all_history entity_of_def hex_encode_law_def entity_id_inj)
qed (simp_all only: assms(2) rc_query_valid_time_def rc_query_transaction_time_def mset_query, simp_all add: comp_def)

lemma ingest_all_entries:
  "(k, rs) \<in> set (rc_records (ingest_all e ss)) \<longleftrightarrow>
     k \<in> entity_of e ` set ss \<and> rs = map (record_of e) (filter (\<lambda>s. entity_of e s = k) ss)"
proof -
  have "k \<in> fst ` set (rc_records (ingest_all e ss)) \<longleftrightarrow> k \<in> entity_of e ` set ss"
    by (induction ss rule: rev_induct) (auto simp: push_record_def, simp add: rc_new_def)
  moreover have "(k, rs) \<in> set (rc_records (ingest_all e ss)) \<longleftrightarrow>
      k \<in> fst ` set (rc_records (ingest_all e ss)) \<and> rs = get_records (ingest_all e ss) k"
    using ingest_all_map_ok [of e ss] by (force simp: get_records_def map_ok_def dest: map_of_is_SomeI)
  ultimately show ?thesis by (simp add: ingest_all_history)
qed

lemma latest_of_entity:
  assumes "hex_encode_law e"
  shows "latest t (map (record_of e) (filter (\<lambda>s. entity_of e s = entity_of e x) ss)) = Some rec \<longleftrightarrow>
    (\<exists>s. rec = record_of e s \<and> believed (\<lambda>x. sint (cs_t_system x)) (sint t) (filter (same_entity x) ss) s)"
proof -
  have "(\<lambda>s. entity_of e s = entity_of e x) = same_entity x"
    by (auto simp: fun_eq_iff entity_of_eq [OF assms] same_entity_def)
  then show ?thesis by (simp add: latest_believed believed_map comp_def)
qed

lemma length_opt_list: "length (opt_list x) = (if x = None then 0 else 1)"
  by (cases x) auto

lemma belief_iff:
  "y \<in> set (rc_system_belief_at r t) \<longleftrightarrow>
     (\<exists>k rs rec. (k, rs) \<in> set (rc_records r) \<and> latest t rs = Some rec \<and> y = br_span rec)"
proof -
  have "set (opt_list x) = set_option x" for x :: "bitemporal_record option" by (cases x) auto
  then show ?thesis by (force simp: rc_system_belief_at_def)
qed

lemma belief_length:
  assumes "hex_encode_law e"
  shows "length (rc_system_belief_at (ingest_all e ss) t) =
    card ((\<lambda>s. (cs_trace_id s, cs_span_id s)) ` {s \<in> set ss. sint (cs_t_system s) \<le> sint t})"
proof -
  let ?m = "rc_records (ingest_all e ss)" and ?S = "{s \<in> set ss. sint (cs_t_system s) \<le> sint t}"
  let ?f = "filter (\<lambda>(k, rs). latest t rs \<noteq> None) ?m"
  have "length (concat (map (\<lambda>(_, rs). map br_span (opt_list (latest t rs))) m)) =
      length (filter (\<lambda>(k, rs). latest t rs \<noteq> None) m)" for m :: "(string \<times> bitemporal_record list) list"
    by (induction m) (auto simp: length_opt_list)
  then have "length (rc_system_belief_at (ingest_all e ss) t) = length ?f"
    by (simp add: rc_system_belief_at_def)
  also have "\<dots> = card (set (map fst ?f))"
    using distinct_card [of "map fst ?f"] map_ok_filter [OF ingest_all_map_ok [of e ss]]
    unfolding map_ok_def by (metis length_map)
  also have "set (map fst ?f) = entity_of e ` ?S"
  proof (intro set_eqI)
    fix k
    show "k \<in> set (map fst ?f) \<longleftrightarrow> k \<in> entity_of e ` ?S"
      by (auto simp: ingest_all_entries latest_None image_iff)
  qed
  also have "entity_of e ` ?S = (\<lambda>(a, b). entity_id_of (hex_text a) (hex_text b)) ` (\<lambda>s. (cs_trace_id s, cs_span_id s)) ` ?S"
    using assms by (simp add: image_image entity_of_def hex_encode_law_def)
  also have "card \<dots> = card ((\<lambda>s. (cs_trace_id s, cs_span_id s)) ` ?S)"
    by (rule card_image) (auto simp: inj_on_def entity_id_inj)
  finally show ?thesis .
qed

text \<open>
  C17. The telemetry path from device to collector: a bundle of well-formed spans, compressed and
  encoded for the link, is decoded; converting its spans and feeding them to an empty reconciler
  stores every span once, the history of an entity lists its spans in bundle order, and a query
  by valid or by transaction time returns exactly the spans whose own time lies in the window,
  whatever custom attributes they carry.
\<close>

theorem telemetry_end_to_end:
  assumes "hex_encode_law e" "zstd_law e" "gzip_law e"
    and "bundle_wf b" "bundle_compress e b level = Some c" "payload_fits c"
  shows "\<exists>b' r. bundle_decode e (bundle_encode c) = ret (Inr b') \<and>
    r = foldl rc_ingest rc_new (er_spans (from_bundle e b')) \<and> record_count r = length (tb_spans b) \<and>
    mset (rc_query_valid_time r lo hi) = mset (map (from_compact e) (filter (\<lambda>s. in_window lo hi (cs_t_event s)) (tb_spans b))) \<and>
    mset (rc_query_transaction_time r lo hi) =
      mset (map (from_compact e) (filter (\<lambda>s. in_window lo hi (cs_t_system s)) (tb_spans b))) \<and>
    map br_span (entity_history r (x_hex_encode e tid) (x_hex_encode e sid)) =
      map (from_compact e) (filter (\<lambda>s. cs_trace_id s = tid \<and> cs_span_id s = sid) (tb_spans b))"
proof -
  have d: "bundle_decode e (bundle_encode c) = ret (Inr b)" by (rule bundle_roundtrip_aux [OF assms(2-)])
  have r: "foldl rc_ingest rc_new (er_spans (from_bundle e b)) = ingest_all e (tb_spans b)"
    by (simp add: ingest_all_def foldl_map)
  note q = reconciler_queries [OF assms(1) r]
  show ?thesis
    by (rule exI [of _ b], rule exI [of _ "foldl rc_ingest rc_new (er_spans (from_bundle e b))"])
       (simp add: d q comp_def del: from_bundle_spans)
qed

theorem telemetry_end_to_end_witness:
  "\<exists>r. r = foldl rc_ingest rc_new (er_spans (from_bundle ref_ext
        (add_span (bundle_new 7 1) (span_new 5 6 (replicate 16 1) (replicate 8 2) ''read'' ''dev'')))) \<and>
     record_count r = 1 \<and>
     mset (rc_query_valid_time r 0 10) = {#from_compact ref_ext (span_new 5 6 (replicate 16 1) (replicate 8 2) ''read'' ''dev'')#}"
proof -
  let ?s = "span_new 5 6 (replicate 16 1) (replicate 8 2) ''read'' ''dev''"
  let ?b = "add_span (bundle_new 7 1) ?s"
  have wf: "span_wf ?s" by (simp add: span_wf_def text_wf_def span_new_def bytes_of_def)
  then have "length (put_spans [?s]) < 2 ^ 32"
    by (simp add: length_span_encode) (simp add: span_encoded_size_def span_new_def)
  with wf have b: "bundle_wf ?b" "bundle_compress ref_ext ?b 3 = Some ?b" "payload_fits ?b"
    by (simp_all add: bundle_wf_def bundle_compress_def payload_fits_def add_span_def bundle_new_def)
  have "in_window 0 10 (cs_t_event ?s)" by (simp add: in_window_def span_new_def)
  then have f: "filter (\<lambda>s. in_window 0 10 (cs_t_event s)) (tb_spans ?b) = [?s]" "length (tb_spans ?b) = 1"
    by (simp_all add: add_span_def bundle_new_def)
  have "bundle_decode ref_ext (bundle_encode ?b) = ret (Inr ?b)"
    by (rule bundle_roundtrip_aux [OF ref_ext_laws(3,4) b])
  with telemetry_end_to_end [OF ref_ext_laws(2,3,4) b, of 0 10] f show ?thesis by auto
qed

text \<open>
  C18. What the collector believed at a transaction time: one span for every entity that had been
  recorded by then, and it is the one recorded last, the later ingested one of two with the same
  time; corrections recorded afterwards do not change the answer.
\<close>

theorem system_belief_exact:
  assumes "hex_encode_law e"
  shows "set (rc_system_belief_at (ingest_all e ss) t) =
      {from_compact e s |s. believed (\<lambda>x. sint (cs_t_system x)) (sint t) (filter (same_entity s) ss) s} \<and>
    length (rc_system_belief_at (ingest_all e ss) t) =
      card ((\<lambda>s. (cs_trace_id s, cs_span_id s)) ` {s \<in> set ss. sint (cs_t_system s) \<le> sint t})"
proof (intro conjI set_eqI iffI, goal_cases)
  case (1 y)
  then obtain x rec where x: "x \<in> set ss"
      "latest t (map (record_of e) (filter (\<lambda>s. entity_of e s = entity_of e x) ss)) = Some rec" "y = br_span rec"
    by (auto simp: belief_iff ingest_all_entries)
  then obtain s where s: "y = from_compact e s"
      "believed (\<lambda>x. sint (cs_t_system x)) (sint t) (filter (same_entity x) ss) s"
    by (auto simp: latest_of_entity [OF assms])
  have "same_entity x = same_entity s" using believedD(1) [OF s(2)] by (auto simp: same_entity_def fun_eq_iff)
  with s show ?case by auto
next
  case (2 y)
  then obtain s where s: "y = from_compact e s"
    "believed (\<lambda>x. sint (cs_t_system x)) (sint t) (filter (same_entity s) ss) s" by auto
  then have "latest t (map (record_of e) (filter (\<lambda>x. entity_of e x = entity_of e s) ss)) = Some (record_of e s)"
    by (auto simp: latest_of_entity [OF assms])
  moreover have "(entity_of e s, map (record_of e) (filter (\<lambda>x. entity_of e x = entity_of e s) ss)) \<in>
      set (rc_records (ingest_all e ss))"
    using believedD(1) [OF s(2)] by (auto simp: ingest_all_entries)
  ultimately show ?case unfolding belief_iff s(1) by (metis record_of_simps(4))
qed (rule belief_length [OF assms])

theorem system_belief_exact_witness:
  "length (rc_system_belief_at (ingest_all ref_ext
     [with_t_system (span_new 5 6 (replicate 16 1) (replicate 8 2) ''a'' ''d'') 1500,
      with_t_system (span_new 5 6 (replicate 16 1) (replicate 8 2) ''b'' ''d'') 2000]) 1800) = 1"
  by (simp add: system_belief_exact [OF ref_ext_laws(2), THEN conjunct2] with_t_system_def span_new_def
      Collect_conv_if conj_disj_distribR Collect_disj_eq)

end
