(* ===== verification/Bus.thy ===== *)
theory Bus
  imports Prelude
begin

text \<open>
  What the hardware drivers share: operations on an I2C, SPI or serial bus and on the pins, and
  computations that perform them. The device on the other side is a parameter: its answers, the
  levels of the input pins and the clock are functions of all the operations performed so far,
  so that every deterministic device is an instance. The state of a driver is the log of its
  operations. The library that hands out the pins is a parameter too.
\<close>

section \<open>Operations and devices\<close>

datatype bus_op = BusAddress u8 | BusWrite bytes | BusRead nat | PinSet u8 bool | PinRead u8 | Wait nat

text \<open>An error carries whether it is a time-out, and its message.\<close>

datatype answer = Answer bytes | IoError bool string

record device =
  dev_answer :: "bus_op list \<Rightarrow> answer"
  dev_level :: "bus_op list \<Rightarrow> bool"
  dev_clock :: "bus_op list \<Rightarrow> nat"

section \<open>Pins\<close>

text \<open>
  The pin library: the error of opening it, and of taking a pin while others are taken. It hands
  out each pin once: taking a pin that is still held is an error.
\<close>

record gpio =
  gp_new :: "string option"
  gp_get :: "u8 list \<Rightarrow> u8 \<Rightarrow> string option"

definition gpio_exclusive :: "gpio \<Rightarrow> bool" where
  "gpio_exclusive G \<longleftrightarrow> (\<forall>used p. p \<in> set used \<longrightarrow> gp_get G used p \<noteq> None)"

fun take_pins :: "gpio \<Rightarrow> u8 list \<Rightarrow> u8 list \<Rightarrow> string + u8 list" where
  "take_pins G used [] = Inr used"
| "take_pins G used (p # ps) =
     (case gp_get G used p of Some err \<Rightarrow> Inl err | None \<Rightarrow> take_pins G (p # used) ps)"

definition open_pins :: "gpio \<Rightarrow> u8 list \<Rightarrow> u8 list \<Rightarrow> string + u8 list" where
  "open_pins G used ps = (case gp_new G of Some err \<Rightarrow> Inl err | None \<Rightarrow> take_pins G used ps)"

section \<open>Computations\<close>

text \<open>\<open>Waiting\<close> is a loop that has not left within the given number of rounds.\<close>

datatype ('e, 'a) outcome = Returned 'a | Failed 'e | Panicked | Waiting

type_synonym ('s, 'e, 'a) prog = "'s \<Rightarrow> ('e, 'a) outcome \<times> 's"
type_synonym ('e, 'a) io = "(bus_op list, 'e, 'a) prog"

definition io_return :: "'a \<Rightarrow> ('s, 'e, 'a) prog" where
  "io_return x l = (Returned x, l)"

definition io_fail :: "'e \<Rightarrow> ('s, 'e, 'a) prog" where
  "io_fail e l = (Failed e, l)"

definition io_bind :: "('s, 'e, 'a) prog \<Rightarrow> ('a \<Rightarrow> ('s, 'e, 'b) prog) \<Rightarrow> ('s, 'e, 'b) prog" where
  "io_bind m f l =
     (case m l of
        (Returned x, l') \<Rightarrow> f x l'
      | (Failed e, l') \<Rightarrow> (Failed e, l')
      | (Panicked, l') \<Rightarrow> (Panicked, l')
      | (Waiting, l') \<Rightarrow> (Waiting, l'))"

definition io_then :: "('s, 'e, 'a) prog \<Rightarrow> ('s, 'e, 'b) prog \<Rightarrow> ('s, 'e, 'b) prog" where
  "io_then m n = io_bind m (\<lambda>_. n)"

definition io_exec :: "'a exec \<Rightarrow> ('s, 'e, 'a) prog" where
  "io_exec x l = (case x of Some v \<Rightarrow> (Returned v, l) | None \<Rightarrow> (Panicked, l))"

definition bus_address :: "device \<Rightarrow> (string \<Rightarrow> 'e) \<Rightarrow> u8 \<Rightarrow> ('e, unit) io" where
  "bus_address dev err a l =
     (let l = l @ [BusAddress a]
      in (case dev_answer dev l of Answer _ \<Rightarrow> Returned () | IoError _ e \<Rightarrow> Failed (err e), l))"

definition bus_write :: "device \<Rightarrow> (string \<Rightarrow> 'e) \<Rightarrow> bytes \<Rightarrow> ('e, unit) io" where
  "bus_write dev err d l =
     (let l = l @ [BusWrite d]
      in (case dev_answer dev l of Answer _ \<Rightarrow> Returned () | IoError _ e \<Rightarrow> Failed (err e), l))"

text \<open>A read into a zeroed array: bytes the device does not deliver stay zero.\<close>

definition fill :: "nat \<Rightarrow> bytes \<Rightarrow> bytes" where
  "fill n d = take n (d @ replicate n 0)"

definition bus_read :: "device \<Rightarrow> (string \<Rightarrow> 'e) \<Rightarrow> nat \<Rightarrow> ('e, bytes) io" where
  "bus_read dev err n l =
     (let l = l @ [BusRead n]
      in (case dev_answer dev l of Answer d \<Rightarrow> Returned (fill n d) | IoError _ e \<Rightarrow> Failed (err e), l))"

definition pin_set :: "u8 \<Rightarrow> bool \<Rightarrow> ('e, unit) io" where
  "pin_set p level l = (Returned (), l @ [PinSet p level])"

definition pin_read :: "device \<Rightarrow> u8 \<Rightarrow> ('e, bool) io" where
  "pin_read dev p l = (let l = l @ [PinRead p] in (Returned (dev_level dev l), l))"

definition wait_ms :: "nat \<Rightarrow> ('e, unit) io" where
  "wait_ms n l = (Returned (), l @ [Wait n])"

section \<open>Lemmas\<close>

named_theorems io_simps \<open>evaluation of driver computations\<close>

lemma length_fill [simp]: "length (fill n d) = n"
  by (simp add: fill_def)

lemma fill_full [simp]: "length d = n \<Longrightarrow> fill n d = d"
  by (simp add: fill_def)

lemma io_bind_cases [io_simps]:
  "m l = (Returned x, l') \<Longrightarrow> io_bind m f l = f x l'"
  "m l = (Failed e, l') \<Longrightarrow> io_bind m f l = (Failed e, l')"
  "m l = (Panicked, l') \<Longrightarrow> io_bind m f l = (Panicked, l')"
  "m l = (Waiting, l') \<Longrightarrow> io_bind m f l = (Waiting, l')"
  by (simp_all add: io_bind_def)

lemma io_bind_Returned_iff:
  "io_bind m f l = (Returned y, l') \<longleftrightarrow> (\<exists>x l1. m l = (Returned x, l1) \<and> f x l1 = (Returned y, l'))"
  by (auto simp: io_bind_def split: prod.splits outcome.splits)

lemma io_then_Returned_iff:
  "io_then m n l = (Returned y, l') \<longleftrightarrow> (\<exists>x l1. m l = (Returned x, l1) \<and> n l1 = (Returned y, l'))"
  by (simp add: io_then_def io_bind_Returned_iff)

lemma io_return_iff [simp]: "io_return x l = (Returned y, l') \<longleftrightarrow> y = x \<and> l' = l"
  by (auto simp: io_return_def)

lemma io_exec_Returned_iff: "io_exec x l = (Returned v, l') \<longleftrightarrow> x = ret v \<and> l' = l"
  by (auto simp: io_exec_def split: option.splits)

lemma io_fail_not_returned [simp]: "io_fail e l \<noteq> (Returned y, l')"
  by (simp add: io_fail_def)

lemma bus_write_Returned_iff:
  "bus_write dev err d l = (Returned u, l') \<longleftrightarrow>
   l' = l @ [BusWrite d] \<and> (\<exists>a. dev_answer dev (l @ [BusWrite d]) = Answer a)"
  by (auto simp: bus_write_def Let_def split: answer.splits)

lemma bus_address_Returned_iff:
  "bus_address dev err a l = (Returned u, l') \<longleftrightarrow>
   l' = l @ [BusAddress a] \<and> (\<exists>d. dev_answer dev (l @ [BusAddress a]) = Answer d)"
  by (auto simp: bus_address_def Let_def split: answer.splits)

lemma bus_read_Returned_iff:
  "bus_read dev err n l = (Returned r, l') \<longleftrightarrow>
   l' = l @ [BusRead n] \<and> (\<exists>d. dev_answer dev (l @ [BusRead n]) = Answer d \<and> r = fill n d)"
  by (auto simp: bus_read_def Let_def split: answer.splits)

lemma pin_set_Returned_iff: "pin_set p b l = (Returned u, l') \<longleftrightarrow> l' = l @ [PinSet p b]"
  by (auto simp: pin_set_def)

lemma wait_ms_Returned_iff: "wait_ms n l = (Returned u, l') \<longleftrightarrow> l' = l @ [Wait n]"
  by (auto simp: wait_ms_def)

lemma pin_read_Returned_iff:
  "pin_read dev p l = (Returned b, l') \<longleftrightarrow> l' = l @ [PinRead p] \<and> b = dev_level dev l'"
  by (auto simp: pin_read_def Let_def)

lemmas io_iffs = io_bind_Returned_iff io_then_Returned_iff bus_write_Returned_iff bus_address_Returned_iff
  bus_read_Returned_iff pin_set_Returned_iff wait_ms_Returned_iff pin_read_Returned_iff

lemma bus_write_ok [io_simps]: "dev_answer dev (l @ [BusWrite d]) = Answer a \<Longrightarrow> bus_write dev err d l = (Returned (), l @ [BusWrite d])"
  by (simp add: bus_write_def)

lemma bus_address_ok [io_simps]: "dev_answer dev (l @ [BusAddress a]) = Answer d \<Longrightarrow> bus_address dev err a l = (Returned (), l @ [BusAddress a])"
  by (simp add: bus_address_def)

lemma bus_read_ok [io_simps]: "dev_answer dev (l @ [BusRead n]) = Answer d \<Longrightarrow> bus_read dev err n l = (Returned (fill n d), l @ [BusRead n])"
  by (simp add: bus_read_def)

text \<open>The device answers every bus operation of a sequence without an error.\<close>

fun answered :: "device \<Rightarrow> bus_op list \<Rightarrow> bus_op list \<Rightarrow> bool" where
  "answered dev l [] \<longleftrightarrow> True"
| "answered dev l (x # t) \<longleftrightarrow>
     (case x of
        PinSet _ _ \<Rightarrow> True | PinRead _ \<Rightarrow> True | Wait _ \<Rightarrow> True
      | _ \<Rightarrow> (case dev_answer dev (l @ [x]) of Answer _ \<Rightarrow> True | IoError _ _ \<Rightarrow> False)) \<and>
     answered dev (l @ [x]) t"

lemma answer_case [simp]: "(case x of Answer _ \<Rightarrow> True | IoError _ _ \<Rightarrow> False) \<longleftrightarrow> (\<exists>d. x = Answer d)"
  by (cases x) simp_all

lemma answered_append [simp]: "answered dev l (s @ t) \<longleftrightarrow> answered dev l s \<and> answered dev (l @ s) t"
  by (induction s arbitrary: l) simp_all

text \<open>A computation only appends to the log.\<close>

definition appends :: "('e, 'a) io \<Rightarrow> bool" where
  "appends m \<longleftrightarrow> (\<forall>l. \<exists>t. snd (m l) = l @ t)"

named_theorems appends_intros \<open>computations that only append\<close>

lemma appends_bind [appends_intros]:
  assumes "appends m" "\<And>x. appends (f x)"
  shows "appends (io_bind m f)"
  unfolding appends_def
proof
  fix l
  obtain r l1 where m: "m l = (r, l1)" by fastforce
  with assms(1) obtain t where t: "l1 = l @ t" unfolding appends_def by (metis snd_conv)
  show "\<exists>u. snd (io_bind m f l) = l @ u"
  proof (cases r)
    case (Returned x)
    from assms(2) [of x] obtain u where "snd (f x l1) = l1 @ u" unfolding appends_def by blast
    with Returned m t show ?thesis by (simp add: io_bind_def)
  qed (simp_all add: io_bind_def m t)
qed

lemma appends_then [appends_intros]: "appends m \<Longrightarrow> appends n \<Longrightarrow> appends (io_then m n)"
  by (simp add: io_then_def appends_intros)

lemma appends_basic [appends_intros]:
  "appends (io_return x)" "appends (io_fail e)" "appends (io_exec v)" "appends (bus_address dev err a)"
  "appends (bus_write dev err d)" "appends (bus_read dev err n)" "appends (pin_set p b)" "appends (pin_read dev p)"
  "appends (wait_ms n)"
  by (auto simp: appends_def io_return_def io_fail_def io_exec_def bus_address_def bus_write_def bus_read_def
      pin_set_def pin_read_def wait_ms_def Let_def split: option.splits)

lemma appends_if [appends_intros]: "appends m \<Longrightarrow> appends n \<Longrightarrow> appends (if b then m else n)"
  by simp

end
