(* ===== verification/Text.thy ===== *)
theory Text
  imports Decimal
begin

text \<open>
  Text functions of the standard library that the drivers use: lossy UTF-8 decoding, searching,
  splitting and trimming.
\<close>

section \<open>Lossy UTF-8\<close>

definition replacement :: bytes where
  "replacement = [0xEF, 0xBF, 0xBD]"

text \<open>Whether the second byte of a sequence of three or four bytes is possible after its first.\<close>

definition second_ok :: "u8 \<Rightarrow> u8 \<Rightarrow> bool" where
  "second_ok a b \<longleftrightarrow> cont_byte b \<and> (a = 0xE0 \<longrightarrow> 0xA0 \<le> b) \<and> (a = 0xED \<longrightarrow> b \<le> 0x9F) \<and>
     (a = 0xF0 \<longrightarrow> 0x90 \<le> b) \<and> (a = 0xF4 \<longrightarrow> b \<le> 0x8F)"

text \<open>
  \<open>String::from_utf8_lossy\<close>: the longest possible beginning of a sequence that does not
  continue as it should is replaced.
\<close>

fun utf8_lossy :: "bytes \<Rightarrow> bytes" where
  "utf8_lossy [] = []"
| "utf8_lossy (a # bs) =
     (if a < 0x80 then a # utf8_lossy bs
      else if 0xC2 \<le> a \<and> a \<le> 0xDF then
        (case bs of
           b # cs \<Rightarrow> if cont_byte b then a # b # utf8_lossy cs else replacement @ utf8_lossy bs
         | [] \<Rightarrow> replacement)
      else if 0xE0 \<le> a \<and> a \<le> 0xEF then
        (case bs of
           b # cs \<Rightarrow>
             if second_ok a b then
               (case cs of
                  c # ds \<Rightarrow> if cont_byte c then a # b # c # utf8_lossy ds else replacement @ utf8_lossy cs
                | [] \<Rightarrow> replacement)
             else replacement @ utf8_lossy bs
         | [] \<Rightarrow> replacement)
      else if 0xF0 \<le> a \<and> a \<le> 0xF4 then
        (case bs of
           b # cs \<Rightarrow>
             if second_ok a b then
               (case cs of
                  c # ds \<Rightarrow>
                    if cont_byte c then
                      (case ds of
                         d # es \<Rightarrow> if cont_byte d then a # b # c # d # utf8_lossy es else replacement @ utf8_lossy ds
                       | [] \<Rightarrow> replacement)
                    else replacement @ utf8_lossy cs
                | [] \<Rightarrow> replacement)
             else replacement @ utf8_lossy bs
         | [] \<Rightarrow> replacement)
      else replacement @ utf8_lossy bs)"

definition from_utf8_lossy :: "bytes \<Rightarrow> string" where
  "from_utf8_lossy bs = string_of (utf8_lossy bs)"

section \<open>Searching and splitting\<close>

text \<open>\<open>starts_with\<close>, \<open>find\<close> and \<open>contains\<close>\<close>

fun starts_with :: "string \<Rightarrow> string \<Rightarrow> bool" where
  "starts_with s [] = True"
| "starts_with [] (p # ps) = False"
| "starts_with (c # s) (p # ps) = (c = p \<and> starts_with s ps)"

fun find_text :: "string \<Rightarrow> string \<Rightarrow> nat option" where
  "find_text pat [] = (if pat = [] then Some 0 else None)"
| "find_text pat (c # s) =
     (if starts_with (c # s) pat then Some 0 else map_option Suc (find_text pat s))"

definition contains :: "string \<Rightarrow> string \<Rightarrow> bool" where
  "contains s pat \<longleftrightarrow> find_text pat s \<noteq> None"

text \<open>\<open>split(',')\<close>: the pieces between the separators, at least one.\<close>

fun split_on :: "char \<Rightarrow> string \<Rightarrow> string list" where
  "split_on c [] = [[]]"
| "split_on c (x # s) = (if x = c then [] # split_on c s
     else case split_on c s of [] \<Rightarrow> [[x]] | p # ps \<Rightarrow> (x # p) # ps)"

text \<open>\<open>trim\<close> for the white space of ASCII text.\<close>

definition is_space :: "char \<Rightarrow> bool" where
  "is_space c \<longleftrightarrow> of_char c = (32 :: nat) \<or> (9 \<le> (of_char c :: nat) \<and> (of_char c :: nat) \<le> 13)"

definition trim :: "string \<Rightarrow> string" where
  "trim s = rev (dropWhile is_space (rev (dropWhile is_space s)))"

section \<open>Facts\<close>

lemma utf8_lossy_valid: "utf8_valid bs \<Longrightarrow> utf8_lossy bs = bs"
proof (induction bs rule: utf8_valid.induct)
  case (2 a bs)
  show ?case
  proof (cases "a < 0x80")
    case True
    with 2 show ?thesis by simp
  next
    case big: False
    note v = 2(5) [unfolded utf8_valid.simps if_not_P [OF big]]
    from v obtain b cs where bs: "bs = b # cs" by (cases bs) auto
    show ?thesis
    proof (cases "0xC2 \<le> a \<and> a \<le> 0xDF")
      case True
      with v bs have "cont_byte b" "utf8_valid cs" by simp_all
      with big bs True 2(2) show ?thesis by simp
    next
      case no2: False
      note v = v [unfolded bs list.case if_not_P [OF no2]]
      from v obtain c ds where cs: "cs = c # ds" by (cases cs) auto
      show ?thesis
      proof (cases "0xE0 \<le> a \<and> a \<le> 0xEF")
        case True
        note w = v [unfolded cs list.case if_P [OF True]]
        from True have "a \<noteq> 0xF0" "a \<noteq> 0xF4" by auto
        with w have "second_ok a b" by (simp add: second_ok_def)
        with w 2(3) [OF big bs no2 cs True] show ?thesis
          unfolding bs cs utf8_lossy.simps if_not_P [OF big] if_not_P [OF no2] if_P [OF True] by simp
      next
        case no3: False
        note v = v [unfolded cs list.case if_not_P [OF no3]]
        from v obtain d es where ds: "ds = d # es" by (cases ds) auto
        note w = v [unfolded ds list.case]
        from w have "a \<noteq> 0xE0" "a \<noteq> 0xED" by auto
        with w have "second_ok a b" by (simp add: second_ok_def)
        with w 2(4) [OF big bs no2 cs no3 ds] show ?thesis
          unfolding bs cs ds utf8_lossy.simps if_not_P [OF big] if_not_P [OF no2] if_not_P [OF no3] by simp
      qed
    qed
  qed
qed simp

lemma from_utf8_lossy_text: "utf8_valid (bytes_of s) \<Longrightarrow> from_utf8_lossy (bytes_of s) = s"
  by (simp add: from_utf8_lossy_def utf8_lossy_valid)

lemma starts_with_iff: "starts_with s p \<longleftrightarrow> (\<exists>t. s = p @ t)"
  by (induction s p rule: starts_with.induct) auto

lemma contains_iff: "contains s p \<longleftrightarrow> (\<exists>a b. s = a @ p @ b)"
proof (induction s)
  case (Cons c s)
  have "contains (c # s) p \<longleftrightarrow> starts_with (c # s) p \<or> contains s p" by (auto simp: contains_def)
  also have "\<dots> \<longleftrightarrow> (\<exists>a b. c # s = a @ p @ b)"
    unfolding starts_with_iff Cons by (metis append_Cons append_Nil append_eq_Cons_conv)
  finally show ?case .
qed (simp add: contains_def)

lemma contains_append: "contains s p \<Longrightarrow> contains (a @ s @ b) p"
  unfolding contains_iff by (metis append.assoc)

lemma split_on_not_Nil [simp]: "split_on c s \<noteq> []"
  by (induction s) (auto split: list.splits)

end
