(* ===== verification/Modem.thy ===== *)
theory Modem
  imports Bus Text Decimal
begin

text \<open>
  \<open>src/src/hardware/gm02sp.rs\<close>: the driver of the LTE-M modem, AT commands over a serial port.
  The modem is the device parameter of the bus, with a clock in nanoseconds; loops are given a
  bound on the rounds that are looked at. The driver in \<open>src/src/hardware/bg95.rs\<close> is the same
  code under other names.
\<close>

section \<open>Data\<close>

datatype modem_state = ModemOff | Booting | Registered | Connecting | Connected | ModemFault
datatype network_type = LTE_M | NB_IoT | NTN | UnknownNetwork

record signal_quality =
  sq_rssi :: u8
  sq_ber :: u8
  sq_rsrp :: i16
  sq_rsrq :: u8
  sq_sinr :: u8

record 'f gnss_fix =
  gf_latitude :: 'f
  gf_longitude :: 'f
  gf_altitude :: 'f
  gf_speed :: 'f
  gf_heading :: 'f
  gf_fix_quality :: u8
  gf_satellites :: u8
  gf_timestamp :: u64

record modem =
  md_state :: modem_state
  md_network_type :: network_type

datatype modem_error =
  ModemSerialInit string | ModemSerialWrite string | ModemSerialRead string | ModemTimeout string | AtError string
  | RegistrationTimeout | ConnectionFailed string | SendFailed string | InvalidGnssResponse string

definition at_timeout_ns :: nat where "at_timeout_ns = 5000 * 1000000"
definition reg_timeout_ns :: nat where "reg_timeout_ns = 60000 * 1000000"

section \<open>AT commands\<close>

definition crlf :: string where
  "crlf = [CHR 0x0D, CHR 0x0A]"

fun at_loop :: "nat \<Rightarrow> device \<Rightarrow> string \<Rightarrow> nat \<Rightarrow> string \<Rightarrow> (modem_error, string) io" where
  "at_loop 0 dev cmd start response l = (Waiting, l)"
| "at_loop (Suc n) dev cmd start response l =
     (if dev_clock dev l - start > at_timeout_ns then (Failed (ModemTimeout cmd), l)
      else let l' = l @ [BusRead 1024] in
        case dev_answer dev l' of
          Answer d \<Rightarrow>
            let response' = response @ from_utf8_lossy (take 1024 d) in
            if contains response' ''OK'' then (Returned response', l')
            else if contains response' ''ERROR'' then (Failed (AtError response'), l')
            else at_loop n dev cmd start response' l'
        | IoError timed_out e \<Rightarrow>
            if timed_out then at_loop n dev cmd start response l' else (Failed (ModemSerialRead e), l'))"

definition send_at :: "nat \<Rightarrow> device \<Rightarrow> string \<Rightarrow> (modem_error, string) io" where
  "send_at n dev cmd =
     io_then (bus_write dev ModemSerialWrite (bytes_of (cmd @ crlf)))
     (\<lambda>l. at_loop n dev cmd (dev_clock dev l) [] l)"

section \<open>The modem\<close>

text \<open>Operations on the modem record and the bus.\<close>

type_synonym 'a modem_op = "(modem \<times> bus_op list, modem_error, 'a) prog"

definition on_bus :: "(modem_error, 'a) io \<Rightarrow> 'a modem_op" where
  "on_bus f = (\<lambda>(m, l). let (r, l') = f l in (r, (m, l')))"

definition set_state :: "modem_state \<Rightarrow> unit modem_op" where
  "set_state s = (\<lambda>(m, l). (Returned (), (m\<lparr>md_state := s\<rparr>, l)))"

definition set_network :: "network_type \<Rightarrow> unit modem_op" where
  "set_network t = (\<lambda>(m, l). (Returned (), (m\<lparr>md_network_type := t\<rparr>, l)))"

definition modem_initial :: modem where
  "modem_initial = \<lparr>md_state = ModemOff, md_network_type = UnknownNetwork\<rparr>"

text \<open>Powering the modem on is not implemented: it only logs.\<close>

definition power_on :: "unit modem_op" where
  "power_on = io_return ()"

definition modem_new :: "nat \<Rightarrow> string option \<Rightarrow> device \<Rightarrow> unit modem_op" where
  "modem_new n init_error dev =
     (case init_error of
        Some e \<Rightarrow> io_fail (ModemSerialInit e)
      | None \<Rightarrow>
          io_then power_on
          (io_then (on_bus (wait_ms 3000))
          (io_then (on_bus (send_at n dev ''ATE0''))
          (io_then (on_bus (send_at n dev ''AT''))
          (set_state Booting)))))"

definition modem_reset :: "unit modem_op" where
  "modem_reset = io_then (set_state Booting) (on_bus (wait_ms 3000))"

fun registration_loop :: "nat \<Rightarrow> nat \<Rightarrow> device \<Rightarrow> nat \<Rightarrow> unit modem_op" where
  "registration_loop 0 n dev start = (\<lambda>s. (Waiting, s))"
| "registration_loop (Suc k) n dev start = (\<lambda>(m, l).
     if dev_clock dev l - start > reg_timeout_ns then (Failed RegistrationTimeout, (m, l))
     else io_bind (on_bus (send_at n dev ''AT+CREG?'')) (\<lambda>response.
       if contains response ''+CREG: 1,1'' \<or> contains response ''+CREG: 1,5'' then set_state Registered
       else io_then (on_bus (wait_ms 2000)) (registration_loop k n dev start)) (m, l))"

definition register_network :: "nat \<Rightarrow> nat \<Rightarrow> device \<Rightarrow> unit modem_op" where
  "register_network k n dev =
     io_then (on_bus (send_at n dev ''AT+QNBIOTEURC=1''))
     (io_then (\<lambda>(m, l). registration_loop k n dev (dev_clock dev l) (m, l))
     (io_bind (on_bus (send_at n dev ''AT+QNWINFO'')) (\<lambda>response.
      if contains response ''LTE-M'' then set_network LTE_M
      else if contains response ''NB-IoT'' then set_network NB_IoT
      else if contains response ''NTN'' then set_network NTN
      else io_return ())))"

text \<open>The value at an index behind the keyword and a colon.\<close>

definition parse_at_int :: "string \<Rightarrow> string \<Rightarrow> nat \<Rightarrow> 32 word option" where
  "parse_at_int response keyword index = do {
     start \<leftarrow> find_text keyword response;
     after_colon \<leftarrow> find_text '':'' (drop start response);
     let values = split_on CHR '','' (drop (start + after_colon + 1) response);
     (if index < length values then parse_i32 (trim (values ! index)) else None) }"

definition at_int_or :: "32 word \<Rightarrow> 32 word option \<Rightarrow> 'a::len word" where
  "at_int_or d x = ucast (case x of None \<Rightarrow> d | Some v \<Rightarrow> v)"

definition quote :: string where
  "quote = [CHR 0x22]"

definition get_signal_quality :: "nat \<Rightarrow> device \<Rightarrow> (modem_error, signal_quality) io" where
  "get_signal_quality n dev =
     io_bind (send_at n dev ''AT+CSQ'') (\<lambda>r1.
     io_bind (send_at n dev (''AT+QENG='' @ quote @ ''servingcell'' @ quote)) (\<lambda>r2.
     io_return
       \<lparr>sq_rssi = at_int_or 99 (parse_at_int r1 ''CSQ'' 0), sq_ber = at_int_or 99 (parse_at_int r1 ''CSQ'' 1),
        sq_rsrp = at_int_or (- 140) (parse_at_int r2 ''rsrp'' 0), sq_rsrq = at_int_or (- 20) (parse_at_int r2 ''rsrq'' 0),
        sq_sinr = at_int_or (- 20) (parse_at_int r2 ''sinr'' 0)\<rparr>))"

definition open_tcp :: "nat \<Rightarrow> device \<Rightarrow> string \<Rightarrow> u16 \<Rightarrow> u8 modem_op" where
  "open_tcp n dev host port =
     io_bind (on_bus (send_at n dev (''AT+QIOPEN=1,0,'' @ quote @ ''TCP'' @ quote @ '','' @ quote @ host @ quote @ '','' @
        show_nat (unat port) @ '',0,1''))) (\<lambda>response.
     if contains response ''OK'' then io_then (set_state Connected) (io_return 0)
     else io_fail (ConnectionFailed response))"

definition send_tcp :: "nat \<Rightarrow> device \<Rightarrow> bytes \<Rightarrow> (modem_error, unit) io" where
  "send_tcp n dev d =
     io_bind (send_at n dev (''AT+QISEND=0,'' @ show_nat (length d))) (\<lambda>response.
     if \<not> contains response ''>'' then io_fail (SendFailed response)
     else io_then (bus_write dev ModemSerialWrite d)
       (io_bind (send_at n dev []) (\<lambda>response.
        if contains response ''SEND OK'' then io_return () else io_fail (SendFailed response))))"

definition enable_gnss :: "nat \<Rightarrow> device \<Rightarrow> (modem_error, unit) io" where
  "enable_gnss n dev = io_then (send_at n dev ''AT+QGPS=1'') (io_return ())"

text \<open>Reading a floating-point number is a parameter, as is the system clock.\<close>

definition parse_or :: "'b \<Rightarrow> 'b option \<Rightarrow> 'b" where
  "parse_or d x = (case x of None \<Rightarrow> d | Some v \<Rightarrow> v)"

definition parse_u8_or_0 :: "string \<Rightarrow> u8" where
  "parse_u8_or_0 s = word_of_nat (parse_or 0 (parse_unsigned 255 s))"

definition fix_of_response :: "(string \<Rightarrow> 'f option) \<Rightarrow> 'f \<Rightarrow> u64 \<Rightarrow> string \<Rightarrow> (modem_error + 'f gnss_fix) exec" where
  "fix_of_response pf zero now response =
     (let parts = split_on CHR '','' response in
      if length parts < 12 then ret (Inl (InvalidGnssResponse response))
      else do {
        lat \<leftarrow> idx parts 1; lon \<leftarrow> idx parts 2; alt \<leftarrow> idx parts 3; speed \<leftarrow> idx parts 4; heading \<leftarrow> idx parts 5;
        quality \<leftarrow> idx parts 6; satellites \<leftarrow> idx parts 11;
        ret (Inr \<lparr>gf_latitude = parse_or zero (pf lat), gf_longitude = parse_or zero (pf lon),
          gf_altitude = parse_or zero (pf alt), gf_speed = parse_or zero (pf speed), gf_heading = parse_or zero (pf heading),
          gf_fix_quality = parse_u8_or_0 quality, gf_satellites = parse_u8_or_0 satellites, gf_timestamp = now\<rparr>) })"

definition get_gnss_fix ::
    "nat \<Rightarrow> device \<Rightarrow> (string \<Rightarrow> 'f option) \<Rightarrow> 'f \<Rightarrow> (bus_op list \<Rightarrow> u64) \<Rightarrow> (modem_error, 'f gnss_fix) io" where
  "get_gnss_fix n dev pf zero now =
     io_bind (send_at n dev ''AT+QGPSLOC=2'') (\<lambda>response.
     io_bind (\<lambda>l. io_exec (fix_of_response pf zero (now l) response) l) (\<lambda>r.
     case r of Inl e \<Rightarrow> io_fail e | Inr f \<Rightarrow> io_return f))"

definition get_esim_status :: "nat \<Rightarrow> device \<Rightarrow> (modem_error, string) io" where
  "get_esim_status n dev = io_bind (send_at n dev ''AT+CIMI'') (\<lambda>response. io_return (trim response))"

section \<open>The command loop\<close>

text \<open>The text received in the next \<open>k\<close> reads.\<close>

fun received :: "device \<Rightarrow> bus_op list \<Rightarrow> nat \<Rightarrow> string" where
  "received dev l 0 = []"
| "received dev l (Suc k) =
     (case dev_answer dev (l @ [BusRead 1024]) of
        Answer d \<Rightarrow> from_utf8_lossy (take 1024 d) | IoError _ _ \<Rightarrow> []) @ received dev (l @ [BusRead 1024]) k"

text \<open>Every read on the port takes time.\<close>

definition clock_advances :: "device \<Rightarrow> bool" where
  "clock_advances dev \<longleftrightarrow> (\<forall>l. dev_clock dev l < dev_clock dev (l @ [BusRead 1024]))"

lemma at_loop_log: "\<exists>k. snd (at_loop n dev cmd start response l) = l @ replicate k (BusRead 1024)"
proof (induction n arbitrary: response l)
  case (Suc n)
  have zero: "\<exists>k. l = l @ replicate k (BusRead 1024)" by (rule exI [of _ 0]) simp
  have one: "\<exists>k. l @ [BusRead 1024] = l @ replicate k (BusRead 1024)" by (rule exI [of _ 1]) simp
  have more: "\<exists>k. snd (at_loop n dev cmd start resp (l @ [BusRead 1024])) = l @ replicate k (BusRead 1024)" for resp
  proof -
    obtain k where "snd (at_loop n dev cmd start resp (l @ [BusRead 1024])) = (l @ [BusRead 1024]) @ replicate k (BusRead 1024)"
      using Suc.IH by blast
    then show ?thesis by (intro exI [of _ "Suc k"]) simp
  qed
  show ?case using zero one more by (simp add: Let_def split: answer.splits)
qed simp

definition undecided :: "string \<Rightarrow> bool" where
  "undecided s \<longleftrightarrow> \<not> contains s ''OK'' \<and> \<not> contains s ''ERROR''"

text \<open>The answer is the text up to the first read after which it contains the word.\<close>

lemma at_loop_Returned:
  "at_loop n dev cmd start response l = (Returned r, l') \<Longrightarrow> undecided response \<Longrightarrow>
   \<exists>k. l' = l @ replicate k (BusRead 1024) \<and> r = response @ received dev l k \<and> contains r ''OK'' \<and>
     (\<forall>j<k. undecided (response @ received dev l j))"
proof (induction n arbitrary: response l)
  case (Suc n)
  let ?l = "l @ [BusRead 1024]"
  let ?x = "case dev_answer dev ?l of Answer d \<Rightarrow> from_utf8_lossy (take 1024 d) | IoError _ _ \<Rightarrow> []"
  have "(contains (response @ ?x) ''OK'' \<and> r = response @ ?x \<and> l' = ?l) \<or>
      (undecided (response @ ?x) \<and> at_loop n dev cmd start (response @ ?x) ?l = (Returned r, l'))"
    using Suc.prems by (auto simp: Let_def undecided_def split: answer.splits if_splits)
  then show ?case
  proof (elim disjE conjE)
    assume "contains (response @ ?x) ''OK''" "r = response @ ?x" "l' = ?l"
    then show ?thesis using Suc.prems(2) by (intro exI [of _ 1]) simp
  next
    assume u: "undecided (response @ ?x)" and "at_loop n dev cmd start (response @ ?x) ?l = (Returned r, l')"
    then obtain k where k: "l' = ?l @ replicate k (BusRead 1024)" "r = (response @ ?x) @ received dev ?l k"
        "contains r ''OK''" "\<forall>j<k. undecided ((response @ ?x) @ received dev ?l j)"
      using Suc.IH by blast
    then have "undecided (response @ received dev l j)" if "j < Suc k" for j
      using that Suc.prems(2) by (cases j) simp_all
    with k show ?thesis by (intro exI [of _ "Suc k"]) simp
  qed
qed simp

lemma at_loop_terminates:
  "clock_advances dev \<Longrightarrow> start + at_timeout_ns + 1 - dev_clock dev l < n \<Longrightarrow>
   fst (at_loop n dev cmd start response l) \<noteq> Waiting"
proof (induction n arbitrary: response l)
  case (Suc n)
  have "dev_clock dev l < dev_clock dev (l @ [BusRead 1024])" using Suc.prems(1) unfolding clock_advances_def by blast
  then have "\<not> dev_clock dev l - start > at_timeout_ns \<Longrightarrow>
      fst (at_loop n dev cmd start resp (l @ [BusRead 1024])) \<noteq> Waiting" for resp
    using Suc.prems by (intro Suc.IH) auto
  then show ?case by (simp add: Let_def split: answer.splits)
qed simp

lemma at_loop_not_panicked: "fst (at_loop n dev cmd start response l) \<noteq> Panicked"
  by (induction n arbitrary: response l) (simp_all add: Let_def split: answer.splits)

lemma undecided_Nil: "undecided []"
  by (simp add: undecided_def contains_iff)

lemma send_at_cases:
  obtains (failed) e where "send_at n dev cmd l = (Failed (ModemSerialWrite e), l @ [BusWrite (bytes_of (cmd @ crlf))])"
  | (sent) "send_at n dev cmd l =
      at_loop n dev cmd (dev_clock dev (l @ [BusWrite (bytes_of (cmd @ crlf))])) [] (l @ [BusWrite (bytes_of (cmd @ crlf))])"
  by (cases "dev_answer dev (l @ [BusWrite (bytes_of (cmd @ crlf))])")
     (simp_all add: send_at_def io_then_def io_bind_def bus_write_def Let_def)

lemma send_at_Returned:
  assumes "send_at n dev cmd l = (Returned r, l')"
  shows "\<exists>k. l' = l @ BusWrite (bytes_of (cmd @ crlf)) # replicate k (BusRead 1024) \<and>
    r = received dev (l @ [BusWrite (bytes_of (cmd @ crlf))]) k \<and> contains r ''OK'' \<and>
    (\<forall>j<k. undecided (received dev (l @ [BusWrite (bytes_of (cmd @ crlf))]) j))"
proof (cases rule: send_at_cases [of n dev cmd l])
  case sent
  with assms at_loop_Returned [OF _ undecided_Nil, of n dev cmd _ _ r l'] show ?thesis by fastforce
qed (use assms in simp)

lemma send_at_terminates:
  assumes "clock_advances dev" "at_timeout_ns + 1 < n"
  shows "fst (send_at n dev cmd l) \<noteq> Waiting"
proof (cases rule: send_at_cases [of n dev cmd l])
  case sent
  with at_loop_terminates [OF assms(1), of _ _ n cmd "[]"] assms(2) show ?thesis by simp
qed simp

lemma send_at_log: "\<exists>k. snd (send_at n dev cmd l) = l @ BusWrite (bytes_of (cmd @ crlf)) # replicate k (BusRead 1024)"
proof (cases rule: send_at_cases [of n dev cmd l])
  case failed
  then show ?thesis by (intro exI [of _ 0]) simp
next
  case sent
  then show ?thesis using at_loop_log [of n dev cmd _ "[]" "l @ [BusWrite (bytes_of (cmd @ crlf))]"] by auto
qed

section \<open>Responses\<close>

text \<open>
  The last value of a line is followed by the rest of the response, so that it is never a number:
  the bit error rate and the number of satellites are lost.
\<close>

lemma last_value_lost:
  "parse_at_int (''+CSQ: 20,3'' @ crlf @ crlf @ ''OK'' @ crlf) ''CSQ'' 0 = Some 20"
  "parse_at_int (''+CSQ: 20,3'' @ crlf @ crlf @ ''OK'' @ crlf) ''CSQ'' 1 = None"
  by (simp_all add: parse_at_int_def crlf_def trim_def is_space_def parse_i32_def parse_nat_def digit_value_def)

lemma satellites_lost:
  "map_option (map_sum id (\<lambda>f. (gf_fix_quality f, gf_satellites f)))
     (fix_of_response (\<lambda>s. None) () 5 (''+QGPSLOC: 1,2,3,4,5,6,2,8,9,10,11,12'' @ crlf @ ''OK'' @ crlf)) = ret (Inr (2, 0))"
  by (simp add: fix_of_response_def crlf_def idx_def parse_u8_or_0_def parse_or_def parse_unsigned_def parse_nat_def digit_value_def)

text \<open>The second branch of \<open>open_tcp\<close> is never taken: a response always contains the word.\<close>

lemma on_bus_Returned_iff: "on_bus f (m, l) = (Returned x, s) \<longleftrightarrow> (\<exists>l'. f l = (Returned x, l') \<and> s = (m, l'))"
  by (auto simp: on_bus_def split: prod.splits)

lemma open_tcp_Returned:
  assumes "send_at n dev (''AT+QIOPEN=1,0,'' @ quote @ ''TCP'' @ quote @ '','' @ quote @ host @ quote @ '','' @
        show_nat (unat port) @ '',0,1'') l = (Returned r, l')"
  shows "open_tcp n dev host port (m, l) = (Returned 0, (m\<lparr>md_state := Connected\<rparr>, l'))"
  using send_at_Returned [OF assms] assms
  by (auto simp: open_tcp_def io_bind_def io_then_def on_bus_def set_state_def io_return_def)

text \<open>Registration ends too, when the two seconds of each round pass on the clock.\<close>

definition clock_waits :: "device \<Rightarrow> bool" where
  "clock_waits dev \<longleftrightarrow> (\<forall>l x. dev_clock dev l \<le> dev_clock dev (l @ [x])) \<and>
     (\<forall>l. dev_clock dev l + 2000000000 \<le> dev_clock dev (l @ [Wait 2000]))"

lemma clock_mono: "clock_waits dev \<Longrightarrow> dev_clock dev l \<le> dev_clock dev (l @ t)"
proof (induction t rule: rev_induct)
  case (snoc x t)
  then show ?case unfolding clock_waits_def by (metis append_assoc le_trans)
qed simp

lemma registration_terminates:
  assumes "clock_advances dev" "clock_waits dev" "at_timeout_ns + 1 < n"
  shows "start + reg_timeout_ns + 1 - dev_clock dev l \<le> k * 2000000000 \<Longrightarrow>
    fst (registration_loop (Suc k) n dev start (m, l)) \<noteq> Waiting"
proof (induction k arbitrary: m l)
  case 0
  then have "reg_timeout_ns < dev_clock dev l - start" by simp
  then show ?case by simp
next
  case (Suc k)
  obtain r l1 where s: "send_at n dev ''AT+CREG?'' l = (r, l1)" by fastforce
  then have r: "r \<noteq> Waiting" using send_at_terminates [OF assms(1,3), of "''AT+CREG?''" l] by auto
  obtain t where t: "l1 = l @ t" using send_at_log [of n dev "''AT+CREG?''" l] s by auto
  have "dev_clock dev l + 2000000000 \<le> dev_clock dev (l1 @ [Wait 2000])"
    using clock_mono [OF assms(2), of l t] assms(2) unfolding t clock_waits_def by (meson add_le_mono1 le_trans)
  then have "fst (registration_loop (Suc k) n dev start (m, l1 @ [Wait 2000])) \<noteq> Waiting" using Suc.prems by (intro Suc.IH) simp
  then show ?case using r
    by (cases r) (simp_all add: io_bind_def io_then_def on_bus_def wait_ms_def set_state_def s del: registration_loop.simps(2)
        add: registration_loop.simps(2) [of "Suc k"])
qed

text \<open>
  C32. An AT command ends: when reading the port takes time, the driver returns or fails after
  finitely many reads, whatever the modem sends. When it returns, exactly the command line was
  written, and the response is everything received up to the first read after which it contains
  the word OK, no earlier part of it containing OK or ERROR.
\<close>

theorem send_at_exact:
  assumes "clock_advances dev" "at_timeout_ns + 1 < n"
  shows "fst (send_at n dev cmd l) \<noteq> Waiting \<and>
    (send_at n dev cmd l = (Returned r, l') \<longrightarrow>
      (\<exists>k. l' = l @ BusWrite (bytes_of (cmd @ crlf)) # replicate k (BusRead 1024) \<and>
        r = received dev (l @ [BusWrite (bytes_of (cmd @ crlf))]) k \<and> contains r ''OK'' \<and>
        (\<forall>j<k. undecided (received dev (l @ [BusWrite (bytes_of (cmd @ crlf))]) j))))"
  using send_at_terminates [OF assms] send_at_Returned by blast

theorem send_at_exact_witness:
  "\<exists>dev l'. send_at (at_timeout_ns + 2) dev ''AT'' [] = (Returned ''OK'', l') \<and>
     fst (send_at (at_timeout_ns + 2) dev ''AT'' []) \<noteq> Waiting"
proof -
  let ?dev = "\<lparr>dev_answer = (\<lambda>l. Answer (bytes_of ''OK'')), dev_level = (\<lambda>l. False), dev_clock = length\<rparr>"
  have "clock_advances ?dev" by (simp add: clock_advances_def)
  from send_at_exact [OF this, of "at_timeout_ns + 2" "''AT''" "[]"] have "fst (send_at (at_timeout_ns + 2) ?dev ''AT'' []) \<noteq> Waiting" by simp
  moreover have "from_utf8_lossy (take 1024 (bytes_of ''OK'')) = ''OK''" "contains ''OK'' ''OK''" by code_simp+
  ultimately show ?thesis
    by (intro exI [of _ ?dev]) (simp add: send_at_def io_then_def io_bind_def bus_write_def Let_def)
qed

text \<open>The log of any run: the payload is on it only behind an answer with the prompt.\<close>

lemma send_tcp_log:
  assumes "cmd = BusWrite (bytes_of ((''AT+QISEND=0,'' @ show_nat (length d)) @ crlf))"
  obtains j where "snd (send_tcp n dev d l) = l @ cmd # replicate j (BusRead 1024)"
  | j t where "contains (received dev (l @ [cmd]) j) ''>''" "contains (received dev (l @ [cmd]) j) ''OK''"
      "snd (send_tcp n dev d l) = (l @ cmd # replicate j (BusRead 1024)) @ BusWrite d # t"
      "t = [] \<or> (\<exists>k. t = BusWrite (bytes_of crlf) # replicate k (BusRead 1024))"
proof -
  obtain o1 l1 where s: "send_at n dev (''AT+QISEND=0,'' @ show_nat (length d)) l = (o1, l1)" by fastforce
  obtain i where i: "l1 = l @ cmd # replicate i (BusRead 1024)"
    using send_at_log [of n dev "''AT+QISEND=0,'' @ show_nat (length d)" l] s unfolding assms by auto
  show thesis
  proof (cases "\<exists>r. o1 = Returned r \<and> contains r ''>''")
    case False
    then have "snd (send_tcp n dev d l) = l1" using s by (cases o1) (auto simp: send_tcp_def io_bind_def io_fail_def)
    with i show thesis using that(1) by blast
  next
    case True
    then obtain r where r: "o1 = Returned r" "contains r ''>''" by blast
    from send_at_Returned [of n dev _ l r l1] s r(1) obtain j where
      j: "l1 = l @ cmd # replicate j (BusRead 1024)" "r = received dev (l @ [cmd]) j" "contains r ''OK''" unfolding assms by blast
    let ?l = "l1 @ [BusWrite d]"
    have log: "snd (send_tcp n dev d l) = (case dev_answer dev ?l of Answer _ \<Rightarrow> snd (send_at n dev [] ?l) | IoError _ _ \<Rightarrow> ?l)"
      using s r by (simp add: send_tcp_def io_bind_def io_then_def io_fail_def io_return_def bus_write_def Let_def
          split: answer.splits prod.splits outcome.splits)
    obtain k where k: "snd (send_at n dev [] ?l) = ?l @ BusWrite (bytes_of crlf) # replicate k (BusRead 1024)"
      using send_at_log [of n dev "[]" ?l] by auto
    show thesis
    proof (cases "dev_answer dev ?l")
      case (Answer x)
      then show thesis using that(2) [of j "BusWrite (bytes_of crlf) # replicate k (BusRead 1024)"] log k j r(2) by auto
    next
      case (IoError x y)
      then show thesis using that(2) [of j "[]"] log j r(2) by auto
    qed
  qed
qed

text \<open>
  C33. Sending over TCP. In every run, however it ends, the payload is on the bus only behind an
  answer to the send command that contains both the prompt and OK, once and unchanged, followed at
  most by the empty command and its reads; without such an answer nothing but the send command is
  written. Success means that the modem then reported the data sent. A modem that answers the
  command with the prompt alone never gets the payload: the command runs into its time-out.
\<close>

theorem send_tcp_protocol:
  assumes "cmd = BusWrite (bytes_of ((''AT+QISEND=0,'' @ show_nat (length d)) @ crlf))"
  shows "(\<exists>j. snd (send_tcp n dev d l) = l @ cmd # replicate j (BusRead 1024) \<or>
      contains (received dev (l @ [cmd]) j) ''>'' \<and> contains (received dev (l @ [cmd]) j) ''OK'' \<and>
      (\<exists>t. snd (send_tcp n dev d l) = (l @ cmd # replicate j (BusRead 1024)) @ BusWrite d # t \<and>
        (t = [] \<or> (\<exists>k. t = BusWrite (bytes_of crlf) # replicate k (BusRead 1024))))) \<and>
    (send_tcp n dev d l = (Returned (), l') \<longrightarrow>
      (\<exists>j k. l' = (l @ cmd # replicate j (BusRead 1024)) @ BusWrite d # BusWrite (bytes_of crlf) # replicate k (BusRead 1024) \<and>
        contains (received dev (l @ [cmd]) j) ''>'' \<and> contains (received dev (l @ [cmd]) j) ''OK'' \<and>
        contains (received dev ((l @ cmd # replicate j (BusRead 1024)) @ [BusWrite d, BusWrite (bytes_of crlf)]) k) ''SEND OK'')) \<and>
    ((\<forall>j. \<not> contains (received dev (l @ [cmd]) j) ''OK'') \<longrightarrow>
      (\<exists>k. snd (send_tcp n dev d l) = l @ cmd # replicate k (BusRead 1024)))"
proof (intro conjI impI)
  show "\<exists>j. snd (send_tcp n dev d l) = l @ cmd # replicate j (BusRead 1024) \<or>
      contains (received dev (l @ [cmd]) j) ''>'' \<and> contains (received dev (l @ [cmd]) j) ''OK'' \<and>
      (\<exists>t. snd (send_tcp n dev d l) = (l @ cmd # replicate j (BusRead 1024)) @ BusWrite d # t \<and>
        (t = [] \<or> (\<exists>k. t = BusWrite (bytes_of crlf) # replicate k (BusRead 1024))))"
    by (rule send_tcp_log [OF assms, of n dev l]) blast+
next
  assume "send_tcp n dev d l = (Returned (), l')"
  then obtain r r' l1 where s: "send_at n dev (''AT+QISEND=0,'' @ show_nat (length d)) l = (Returned r, l1)" "contains r ''>''"
      "send_at n dev [] (l1 @ [BusWrite d]) = (Returned r', l')" "contains r' ''SEND OK''"
    by (auto simp: send_tcp_def io_bind_Returned_iff io_then_Returned_iff bus_write_Returned_iff split: if_splits)
  from send_at_Returned [OF s(1)] obtain j where j: "l1 = l @ cmd # replicate j (BusRead 1024)" "r = received dev (l @ [cmd]) j"
      "contains r ''OK''"
    unfolding assms by blast
  from send_at_Returned [OF s(3)] obtain k where k: "l' = (l1 @ [BusWrite d]) @ BusWrite (bytes_of crlf) # replicate k (BusRead 1024)"
      "r' = received dev ((l1 @ [BusWrite d]) @ [BusWrite (bytes_of crlf)]) k"
    unfolding append_Nil by blast
  show "\<exists>j k. l' = (l @ cmd # replicate j (BusRead 1024)) @ BusWrite d # BusWrite (bytes_of crlf) # replicate k (BusRead 1024) \<and>
        contains (received dev (l @ [cmd]) j) ''>'' \<and> contains (received dev (l @ [cmd]) j) ''OK'' \<and>
        contains (received dev ((l @ cmd # replicate j (BusRead 1024)) @ [BusWrite d, BusWrite (bytes_of crlf)]) k) ''SEND OK''"
    using s(2,4) j k by (intro exI [of _ j] exI [of _ k]) simp
next
  assume never: "\<forall>j. \<not> contains (received dev (l @ [cmd]) j) ''OK''"
  obtain o1 l1 where s: "send_at n dev (''AT+QISEND=0,'' @ show_nat (length d)) l = (o1, l1)" by fastforce
  have nr: "o1 \<noteq> Returned r" for r using send_at_Returned [of n dev _ l r l1] s never unfolding assms by metis
  with s have "snd (send_tcp n dev d l) = l1" by (cases o1) (auto simp: send_tcp_def io_bind_def)
  with s send_at_log [of n dev "''AT+QISEND=0,'' @ show_nat (length d)" l]
  show "\<exists>k. snd (send_tcp n dev d l) = l @ cmd # replicate k (BusRead 1024)" unfolding assms by simp
qed

theorem send_tcp_protocol_witness:
  "\<exists>dev k. dev_answer dev [] = Answer (bytes_of ''>'') \<and>
     snd (send_tcp 3 dev [7] []) = BusWrite (bytes_of (''AT+QISEND=0,1'' @ crlf)) # replicate k (BusRead 1024)"
proof -
  let ?dev = "\<lparr>dev_answer = (\<lambda>l. Answer (bytes_of ''>'')), dev_level = (\<lambda>l. False), dev_clock = length\<rparr>"
  have "from_utf8_lossy (take 1024 (bytes_of ''>'')) = ''>''" by code_simp
  then have "received ?dev l j = replicate j CHR ''>''" for l j by (induction j arbitrary: l) simp_all
  moreover have "\<not> contains (replicate j CHR ''>'') ''OK''" for j
  proof -
    have "CHR ''O'' \<notin> set (replicate j CHR ''>'')" by (auto simp: set_replicate_conv_if)
    then show ?thesis unfolding contains_iff by (metis in_set_conv_decomp append_Cons)
  qed
  moreover have "show_nat (length [7 :: u8]) = ''1''" by (simp add: show_nat.simps digit_char_def)
  ultimately have "\<exists>k. snd (send_tcp 3 ?dev [7] []) = [] @ BusWrite (bytes_of ((''AT+QISEND=0,'' @ ''1'') @ crlf)) # replicate k (BusRead 1024)"
    using send_tcp_protocol [OF refl, of 3 ?dev "[7]" "[]"] by metis
  then show ?thesis by (intro exI [of _ ?dev]) simp
qed

end
