(* ===== verification/Gnss.thy ===== *)
theory Gnss
  imports Modem
begin

text \<open>
  \<open>src/src/gnss\<close>: the positioning service over the modem and the setting of the hardware clock,
  and the task of \<open>src/src/main.rs\<close> that connects them. The \<open>hwclock\<close> command, the parser of
  floating-point numbers and the system clock are parameters.
\<close>

section \<open>Service\<close>

record gnss_service =
  gs_enabled :: bool

datatype gnss_error = NotEnabled | GnssTimeout | GnssModemError modem_error

definition lift_modem :: "(modem_error, 'a) io \<Rightarrow> (gnss_error, 'a) io" where
  "lift_modem f l =
     (case f l of
        (Returned x, l') \<Rightarrow> (Returned x, l')
      | (Failed e, l') \<Rightarrow> (Failed (GnssModemError e), l')
      | (Panicked, l') \<Rightarrow> (Panicked, l')
      | (Waiting, l') \<Rightarrow> (Waiting, l'))"

definition gnss_new :: "nat \<Rightarrow> device \<Rightarrow> (gnss_error, gnss_service) io" where
  "gnss_new n dev = io_then (lift_modem (enable_gnss n dev)) (io_return \<lparr>gs_enabled = True\<rparr>)"

definition get_fix ::
    "nat \<Rightarrow> device \<Rightarrow> (string \<Rightarrow> 'f option) \<Rightarrow> 'f \<Rightarrow> (bus_op list \<Rightarrow> u64) \<Rightarrow> gnss_service \<Rightarrow> (gnss_error, 'f gnss_fix) io" where
  "get_fix n dev pf zero now s =
     (if \<not> gs_enabled s then io_fail NotEnabled else lift_modem (get_gnss_fix n dev pf zero now))"

fun fix_loop ::
    "nat \<Rightarrow> nat \<Rightarrow> device \<Rightarrow> (string \<Rightarrow> 'f option) \<Rightarrow> 'f \<Rightarrow> (bus_op list \<Rightarrow> u64) \<Rightarrow> gnss_service \<Rightarrow> u64 \<Rightarrow> nat \<Rightarrow>
     (gnss_error, 'f gnss_fix) io" where
  "fix_loop 0 n dev pf zero now s timeout_ms start = (\<lambda>l. (Waiting, l))"
| "fix_loop (Suc k) n dev pf zero now s timeout_ms start = (\<lambda>l.
     if dev_clock dev l - start > unat timeout_ms * 1000000 then (Failed GnssTimeout, l)
     else io_bind (get_fix n dev pf zero now s) (\<lambda>f.
       if gf_fix_quality f > 0 then io_return f
       else io_then (wait_ms 1000) (fix_loop k n dev pf zero now s timeout_ms start)) l)"

definition wait_for_fix ::
    "nat \<Rightarrow> nat \<Rightarrow> device \<Rightarrow> (string \<Rightarrow> 'f option) \<Rightarrow> 'f \<Rightarrow> (bus_op list \<Rightarrow> u64) \<Rightarrow> gnss_service \<Rightarrow> u64 \<Rightarrow>
     (gnss_error, 'f gnss_fix) io" where
  "wait_for_fix k n dev pf zero now s timeout_ms = (\<lambda>l. fix_loop k n dev pf zero now s timeout_ms (dev_clock dev l) l)"

section \<open>Hardware clock\<close>

datatype rtc_error = Hwclock string

definition rtc_device :: string where
  "rtc_device = ''/dev/rtc0''"

definition sync_from_gnss :: "(string list \<Rightarrow> cmd_outcome) \<Rightarrow> 'f gnss_fix \<Rightarrow> rtc_error + unit" where
  "sync_from_gnss run f =
     (let timestamp = unat (gf_timestamp f) div 1000 in
      case run [''hwclock'', ''--set'', ''--date'', ''@'' @ show_nat timestamp, ''--rtc'', rtc_device] of
        NotRun e \<Rightarrow> Inl (Hwclock e)
      | Exited ok stderr \<Rightarrow> if \<not> ok then Inl (Hwclock stderr) else Inr ())"

text \<open>The output of the command is not read: the result is the system time.\<close>

definition get_rtc_time :: "(string list \<Rightarrow> cmd_outcome) \<Rightarrow> u64 \<Rightarrow> rtc_error + u64" where
  "get_rtc_time run system_secs =
     (case run [''hwclock'', ''--show'', ''--rtc'', rtc_device] of
        NotRun e \<Rightarrow> Inl (Hwclock e)
      | Exited ok stderr \<Rightarrow> if \<not> ok then Inl (Hwclock stderr) else Inr system_secs)"

definition is_rtc_running :: "(string list \<Rightarrow> cmd_outcome) \<Rightarrow> rtc_error + bool" where
  "is_rtc_running run =
     (case run [''hwclock'', ''--show'', ''--rtc'', rtc_device] of
        NotRun e \<Rightarrow> Inl (Hwclock e)
      | Exited ok _ \<Rightarrow> Inr ok)"

section \<open>The clock task of the supervisor\<close>

text \<open>One round: the clock command that is run, if any, and the log of the bus.\<close>

definition gnss_task_round ::
    "nat \<Rightarrow> device \<Rightarrow> (string \<Rightarrow> 'f option) \<Rightarrow> 'f \<Rightarrow> (bus_op list \<Rightarrow> u64) \<Rightarrow> gnss_service \<Rightarrow> (string list \<Rightarrow> cmd_outcome) \<Rightarrow>
     (gnss_error, (rtc_error + unit) option) io" where
  "gnss_task_round n dev pf zero now s run l =
     (case get_fix n dev pf zero now s l of
        (Returned f, l') \<Rightarrow> (Returned (if gf_fix_quality f > 0 then Some (sync_from_gnss run f) else None), l' @ [Wait 60000])
      | (Failed _, l') \<Rightarrow> (Returned None, l' @ [Wait 60000])
      | (Panicked, l') \<Rightarrow> (Panicked, l')
      | (Waiting, l') \<Rightarrow> (Waiting, l'))"

section \<open>What the clock is set to\<close>

lemma fix_of_response_timestamp: "fix_of_response pf zero now r = ret (Inr f) \<Longrightarrow> gf_timestamp f = now"
  by (auto simp: fix_of_response_def Let_def bind_eq_Some_conv split: if_splits)

lemma fix_of_response_total: "fix_of_response pf zero now r = panic \<Longrightarrow> False"
  by (auto simp: fix_of_response_def Let_def idx_def split: if_splits)

lemma get_fix_timestamp: "get_fix n dev pf zero now s l = (Returned f, l') \<Longrightarrow> gf_timestamp f = now l'"
  by (auto simp: get_fix_def lift_modem_def get_gnss_fix_def io_bind_def io_exec_def io_return_def io_fail_def
      split: prod.splits outcome.splits if_splits option.splits sum.splits dest!: fix_of_response_timestamp)

lemma send_at_not_panicked: "fst (send_at n dev cmd l) \<noteq> Panicked"
  using at_loop_not_panicked by (cases rule: send_at_cases [of n dev cmd l]) auto

lemma get_fix_not_panicked: "fst (get_fix n dev pf zero now s l) \<noteq> Panicked"
proof -
  have "fst (send_at n dev ''AT+QGPSLOC=2'' l) \<noteq> Panicked" by (rule send_at_not_panicked)
  then show ?thesis
    by (auto simp: get_fix_def lift_modem_def get_gnss_fix_def io_bind_def io_exec_def io_return_def io_fail_def
        split: prod.splits outcome.splits option.splits sum.splits dest: fix_of_response_total)
qed

text \<open>
  C34. The clock task: when a command to the modem ends in time, a round ends without a panic, and
  when it sets the hardware clock it sets it to the system clock of the gateway, rounded down to
  seconds, whatever time the satellites reported.
\<close>

theorem rtc_set_from_system_clock:
  fixes pf :: "string \<Rightarrow> 'f option"
  assumes "clock_advances dev" "at_timeout_ns + 1 < n"
  shows "\<exists>r l'. gnss_task_round n dev pf zero now s run l = (Returned r, l' @ [Wait 60000]) \<and>
    (r = None \<or> (\<exists>f. gf_timestamp f = now l' \<and> r = Some (sync_from_gnss run (f :: 'f gnss_fix)))) \<and>
    (r = Some (Inr ()) \<longrightarrow>
      (\<exists>e. run [''hwclock'', ''--set'', ''--date'', ''@'' @ show_nat (unat (now l') div 1000), ''--rtc'', rtc_device] = Exited True e))"
proof -
  obtain r l' where g: "get_fix n dev pf zero now s l = (r, l')" by fastforce
  have w: "r \<noteq> Waiting"
  proof
    assume "r = Waiting"
    with g have "fst (get_fix n dev pf zero now s l) = Waiting" by simp
    then have "fst (send_at n dev ''AT+QGPSLOC=2'' l) = Waiting"
      by (auto simp: get_fix_def lift_modem_def get_gnss_fix_def io_bind_def io_exec_def io_return_def io_fail_def
        split: prod.splits outcome.splits option.splits sum.splits if_splits)
    with send_at_terminates [OF assms] show False by simp
  qed
  have p: "r \<noteq> Panicked" using g get_fix_not_panicked [of n dev pf zero now s l] by auto
  show ?thesis
  proof (cases r)
    case (Returned f)
    then have t: "gf_timestamp f = now l'" using get_fix_timestamp g by metis
    have "sync_from_gnss run f = Inr () \<Longrightarrow>
        \<exists>e. run [''hwclock'', ''--set'', ''--date'', ''@'' @ show_nat (unat (now l') div 1000), ''--rtc'', rtc_device] = Exited True e"
      using t by (auto simp: sync_from_gnss_def Let_def split: cmd_outcome.splits if_splits)
    with Returned g t show ?thesis
      by (cases "gf_fix_quality f > 0") (simp_all add: gnss_task_round_def, blast)
  qed (use g w p in \<open>simp_all add: gnss_task_round_def\<close>)
qed

theorem rtc_set_from_system_clock_witness:
  "\<exists>n dev l'. gnss_task_round n dev (\<lambda>s. None) () (\<lambda>l. 5000) \<lparr>gs_enabled = True\<rparr>
      (\<lambda>c. if c ! 3 = ''@5'' then Exited True [] else NotRun []) [] = (Returned (Some (Inr ())), l' @ [Wait 60000])"
proof -
  define t where "t = ''+QGPSLOC: 1,2,3,4,5,6,2,8,9,10,11,12 OK''"
  define run where "run = (\<lambda>c. if c ! 3 = ''@5'' then Exited True [] else NotRun [])"
  define n where "n = at_timeout_ns + 2"
  define dev where "dev = \<lparr>dev_answer = (\<lambda>l. Answer (bytes_of t)), dev_level = (\<lambda>l. False), dev_clock = length\<rparr>"
  define f :: "unit gnss_fix" where "f = \<lparr>gf_latitude = (), gf_longitude = (), gf_altitude = (), gf_speed = (), gf_heading = (),
    gf_fix_quality = 2, gf_satellites = 0, gf_timestamp = 5000\<rparr>"
  have "from_utf8_lossy (take 1024 (bytes_of t)) = t" unfolding t_def by code_simp
  moreover have "contains t ''OK''" by (simp add: contains_def t_def)
  ultimately have a: "send_at n dev cmd [] = (Returned t, [BusWrite (bytes_of (cmd @ crlf)), BusRead 1024])" for cmd
    by (simp add: n_def dev_def send_at_def io_then_def io_bind_def bus_write_def Let_def)
  have r: "fix_of_response (\<lambda>s. None) () 5000 t = ret (Inr f)"
    by (simp add: t_def f_def fix_of_response_def idx_def parse_u8_or_0_def parse_or_def parse_unsigned_def parse_nat_def digit_value_def)
  have g: "get_fix n dev (\<lambda>s. None) () (\<lambda>l. 5000) \<lparr>gs_enabled = True\<rparr> [] = (Returned f, [BusWrite (bytes_of (''AT+QGPSLOC=2'' @ crlf)), BusRead 1024])"
    by (simp add: get_fix_def lift_modem_def get_gnss_fix_def io_bind_def a r io_exec_def io_return_def)
  have "clock_advances dev" "at_timeout_ns + 1 < n" by (simp_all add: clock_advances_def dev_def n_def)
  from rtc_set_from_system_clock [OF this, of "\<lambda>s. None" "()" "\<lambda>l. 5000" "\<lparr>gs_enabled = True\<rparr>" run "[]"]
  obtain r l' where "gnss_task_round n dev (\<lambda>s. None) () (\<lambda>l. 5000) \<lparr>gs_enabled = True\<rparr> run [] = (Returned r, l' @ [Wait 60000])" by blast
  moreover have "show_nat 5 = ''5''" by (simp add: show_nat.simps digit_char_def)
  then have "sync_from_gnss run f = Inr ()" by (simp add: sync_from_gnss_def f_def run_def Let_def)
  then have "fst (gnss_task_round n dev (\<lambda>s. None) () (\<lambda>l. 5000) \<lparr>gs_enabled = True\<rparr> run []) = Returned (Some (Inr ()))"
    by (simp add: gnss_task_round_def g) (simp add: f_def)
  ultimately show ?thesis unfolding run_def by (metis fst_conv)
qed

end
