(* ===== verification/Inmarsat.thy ===== *)
theory Inmarsat
  imports Protocol Externals Codec
begin

text \<open>
  \<open>src/src/inmarsat_c.rs\<close>: parsing and encoding of Inmarsat C messages. The CRC-16 and the
  hexadecimal codec are the parameters \<open>x_crc16\<close> and \<open>x_hex_decode\<close>.
\<close>

section \<open>Data\<close>

datatype parse_error =
    InvalidMagicNumber (found_magic: u32) (expected_magic: u32)
  | ChecksumMismatch (expected_sum: u16) (found_sum: u16)
  | InvalidLength (min_len: nat) (found_len: nat)
  | InvalidDestinationId string
  | InvalidSourceId string

record inmarsat_message =
  in_message_number :: u16
  in_destination_id :: string
  in_source_id :: string
  in_payload :: bytes

definition inmarsat_magic :: u32 where "inmarsat_magic = 0x494E4D01"

section \<open>Operations\<close>

definition inmarsat_compute_checksum :: "ext \<Rightarrow> bytes \<Rightarrow> u16" where
  "inmarsat_compute_checksum e d = x_crc16 e d"

definition inmarsat_parse_inner :: "ext \<Rightarrow> bytes \<Rightarrow> (parse_error + inmarsat_message) exec" where
  "inmarsat_parse_inner e d = do {
     number \<leftarrow> u16_at d 4;
     d6 \<leftarrow> idx d 6; d7 \<leftarrow> idx d 7; d8 \<leftarrow> idx d 8; d9 \<leftarrow> idx d 9;
     let dest = fmt_02x d6 @ fmt_02x d7 @ fmt_02x d8 @ fmt_02x d9;
     (if x_hex_decode e dest = None then ret (Inl (InvalidDestinationId dest))
      else do {
        d10 \<leftarrow> idx d 10; d11 \<leftarrow> idx d 11; d12 \<leftarrow> idx d 12; d13 \<leftarrow> idx d 13;
        let src = fmt_02x d10 @ fmt_02x d11 @ fmt_02x d12 @ fmt_02x d13;
        (if x_hex_decode e src = None then ret (Inl (InvalidSourceId src))
         else do {
           payload \<leftarrow> (if length d > 14 then slice d 14 (length d) else ret []);
           ret (Inr \<lparr>in_message_number = number, in_destination_id = dest,
                     in_source_id = src, in_payload = payload\<rparr>) }) }) }"

definition inmarsat_parse :: "ext \<Rightarrow> bytes \<Rightarrow> (parse_error + inmarsat_message) exec" where
  "inmarsat_parse e d =
     (if length d < 16 then ret (Inl (InvalidLength 16 (length d)))
      else do {
        magic \<leftarrow> u32_at d 0;
        (if magic \<noteq> inmarsat_magic then ret (Inl (InvalidMagicNumber magic inmarsat_magic))
         else do {
           let payload_len = length d - 2;
           body \<leftarrow> slice d 0 payload_len;
           let computed = inmarsat_compute_checksum e body;
           stored \<leftarrow> u16_at d payload_len;
           (if computed \<noteq> stored then ret (Inl (ChecksumMismatch computed stored))
            else inmarsat_parse_inner e body) }) })"

text \<open>\<open>hex::decode(..).unwrap_or_else(|_| vec![0u8; 4])\<close>\<close>

definition decode_id :: "ext \<Rightarrow> string \<Rightarrow> bytes" where
  "decode_id e s = (case x_hex_decode e s of Some bs \<Rightarrow> bs | None \<Rightarrow> replicate 4 0)"

definition inmarsat_encode :: "ext \<Rightarrow> inmarsat_message \<Rightarrow> bytes exec" where
  "inmarsat_encode e m = do {
     let b0 = replicate 128 0;
     b1 \<leftarrow> copy_into b0 0 4 (u32_to_be inmarsat_magic);
     b2 \<leftarrow> copy_into b1 4 6 (u16_to_be (in_message_number m));
     let dest = decode_id e (in_destination_id m);
     ds \<leftarrow> slice dest 0 (min 4 (length dest));
     b3 \<leftarrow> copy_into b2 6 10 ds;
     let src = decode_id e (in_source_id m);
     ss \<leftarrow> slice src 0 (min 4 (length src));
     b4 \<leftarrow> copy_into b3 10 14 ss;
     let payload_len = min (length (in_payload m)) 114;
     ps \<leftarrow> slice (in_payload m) 0 payload_len;
     b5 \<leftarrow> copy_into b4 14 (14 + payload_len) ps;
     let data_len = 14 + payload_len;
     let b6 = take data_len b5;
     body \<leftarrow> slice b6 0 data_len;
     ret (b6 @ u16_to_be (inmarsat_compute_checksum e body)) }"

text \<open>Station identities the format can carry: eight lower-case hexadecimal digits.\<close>

definition hex_id_ok :: "string \<Rightarrow> bool" where
  "hex_id_ok s \<longleftrightarrow> length s = 8 \<and> list_all (\<lambda>c. c \<in> set ''0123456789abcdef'') s"

definition inmarsat_wf :: "inmarsat_message \<Rightarrow> bool" where
  "inmarsat_wf m \<longleftrightarrow> hex_id_ok (in_destination_id m) \<and> hex_id_ok (in_source_id m) \<and>
     length (in_payload m) \<le> 114"

text \<open>The message that a frame with a good magic number and checksum denotes.\<close>

definition inmarsat_image :: "bytes \<Rightarrow> inmarsat_message" where
  "inmarsat_image d = \<lparr>in_message_number = u16_from_be (take 2 (drop 4 d)),
     in_destination_id = hex_text (take 4 (drop 6 d)), in_source_id = hex_text (take 4 (drop 10 d)),
     in_payload = take (length d - 16) (drop 14 d)\<rparr>"

text \<open>The encoder as a concatenation of fields.\<close>

definition inmarsat_body :: "inmarsat_message \<Rightarrow> bytes \<Rightarrow> bytes \<Rightarrow> bytes" where
  "inmarsat_body m ds ss =
     u32_to_be inmarsat_magic @ u16_to_be (in_message_number m) @ ds @ ss @ take 114 (in_payload m)"

section \<open>Lemmas\<close>

lemma take_min_length: "take (min (length xs) n) xs = take n xs"
  by (simp add: min_def)

lemma hex_text_append: "hex_text (xs @ ys) = hex_text xs @ hex_text ys"
  by (simp add: hex_text_def)

lemma list_of_length_4: "length xs = 4 \<longleftrightarrow> (\<exists>a b c d. xs = [a, b, c, d])"
  by (auto simp: numeral_eq_Suc length_Suc_conv)

lemma take_4_drop:
  "k + 4 \<le> length d \<Longrightarrow> take 4 (drop k d) = [d ! k, d ! (k + 1), d ! (k + 2), d ! (k + 3)]"
  by (rule nth_equalityI) (auto simp: nth_Cons numeral_eq_Suc less_Suc_eq split: nat.splits)

lemma hex_text_take_4:
  "k + 4 \<le> length d \<Longrightarrow>
   fmt_02x (d ! k) @ fmt_02x (d ! (k + 1)) @ fmt_02x (d ! (k + 2)) @ fmt_02x (d ! (k + 3)) =
   hex_text (take 4 (drop k d))"
  by (simp add: take_4_drop hex_text_def)

lemma digit_charE:
  assumes "c \<in> set ''0123456789abcdef''"
  obtains h where "h < 16" and "digit_char h = c"
proof -
  from assms obtain h where "h < length ''0123456789abcdef''" and "''0123456789abcdef'' ! h = c"
    unfolding in_set_conv_nth by blast
  then show ?thesis by (intro that [of h]) (simp, simp only: digit_char_def)
qed

lemma hex_pairE:
  assumes "c \<in> set ''0123456789abcdef''" and "d \<in> set ''0123456789abcdef''"
  obtains b where "[c, d] = fmt_02x b"
proof -
  obtain h l where h: "h < 16" "digit_char h = c" and l: "l < 16" "digit_char l = d"
    using assms by (metis digit_charE)
  have "unat (word_of_nat (16 * h + l) :: u8) = 16 * h + l" using h l by (intro u8_of_nat_inverse) simp
  then have "[c, d] = fmt_02x (word_of_nat (16 * h + l))"
    unfolding fmt_02x_def using h l by (simp only: list.inject) simp
  then show ?thesis by (rule that)
qed

lemma hex_idE:
  assumes "hex_id_ok s"
  obtains bs where "length bs = 4" and "s = hex_text bs"
proof -
  let ?D = "\<lambda>c. c \<in> set ''0123456789abcdef''"
  from assms obtain c1 c2 c3 c4 c5 c6 c7 c8 where s: "s = [c1, c2] @ [c3, c4] @ [c5, c6] @ [c7, c8]"
    unfolding hex_id_ok_def by (auto simp: numeral_eq_Suc length_Suc_conv)
  with assms have "?D c1" "?D c2" "?D c3" "?D c4" "?D c5" "?D c6" "?D c7" "?D c8"
    unfolding hex_id_ok_def by (simp_all only: list.pred_inject append.simps simp_thms)
  then obtain b1 b2 b3 b4 where "[c1, c2] = fmt_02x b1" "[c3, c4] = fmt_02x b2"
    "[c5, c6] = fmt_02x b3" "[c7, c8] = fmt_02x b4"
    by (metis hex_pairE)
  with s show ?thesis by (intro that [of "[b1, b2, b3, b4]"]) (simp_all add: hex_text_def)
qed

lemma inmarsat_parse_inner_eq:
  assumes "hex_decode_law e" and "14 \<le> length d"
  shows "inmarsat_parse_inner e d = ret (Inr \<lparr>in_message_number = u16_from_be (take 2 (drop 4 d)),
     in_destination_id = hex_text (take 4 (drop 6 d)), in_source_id = hex_text (take 4 (drop 10 d)),
     in_payload = drop 14 d\<rparr>)"
  using assms hex_text_take_4 [of 6 d] hex_text_take_4 [of 10 d]
  by (simp add: inmarsat_parse_inner_def panic_simps hex_decode_law_def Let_def)

lemma inmarsat_encode_eq:
  assumes "x_hex_decode e (in_destination_id m) = Some ds" "x_hex_decode e (in_source_id m) = Some ss"
    and "length ds = 4" "length ss = 4"
  shows "inmarsat_encode e m =
     ret (inmarsat_body m ds ss @ u16_to_be (x_crc16 e (inmarsat_body m ds ss)))"
  using assms
  by (simp add: inmarsat_encode_def decode_id_def panic_simps Let_def inmarsat_body_def
      inmarsat_compute_checksum_def take_min_length)

lemma inmarsat_encode_parse:
  assumes "hex_decode_law e" and "inmarsat_wf m"
  shows "\<exists>w. inmarsat_encode e m = ret w \<and> length w = 16 + length (in_payload m) \<and>
             inmarsat_parse e w = ret (Inr m)"
proof -
  from assms(2) obtain ds ss where ids: "in_destination_id m = hex_text ds" "in_source_id m = hex_text ss"
    and len: "length ds = 4" "length ss = 4" "length (in_payload m) \<le> 114"
    by (metis hex_idE inmarsat_wf_def)
  let ?b = "inmarsat_body m ds ss"
  have lb: "length ?b = 14 + length (in_payload m)" using len by (simp add: inmarsat_body_def)
  have enc: "inmarsat_encode e m = ret (?b @ u16_to_be (x_crc16 e ?b))"
    using assms(1) len(1,2) by (intro inmarsat_encode_eq) (simp_all add: ids hex_decode_law_def)
  have "inmarsat_parse_inner e ?b = ret (Inr m)"
    using len lb ids by (simp add: inmarsat_parse_inner_eq [OF assms(1)]) (simp add: inmarsat_body_def)
  moreover have "u32_from_be (take 4 ?b) = inmarsat_magic" by (simp add: inmarsat_body_def)
  ultimately have "inmarsat_parse e (?b @ u16_to_be (x_crc16 e ?b)) = ret (Inr m)"
    using lb by (simp add: inmarsat_parse_def panic_simps Let_def inmarsat_compute_checksum_def)
  with enc lb show ?thesis by simp
qed

interpretation inmarsat_codec:
  codec "inmarsat_encode e" "\<lambda>w. Option.bind w (inmarsat_parse e)" "\<lambda>m. ret (Inr m)"
    "\<lambda>m. hex_decode_law e \<and> inmarsat_wf m" for e
  by unfold_locales (use inmarsat_encode_parse in fastforce, simp)

text \<open>
  An identity that decodes to fewer than four bytes makes the encoder panic, and the largest
  accepted payload gives a frame above the 128-byte limit of the protocol.
\<close>

lemma inmarsat_encode_short_id:
  assumes "x_hex_decode e (in_destination_id m) = Some ds" and "length ds < 4"
  shows "inmarsat_encode e m = panic"
proof -
  have "copy_into b 6 10 ds = panic" for b using assms(2) by (simp add: copy_into_def)
  with assms show ?thesis
    by (simp add: inmarsat_encode_def decode_id_def Let_def slice_ok copy_into_ok min_def)
qed

lemma inmarsat_encode_over_limit:
  assumes "hex_decode_law e" and "inmarsat_wf m" and "length (in_payload m) = 114"
  shows "\<exists>w. inmarsat_encode e m = ret w \<and> length w > max_message_size InmarsatC"
  using inmarsat_encode_parse [OF assms(1,2)] assms(3) by auto

section \<open>Properties\<close>

text \<open>
  C12. Parsing never panics on any input, and reports the first of: a frame below 16 bytes, a
  wrong magic number, a checksum that is not the CRC of all bytes before the trailer;
  otherwise it returns the fields of the frame. No other error is ever reported.
\<close>

theorem inmarsat_parse_correct:
  assumes "hex_decode_law e"
  shows "inmarsat_parse e d = ret
    (if length d < 16 then Inl (InvalidLength 16 (length d))
     else if u32_from_be (take 4 d) \<noteq> inmarsat_magic
       then Inl (InvalidMagicNumber (u32_from_be (take 4 d)) inmarsat_magic)
     else if x_crc16 e (butlast (butlast d)) \<noteq> u16_from_be (drop (length d - 2) d)
       then Inl (ChecksumMismatch (x_crc16 e (butlast (butlast d))) (u16_from_be (drop (length d - 2) d)))
     else Inr (inmarsat_image d))"
proof (cases "length d < 16")
  case False
  then have "butlast (butlast d) = take (length d - 2) d"
    by (simp add: butlast_conv_take min_def numeral_2_eq_2)
  moreover have "inmarsat_parse_inner e (take (length d - 2) d) = ret (Inr (inmarsat_image d))"
  proof -
    have "14 \<le> length (take (length d - 2) d)" using False by simp
    from inmarsat_parse_inner_eq [OF assms this] False show ?thesis
      by (simp add: inmarsat_image_def take_drop min_def)
  qed
  ultimately show ?thesis
    using False by (simp add: inmarsat_parse_def panic_simps Let_def inmarsat_compute_checksum_def)
qed (simp add: inmarsat_parse_def)

theorem inmarsat_parse_correct_witness:
  "inmarsat_parse ref_ext (replicate 16 0) = ret (Inl (InvalidMagicNumber 0 inmarsat_magic))"
proof -
  have "u32_from_be (take 4 (replicate 16 0)) = 0" by code_simp
  then show ?thesis
    using inmarsat_parse_correct [OF ref_ext_laws(1), of "replicate 16 0"] by (simp add: inmarsat_magic_def)
qed

text \<open>
  Round trip: a message with two four-byte hexadecimal identities and a payload of at
  most 114 bytes is encoded without panic into \<open>16 + length\<close> bytes, parsing these
  returns the message, and two such messages have the same encoding only if they are equal.
\<close>

lemma inmarsat_roundtrip:
  assumes "hex_decode_law e" and "inmarsat_wf m" and "inmarsat_wf m'"
  shows "(\<exists>w. inmarsat_encode e m = ret w \<and> length w = 16 + length (in_payload m) \<and>
              inmarsat_parse e w = ret (Inr m)) \<and>
         (inmarsat_encode e m = inmarsat_encode e m' \<longleftrightarrow> m = m')"
  using inmarsat_encode_parse [OF assms(1,2)] inmarsat_codec.enc_injective [of e m m'] assms by blast

end
