(* ===== verification/Vsat.thy ===== *)
theory Vsat
  imports Externals Codec
begin

text \<open>
  \<open>src/src/vsat.rs\<close>: VSAT packets, compressed with zstd (the parameters
  \<open>x_zstd_encode\<close> and \<open>x_zstd_decode\<close>). An \<open>[u8; 4]\<close> is a list of four bytes.
\<close>

record vsat_message =
  v_packet_id :: u32
  v_source_ip :: bytes
  v_dest_ip :: bytes
  v_payload :: bytes

definition vsat_parse :: "bytes \<Rightarrow> vsat_message option exec" where
  "vsat_parse d =
     (if length d < 16 then ret None
      else do {
        pid \<leftarrow> u32_at d 0;
        src \<leftarrow> slice d 4 8;
        dst \<leftarrow> slice d 8 12;
        payload \<leftarrow> slice d 12 (length d);
        ret (Some \<lparr>v_packet_id = pid, v_source_ip = src, v_dest_ip = dst, v_payload = payload\<rparr>) })"

definition vsat_encode :: "ext \<Rightarrow> vsat_message \<Rightarrow> bytes exec" where
  "vsat_encode e m = do {
     let b0 = replicate (12 + length (v_payload m)) 0;
     b1 \<leftarrow> copy_into b0 0 4 (u32_to_be (v_packet_id m));
     b2 \<leftarrow> copy_into b1 4 8 (v_source_ip m);
     b3 \<leftarrow> copy_into b2 8 12 (v_dest_ip m);
     b4 \<leftarrow> copy_into b3 12 (length b3) (v_payload m);
     ret (case x_zstd_encode e b4 3 of Some c \<Rightarrow> c | None \<Rightarrow> b4) }"

definition vsat_decompress :: "ext \<Rightarrow> bytes \<Rightarrow> bytes option" where
  "vsat_decompress e c = x_zstd_decode e c"

text \<open>The uncompressed packet, and the packets that survive the round trip.\<close>

definition vsat_body :: "vsat_message \<Rightarrow> bytes" where
  "vsat_body m = u32_to_be (v_packet_id m) @ v_source_ip m @ v_dest_ip m @ v_payload m"

definition vsat_wf :: "vsat_message \<Rightarrow> bool" where
  "vsat_wf m \<longleftrightarrow> length (v_source_ip m) = 4 \<and> length (v_dest_ip m) = 4 \<and> 4 \<le> length (v_payload m)"

text \<open>The receiving side: decompress, then parse.\<close>

definition vsat_receive :: "ext \<Rightarrow> bytes \<Rightarrow> vsat_message option exec" where
  "vsat_receive e c = (case vsat_decompress e c of None \<Rightarrow> ret None | Some d \<Rightarrow> vsat_parse d)"

section \<open>Lemmas\<close>

lemma vsat_encode_eq:
  assumes "length (v_source_ip m) = 4" and "length (v_dest_ip m) = 4"
  shows "vsat_encode e m =
    ret (case x_zstd_encode e (vsat_body m) 3 of Some c \<Rightarrow> c | None \<Rightarrow> vsat_body m)"
  unfolding vsat_body_def using assms by (simp add: vsat_encode_def panic_simps Let_def)

lemma vsat_parse_body: "vsat_wf m \<Longrightarrow> vsat_parse (vsat_body m) = ret (Some m)"
  by (simp add: vsat_wf_def vsat_parse_def vsat_body_def panic_simps)

lemma vsat_encode_receive:
  assumes "zstd_law e" and "x_zstd_encode e (vsat_body m) 3 \<noteq> None" and "vsat_wf m"
  shows "Option.bind (vsat_encode e m) (vsat_receive e) = ret (Some m)"
  using assms
  by (auto simp: vsat_encode_eq vsat_wf_def vsat_receive_def vsat_decompress_def zstd_law_def vsat_parse_body)

interpretation vsat_codec:
  codec "vsat_encode e" "\<lambda>w. Option.bind w (vsat_receive e)" "\<lambda>m. ret (Some m)"
    "\<lambda>m. zstd_law e \<and> x_zstd_encode e (vsat_body m) 3 \<noteq> None \<and> vsat_wf m" for e
  by unfold_locales (simp_all add: vsat_encode_receive)

text \<open>A packet whose payload has fewer than four bytes is written but never read back.\<close>

lemma vsat_short_payload_lost:
  assumes "length (v_source_ip m) = 4" and "length (v_dest_ip m) = 4" and "length (v_payload m) < 4"
  shows "vsat_parse (vsat_body m) = ret None"
  using assms by (simp add: vsat_parse_def vsat_body_def)

section \<open>Properties\<close>

text \<open>
  Round trip: a packet with a payload of at least four bytes that zstd can compress is
  returned by decompressing and parsing its encoding, and two such packets with the same
  encoding are equal.
\<close>

lemma vsat_roundtrip:
  assumes "zstd_law e" and "x_zstd_encode e (vsat_body m) 3 = Some c" and "vsat_wf m"
    and "x_zstd_encode e (vsat_body m') 3 = Some c'" and "vsat_wf m'"
  shows "vsat_encode e m = ret c \<and> vsat_receive e c = ret (Some m) \<and>
         (vsat_encode e m = vsat_encode e m' \<longleftrightarrow> m = m')"
  using assms vsat_encode_receive [of e m] vsat_codec.enc_injective [of e m m']
  by (simp add: vsat_encode_eq vsat_wf_def)

end
