(* ===== verification/Hfvhf.thy ===== *)
theory Hfvhf
  imports Codec Floats
begin

text \<open>
  \<open>src/src/hfvhf.rs\<close>: HF/VHF radio messages with 16-bit little-endian PCM samples.
\<close>

datatype modulation_type = AM | FM | SSB | CW

record hfvhf_message =
  h_frequency_khz :: u32
  h_modulation :: modulation_type
  h_audio_samples :: "i16 list"

text \<open>\<open>data[5..].chunks(2)\<close>, keeping the chunks of two bytes.\<close>

fun parse_samples :: "bytes \<Rightarrow> i16 list" where
  "parse_samples (a # b # r) = u16_from_le [a, b] # parse_samples r"
| "parse_samples [a] = []"
| "parse_samples [] = []"

definition modulation_of_byte :: "u8 \<Rightarrow> modulation_type option" where
  "modulation_of_byte b =
     (if b = 0 then Some AM else if b = 1 then Some FM else if b = 2 then Some SSB
      else if b = 3 then Some CW else None)"

fun modulation_byte :: "modulation_type \<Rightarrow> u8" where
  "modulation_byte AM = 0"
| "modulation_byte FM = 1"
| "modulation_byte SSB = 2"
| "modulation_byte CW = 3"

definition hfvhf_parse :: "bytes \<Rightarrow> hfvhf_message option exec" where
  "hfvhf_parse d =
     (if length d < 8 then ret None
      else do {
        freq \<leftarrow> u32_at d 0;
        mb \<leftarrow> idx d 4;
        (case modulation_of_byte mb of
           None \<Rightarrow> ret None
         | Some md \<Rightarrow> do {
             r \<leftarrow> slice d 5 (length d);
             ret (Some \<lparr>h_frequency_khz = freq, h_modulation = md,
                        h_audio_samples = parse_samples r\<rparr>) }) })"

text \<open>The loop over \<open>self.audio_samples.iter().enumerate()\<close>.\<close>

fun write_samples :: "bytes \<Rightarrow> nat \<Rightarrow> i16 list \<Rightarrow> bytes exec" where
  "write_samples buf i [] = ret buf"
| "write_samples buf i (s # ss) = do {
     let off = 5 + i * 2;
     buf \<leftarrow> copy_into buf off (off + 2) (u16_to_le s);
     write_samples buf (i + 1) ss }"

definition hfvhf_encode :: "hfvhf_message \<Rightarrow> bytes exec" where
  "hfvhf_encode m = do {
     let b0 = replicate (5 + length (h_audio_samples m) * 2) 0;
     b1 \<leftarrow> copy_into b0 0 4 (u32_to_be (h_frequency_khz m));
     b2 \<leftarrow> store b1 4 (modulation_byte (h_modulation m));
     write_samples b2 0 (h_audio_samples m) }"

definition codec_translate_to_digital :: "hfvhf_message \<Rightarrow> bytes exec" where
  "codec_translate_to_digital m = hfvhf_encode m"

text \<open>\<open>resample\<close>: the loop body for the output positions \<open>is\<close>.\<close>

fun resample_loop :: "'f f64_ops \<Rightarrow> 'f \<Rightarrow> i16 list \<Rightarrow> nat list \<Rightarrow> i16 list" where
  "resample_loop F ratio ss [] = []"
| "resample_loop F ratio ss (i # is) =
     (let src = f_to_nat F (f_div F (f_of_nat F i) ratio)
      in (if src < length ss then [ss ! src] else []) @ resample_loop F ratio ss is)"

definition resample :: "'f f64_ops \<Rightarrow> hfvhf_message \<Rightarrow> u32 \<Rightarrow> u32 \<Rightarrow> hfvhf_message" where
  "resample F m target original =
     (let ratio = f_div F (f_of_nat F (unat target)) (f_of_nat F (unat original));
          n = f_to_nat F (f_mul F (f_of_nat F (length (h_audio_samples m))) ratio)
      in m\<lparr>h_audio_samples := resample_loop F ratio (h_audio_samples m) [0..<n]\<rparr>)"

text \<open>The frame on the wire, and the messages it can carry.\<close>

definition hfvhf_frame :: "hfvhf_message \<Rightarrow> bytes" where
  "hfvhf_frame m = u32_to_be (h_frequency_khz m) @ [modulation_byte (h_modulation m)] @
     concat (map u16_to_le (h_audio_samples m))"

definition hfvhf_wf :: "hfvhf_message \<Rightarrow> bool" where
  "hfvhf_wf m \<longleftrightarrow> 2 \<le> length (h_audio_samples m)"

section \<open>Lemmas\<close>

lemma modulation_roundtrip [simp]: "modulation_of_byte (modulation_byte md) = Some md"
  by (cases md) (simp_all add: modulation_of_byte_def)

lemma parse_samples_written [simp]: "parse_samples (concat (map u16_to_le ss)) = ss"
proof (induction ss)
  case (Cons s ss)
  obtain a b where ab: "u16_to_le s = [a, b]"
    using iffD1 [OF list_of_length_2, OF length_to_le(1) [of s]] by blast
  then have "u16_from_le [a, b] = s" using from_to_le16 [of s] by (simp only:)
  with Cons.IH ab show ?case by (simp only: list.map concat.simps append.simps parse_samples.simps)
qed simp

lemma length_samples [simp]: "length (concat (map u16_to_le ss)) = 2 * length ss"
  by (induction ss) simp_all

lemma write_samples_eq:
  "length pre = 5 + i * 2 \<Longrightarrow>
   write_samples (pre @ replicate (2 * length ss) 0) i ss = ret (pre @ concat (map u16_to_le ss))"
proof (induction ss arbitrary: pre i)
  case (Cons s ss)
  have len: "length pre = 5 + i * 2" by (rule Cons.prems)
  have "copy_into (pre @ replicate (2 * length (s # ss)) 0) (5 + i * 2) (5 + i * 2 + 2) (u16_to_le s) =
      ret ((pre @ u16_to_le s) @ replicate (2 * length ss) 0)"
    unfolding copy_into_def len [symmetric] by simp
  moreover have "write_samples ((pre @ u16_to_le s) @ replicate (2 * length ss) 0) (i + 1) ss =
      ret ((pre @ u16_to_le s) @ concat (map u16_to_le ss))"
    by (rule Cons.IH) (use len in simp)
  ultimately show ?case by (simp only: write_samples.simps Let_def bind.bind_lunit list.map concat.simps append_assoc)
qed simp

lemma hfvhf_encode_eq: "hfvhf_encode m = ret (hfvhf_frame m)"
proof -
  let ?n = "length (h_audio_samples m)" and ?f = "u32_to_be (h_frequency_khz m)"
  let ?b = "modulation_byte (h_modulation m)"
  have "copy_into (replicate (5 + ?n * 2) 0) 0 4 ?f = ret (?f @ replicate (Suc (2 * ?n)) 0)"
    by (simp add: copy_into_def mult.commute)
  moreover have "store (?f @ replicate (Suc (2 * ?n)) 0) 4 ?b = ret ((?f @ [?b]) @ replicate (2 * ?n) 0)"
    by (simp add: store_def list_update_append)
  moreover have "write_samples ((?f @ [?b]) @ replicate (2 * ?n) 0) 0 (h_audio_samples m) =
      ret ((?f @ [?b]) @ concat (map u16_to_le (h_audio_samples m)))"
    by (rule write_samples_eq) simp
  ultimately show ?thesis
    by (simp only: hfvhf_encode_def hfvhf_frame_def Let_def bind.bind_lunit append_assoc)
qed

lemma hfvhf_parse_frame: "hfvhf_wf m \<Longrightarrow> hfvhf_parse (hfvhf_frame m) = ret (Some m)"
  by (simp add: hfvhf_parse_def hfvhf_frame_def hfvhf_wf_def panic_simps nth_append)

interpretation hfvhf_codec:
  codec hfvhf_encode "\<lambda>w. Option.bind w hfvhf_parse" "\<lambda>m. ret (Some m)" hfvhf_wf
  by unfold_locales (simp_all add: hfvhf_encode_eq hfvhf_parse_frame)

text \<open>A message with no or one sample is encoded but its frame is rejected by the parser.\<close>

lemma hfvhf_short_lost: "\<not> hfvhf_wf m \<Longrightarrow> Option.bind (hfvhf_encode m) hfvhf_parse = ret None"
  by (simp add: hfvhf_encode_eq hfvhf_parse_def hfvhf_frame_def hfvhf_wf_def)

lemma set_resample_loop: "set (resample_loop F ratio ss is) \<subseteq> set ss"
  by (induction "is") (auto simp: Let_def)

lemma length_resample_loop: "length (resample_loop F ratio ss is) \<le> length is"
  by (induction "is") (auto simp: Let_def)

section \<open>Properties\<close>

text \<open>
  Encoding a radio message never panics and writes frequency, modulation and the samples;
  a message with at least two samples is read back unchanged from it, and two such messages
  with the same encoding are equal.
\<close>

lemma hfvhf_roundtrip:
  assumes "hfvhf_wf m" and "hfvhf_wf m'"
  shows "hfvhf_encode m = ret (hfvhf_frame m) \<and> hfvhf_parse (hfvhf_frame m) = ret (Some m) \<and>
         (hfvhf_encode m = hfvhf_encode m' \<longleftrightarrow> m = m')"
  using assms hfvhf_codec.enc_injective hfvhf_parse_frame hfvhf_encode_eq by blast

text \<open>
  Resampling, whatever the rounding of the arithmetic, keeps frequency and modulation,
  invents no sample, and returns at most the computed number of samples.
\<close>

lemma resample_sound:
  "h_frequency_khz (resample F m t r) = h_frequency_khz m \<and>
   h_modulation (resample F m t r) = h_modulation m \<and>
   set (h_audio_samples (resample F m t r)) \<subseteq> set (h_audio_samples m) \<and>
   length (h_audio_samples (resample F m t r)) \<le>
     f_to_nat F (f_mul F (f_of_nat F (length (h_audio_samples m)))
                         (f_div F (f_of_nat F (unat t)) (f_of_nat F (unat r))))"
  using set_resample_loop [of F] length_resample_loop [of F _ _ "[0..<n]" for n]
  by (simp add: resample_def Let_def)

end
