(* ===== verification/SamsaraMsg.thy ===== *)
theory SamsaraMsg
  imports Codec
begin

text \<open>
  \<open>src/src/samsara.rs\<close>: Samsara fleet messages. Latitude and longitude are only copied, so
  they are the bit patterns of their \<open>f64\<close> values.
\<close>

record samsara_message =
  s_device_id :: string
  s_timestamp :: u64
  s_latitude :: f64_bits
  s_longitude :: f64_bits
  s_payload :: bytes

definition samsara_parse :: "bytes \<Rightarrow> samsara_message option exec" where
  "samsara_parse d =
     (if length d < 31 then ret None
      else do {
        version \<leftarrow> idx d 0;
        (if version \<noteq> 1 then ret None
         else do {
           n \<leftarrow> u16_at d 1;
           let device_id_len = unat n;
           let header_size = 3 + device_id_len + 24;
           (if length d < header_size then ret None
            else do {
              idb \<leftarrow> slice d 3 (3 + device_id_len);
              (case from_utf8 idb of
                 None \<Rightarrow> ret None
               | Some device_id \<Rightarrow> do {
                   timestamp \<leftarrow> u64_at d (3 + device_id_len);
                   latitude \<leftarrow> u64_at d (3 + device_id_len + 8);
                   longitude \<leftarrow> u64_at d (3 + device_id_len + 16);
                   pl \<leftarrow> u32_at d (3 + device_id_len + 24);
                   let payload_len = unat pl;
                   let payload_start = 3 + device_id_len + 28;
                   (if length d < payload_start + payload_len then ret None
                    else do {
                      payload \<leftarrow> slice d payload_start (payload_start + payload_len);
                      ret (Some \<lparr>s_device_id = device_id, s_timestamp = timestamp,
                                 s_latitude = latitude, s_longitude = longitude,
                                 s_payload = payload\<rparr>) }) }) }) }) })"

definition samsara_encode :: "samsara_message \<Rightarrow> bytes" where
  "samsara_encode m =
     (let device_id_bytes = bytes_of (s_device_id m) in
      [1] @ u16_to_be (word_of_nat (length device_id_bytes)) @ device_id_bytes @
      u64_to_be (s_timestamp m) @ u64_to_be (s_latitude m) @ u64_to_be (s_longitude m) @
      u32_to_be (word_of_nat (length (s_payload m))) @ s_payload m)"

text \<open>The messages the format can carry.\<close>

definition samsara_wf :: "samsara_message \<Rightarrow> bool" where
  "samsara_wf m \<longleftrightarrow> utf8_valid (bytes_of (s_device_id m)) \<and> length (s_device_id m) < 2 ^ 16 \<and>
     length (s_payload m) < 2 ^ 32"

section \<open>Lemmas\<close>

lemma samsara_parse_encode:
  assumes "samsara_wf m"
  shows "samsara_parse (samsara_encode m) = ret (Some m)"
  using assms
  by (simp add: samsara_parse_def samsara_encode_def samsara_wf_def Let_def panic_simps from_utf8_bytes_of
      drop_Cons')

interpretation samsara_codec:
  codec samsara_encode samsara_parse "\<lambda>m. ret (Some m)" samsara_wf
  by unfold_locales (simp_all add: samsara_parse_encode)

section \<open>Properties\<close>

text \<open>
  C13. Round trip: a message whose identifier is valid UTF-8 and whose lengths fit their
  fields is read back unchanged from its encoding, and two such messages with the same
  encoding are equal.
\<close>

theorem samsara_roundtrip:
  assumes "samsara_wf m" and "samsara_wf m'"
  shows "samsara_parse (samsara_encode m) = ret (Some m) \<and>
         (samsara_encode m = samsara_encode m' \<longleftrightarrow> m = m')"
  using assms samsara_parse_encode samsara_codec.enc_injective by blast

theorem samsara_roundtrip_witness:
  "samsara_parse (samsara_encode \<lparr>s_device_id = ''dev-1'', s_timestamp = 12, s_latitude = 5,
     s_longitude = 6, s_payload = [1, 2]\<rparr>) =
   ret (Some \<lparr>s_device_id = ''dev-1'', s_timestamp = 12, s_latitude = 5, s_longitude = 6,
     s_payload = [1, 2]\<rparr>)"
proof -
  let ?m = "\<lparr>s_device_id = ''dev-1'', s_timestamp = 12, s_latitude = 5, s_longitude = 6,
     s_payload = [1, 2]\<rparr>"
  have "utf8_valid (bytes_of ''dev-1'')" by code_simp
  then show ?thesis using samsara_roundtrip [of ?m ?m] by (simp add: samsara_wf_def)
qed

text \<open>
  Parsing panics on exactly the version-1 frames, with a UTF-8 identifier, that hold
  the three 8-byte fields but end inside the 4-byte payload length: the guard on the header
  leaves that field out. On every other input it returns.
\<close>

lemma samsara_parse_panics_iff:
  "samsara_parse d = panic \<longleftrightarrow>
     31 \<le> length d \<and> d ! 0 = 1 \<and>
     (let n = unat (u16_from_be (take 2 (drop 1 d))) in
        3 + n + 24 \<le> length d \<and> length d < 3 + n + 28 \<and> utf8_valid (take n (drop 3 d)))"
proof (cases "31 \<le> length d \<and> d ! 0 = 1")
  case True
  let ?n = "unat (u16_from_be (take 2 (drop 1 d)))"
  from True have ne: "d \<noteq> []" by auto
  have h: "u16_at d 1 = ret (u16_from_be (take 2 (drop 1 d)))" using True by (simp add: panic_simps)
  show ?thesis
  proof (cases "3 + ?n + 24 \<le> length d \<and> utf8_valid (take ?n (drop 3 d))")
    case True': True
    have "u32_at d (3 + ?n + 24) = panic \<longleftrightarrow> length d < 3 + ?n + 28"
      by (auto simp: u32_at_def slice_def)
    then show ?thesis using True True' h ne
      by (cases "length d < 3 + ?n + 28")
        (simp_all add: samsara_parse_def panic_simps from_utf8_def Let_def)
  next
    case False
    then show ?thesis using True h ne
      by (auto simp: samsara_parse_def panic_simps from_utf8_def Let_def)
  qed
qed (auto simp: samsara_parse_def idx_def)

end
