(* ===== verification/Channels.thy ===== *)
theory Channels
  imports Prelude
begin

text \<open>
  The bounded channels of the \<open>crossbeam-channel\<close> crate, as a record of operations that
  the components using them take as an argument. The locale states the documented
  behaviour: a channel is a first-in first-out queue with a fixed capacity, sending to a
  full one and receiving from an empty one fail and change nothing. \<open>contents\<close> and
  \<open>capacity\<close> are the abstraction the laws speak about.
\<close>

record ('q, 'a) chan_ops =
  ch_bounded :: "nat \<Rightarrow> 'q"
  ch_try_send :: "'q \<Rightarrow> 'a \<Rightarrow> 'q option"
  ch_try_recv :: "'q \<Rightarrow> ('a \<times> 'q) option"
  ch_len :: "'q \<Rightarrow> nat"

text \<open>The reference channel: its capacity and the queued values, oldest first.\<close>

definition list_chan :: "(nat \<times> 'a list, 'a) chan_ops" where
  "list_chan = \<lparr>
     ch_bounded = (\<lambda>n. (n, [])),
     ch_try_send = (\<lambda>(n, xs) x. if length xs < n then Some (n, xs @ [x]) else None),
     ch_try_recv = (\<lambda>(n, xs). case xs of [] \<Rightarrow> None | x # ys \<Rightarrow> Some (x, (n, ys))),
     ch_len = (\<lambda>(n, xs). length xs)\<rparr>"

text \<open>Sending a list of values one after the other, giving up at the first failure.\<close>

fun send_all :: "('q, 'a) chan_ops \<Rightarrow> 'q \<Rightarrow> 'a list \<Rightarrow> 'q option" where
  "send_all C q [] = Some q"
| "send_all C q (x # xs) = do { q \<leftarrow> ch_try_send C q x; send_all C q xs }"

text \<open>Receiving at most \<open>n\<close> values.\<close>

fun recv_upto :: "('q, 'a) chan_ops \<Rightarrow> nat \<Rightarrow> 'q \<Rightarrow> 'a list \<times> 'q" where
  "recv_upto C 0 q = ([], q)"
| "recv_upto C (Suc n) q =
     (case ch_try_recv C q of
        None \<Rightarrow> ([], q)
      | Some (x, q) \<Rightarrow> (case recv_upto C n q of (xs, q) \<Rightarrow> (x # xs, q)))"

text \<open>
  The loop \<open>while let Ok(msg) = rx.try_recv()\<close>; \<open>None\<close> would be a loop that does not end.
\<close>

partial_function (option) drain_all :: "('q, 'a) chan_ops \<Rightarrow> 'q \<Rightarrow> ('a list \<times> 'q) option" where
  "drain_all C q =
     (case ch_try_recv C q of
        None \<Rightarrow> Some ([], q)
      | Some (x, q) \<Rightarrow> Option.bind (drain_all C q) (\<lambda>(xs, q). Some (x # xs, q)))"

declare drain_all.simps [code]

locale bounded_channel =
  fixes C :: "('q, 'a) chan_ops" and contents :: "'q \<Rightarrow> 'a list" and capacity :: "'q \<Rightarrow> nat"
  assumes bounded: "contents (ch_bounded C n) = []" "capacity (ch_bounded C n) = n"
    and send_full: "capacity q \<le> length (contents q) \<Longrightarrow> ch_try_send C q x = None"
    and send_ok: "length (contents q) < capacity q \<Longrightarrow>
      \<exists>q'. ch_try_send C q x = Some q' \<and> contents q' = contents q @ [x] \<and> capacity q' = capacity q"
    and recv_empty: "contents q = [] \<Longrightarrow> ch_try_recv C q = None"
    and recv_ok: "contents q = x # xs \<Longrightarrow>
      \<exists>q'. ch_try_recv C q = Some (x, q') \<and> contents q' = xs \<and> capacity q' = capacity q"
    and len: "ch_len C q = length (contents q)"
begin

lemma send_iff:
  "ch_try_send C q x = Some q' \<Longrightarrow>
   length (contents q) < capacity q \<and> contents q' = contents q @ [x] \<and> capacity q' = capacity q"
  using send_ok [of q x] send_full [of q x] by (cases "length (contents q) < capacity q") auto

lemma send_None_iff: "ch_try_send C q x = None \<longleftrightarrow> capacity q \<le> length (contents q)"
  using send_ok [of q x] send_full [of q x] by (cases "length (contents q) < capacity q") auto

lemma recv_iff:
  "ch_try_recv C q = Some (x, q') \<Longrightarrow> contents q = x # contents q' \<and> capacity q' = capacity q"
  using recv_empty [of q] recv_ok [of q "hd (contents q)" "tl (contents q)"]
  by (cases "contents q") auto

lemma recv_None_iff: "ch_try_recv C q = None \<longleftrightarrow> contents q = []"
  using recv_empty [of q] recv_ok [of q "hd (contents q)" "tl (contents q)"]
  by (cases "contents q") auto

lemma send_all_ok:
  "length (contents q) + length xs \<le> capacity q \<Longrightarrow>
   \<exists>q'. send_all C q xs = Some q' \<and> contents q' = contents q @ xs \<and> capacity q' = capacity q"
proof (induction xs arbitrary: q)
  case (Cons x xs)
  then have "length (contents q) < capacity q" by simp
  then obtain q1 where q1: "ch_try_send C q x = Some q1" "contents q1 = contents q @ [x]"
    "capacity q1 = capacity q" using send_ok by blast
  with Cons.IH [of q1] Cons.prems show ?case by auto
qed simp

lemma drain_all_terminates:
  "\<exists>q'. drain_all C q = Some (contents q, q') \<and> contents q' = [] \<and> capacity q' = capacity q"
proof (induction "contents q" arbitrary: q)
  case Nil
  then show ?case using recv_empty [of q] by (subst drain_all.simps) simp
next
  case (Cons x xs)
  from Cons.hyps(2) obtain q1 where q1: "ch_try_recv C q = Some (x, q1)" "contents q1 = xs"
    "capacity q1 = capacity q" using recv_ok [of q x xs] by metis
  from Cons.hyps(1) [of q1] q1 obtain q' where "drain_all C q1 = Some (xs, q')" "contents q' = []"
    "capacity q' = capacity q" by metis
  with q1 Cons.hyps(2) show ?case by (subst drain_all.simps) auto
qed

lemma recv_upto_take:
  "recv_upto C n q = (xs, q') \<Longrightarrow>
   xs = take n (contents q) \<and> contents q' = drop n (contents q) \<and> capacity q' = capacity q"
proof (induction n arbitrary: q xs)
  case (Suc n)
  show ?case
  proof (cases "ch_try_recv C q")
    case None
    with Suc.prems show ?thesis by (auto simp: recv_None_iff)
  next
    case (Some r)
    obtain x q1 where r: "r = (x, q1)" by fastforce
    with Some have "contents q = x # contents q1" "capacity q1 = capacity q" using recv_iff by blast+
    with Suc.prems Some r show ?thesis by (auto split: prod.splits dest: Suc.IH)
  qed
qed simp

end

interpretation lc: bounded_channel list_chan snd fst
  by unfold_locales (auto simp: list_chan_def split: list.splits)

end
