(* ===== verification/Translator.thy ===== *)
theory Translator
  imports Asts Inmarsat Vsat Hfvhf SamsaraMsg Channels
begin

text \<open>
  \<open>src/src/translator.rs\<close>: the translation of every protocol into the AST SpaceMobile
  format, synchronous and asynchronous, the allocation-free Iridium path, the buffer pool
  and the pool of translators.
\<close>

section \<open>Protocol decoders\<close>

datatype translate_error = InvalidProtocol | DataTooLarge | CodecError | CompressionError

type_synonym 'a translation = "(translate_error + 'a) exec"

definition decode_iridium_sbd :: "bytes \<Rightarrow> bytes translation" where
  "decode_iridium_sbd d =
     (if length d < 3 then ret (Inl InvalidProtocol)
      else do {
        p \<leftarrow> idx d 0;
        l \<leftarrow> u16_at d 1;
        let len = unat l;
        (if len > 340 then ret (Inl InvalidProtocol)
         else if length d < 3 + len then ret (Inl InvalidProtocol)
         else do {
           payload \<leftarrow> slice d 3 (3 + len);
           ret (Inr ([p] @ payload)) }) })"

definition decode_inmarsat_c :: "ext \<Rightarrow> bytes \<Rightarrow> bytes translation" where
  "decode_inmarsat_c e d = do {
     r \<leftarrow> inmarsat_parse e d;
     (case r of
        Inl _ \<Rightarrow> ret (Inl InvalidProtocol)
      | Inr m \<Rightarrow> do { w \<leftarrow> inmarsat_encode e m; ret (Inr w) }) }"

definition compress_for_cellular :: "ext \<Rightarrow> bytes \<Rightarrow> bytes translation" where
  "compress_for_cellular e d = do {
     r \<leftarrow> vsat_parse d;
     try_bind (ret (ok_or r InvalidProtocol)) (\<lambda>m. do { w \<leftarrow> vsat_encode e m; ret (Inr w) }) }"

definition translate_audio :: "bytes \<Rightarrow> bytes translation" where
  "translate_audio d = do {
     r \<leftarrow> hfvhf_parse d;
     try_bind (ret (ok_or r InvalidProtocol))
       (\<lambda>m. do { w \<leftarrow> codec_translate_to_digital m; ret (Inr w) }) }"

definition decode_rockblock :: "bytes \<Rightarrow> bytes translation" where
  "decode_rockblock d = decode_iridium_sbd d"

text \<open>The nom parsers in the order of the \<open>tuple\<close> calls.\<close>

definition samsara_nom_header :: "ext \<Rightarrow> bytes \<Rightarrow> (bytes \<times> u8 \<times> u16) option" where
  "samsara_nom_header e i = do {
     (i, version) \<leftarrow> x_be_u8 e i;
     (i, n) \<leftarrow> x_be_u16 e i;
     Some (i, version, n) }"

definition samsara_nom_body :: "ext \<Rightarrow> bytes \<Rightarrow> (bytes \<times> u64 \<times> f64_bits \<times> f64_bits \<times> u32) option" where
  "samsara_nom_body e i = do {
     (i, ts) \<leftarrow> x_be_u64 e i;
     (i, lat) \<leftarrow> x_be_f64 e i;
     (i, lon) \<leftarrow> x_be_f64 e i;
     (i, n) \<leftarrow> x_be_u32 e i;
     Some (i, ts, lat, lon, n) }"

definition decode_samsara :: "ext \<Rightarrow> bytes \<Rightarrow> bytes translation" where
  "decode_samsara e d =
     try_bind (ret (ok_or (samsara_nom_header e d) InvalidProtocol)) (\<lambda>(rest, version, n).
     if version \<noteq> 1 then ret (Inl InvalidProtocol)
     else let actual_device_id_len = unat n in
     if actual_device_id_len > 1024 then ret (Inl InvalidProtocol)
     else try_bind (ret (ok_or (x_take e actual_device_id_len rest) InvalidProtocol)) (\<lambda>(rest, idb).
     try_bind (ret (ok_or (samsara_nom_body e rest) InvalidProtocol)) (\<lambda>(rest, ts, lat, lon, pl).
     try_bind (ret (ok_or (from_utf8 idb) InvalidProtocol)) (\<lambda>device_id.
     let actual_payload_len = unat pl in
     if length rest < actual_payload_len then ret (Inl InvalidProtocol)
     else do {
       payload \<leftarrow> slice rest 0 actual_payload_len;
       ret (Inr ([0x07] @ bytes_of device_id @ u64_to_be ts @ u64_to_be lat @ u64_to_be lon @ payload)) }))))"

section \<open>Translation\<close>

definition translate_sync :: "ext \<Rightarrow> u64 \<Rightarrow> message \<Rightarrow> message translation" where
  "translate_sync e now m =
     try_bind
       (case m_protocol m of
          IridiumSBD \<Rightarrow> decode_iridium_sbd (m_data m)
        | InmarsatC \<Rightarrow> decode_inmarsat_c e (m_data m)
        | VSAT \<Rightarrow> compress_for_cellular e (m_data m)
        | HFVHF \<Rightarrow> translate_audio (m_data m)
        | RockBLOCK \<Rightarrow> decode_rockblock (m_data m)
        | Samsara \<Rightarrow> decode_samsara e (m_data m)
        | NIDD \<Rightarrow> ret (Inr (m_data m))
        | ASTSpaceMobile \<Rightarrow> ret (Inr (m_data m))
        | LoRaMesh \<Rightarrow> ret (Inr (m_data m)))
       (\<lambda>d. let t = message_new now ASTSpaceMobile d (m_priority m)
            in ret (Inr (t\<lparr>m_t_event := m_t_event m, m_t_system := m_t_system m\<rparr>)))"

text \<open>The asynchronous pipeline: one handler per protocol.\<close>

definition translate_with :: "u64 \<Rightarrow> bytes translation \<Rightarrow> message \<Rightarrow> message translation" where
  "translate_with now decoded m =
     try_bind decoded (\<lambda>d. ret (Inr (message_new now ASTSpaceMobile d (m_priority m))))"

definition translate_iridium :: "u64 \<Rightarrow> message \<Rightarrow> message translation" where
  "translate_iridium now m = translate_with now (decode_iridium_sbd (m_data m)) m"

definition translate_inmarsat :: "ext \<Rightarrow> u64 \<Rightarrow> message \<Rightarrow> message translation" where
  "translate_inmarsat e now m = translate_with now (decode_inmarsat_c e (m_data m)) m"

definition translate_vsat :: "ext \<Rightarrow> u64 \<Rightarrow> message \<Rightarrow> message translation" where
  "translate_vsat e now m = translate_with now (compress_for_cellular e (m_data m)) m"

definition translate_hfvhf :: "u64 \<Rightarrow> message \<Rightarrow> message translation" where
  "translate_hfvhf now m = translate_with now (translate_audio (m_data m)) m"

definition translate_rockblock :: "u64 \<Rightarrow> message \<Rightarrow> message translation" where
  "translate_rockblock now m = translate_with now (decode_rockblock (m_data m)) m"

definition translate_samsara :: "ext \<Rightarrow> u64 \<Rightarrow> message \<Rightarrow> message translation" where
  "translate_samsara e now m = translate_with now (decode_samsara e (m_data m)) m"

definition translate_message :: "ext \<Rightarrow> u64 \<Rightarrow> message \<Rightarrow> message translation" where
  "translate_message e now m =
     (case m_protocol m of
        IridiumSBD \<Rightarrow> translate_iridium now m
      | InmarsatC \<Rightarrow> translate_inmarsat e now m
      | VSAT \<Rightarrow> translate_vsat e now m
      | HFVHF \<Rightarrow> translate_hfvhf now m
      | RockBLOCK \<Rightarrow> translate_rockblock now m
      | Samsara \<Rightarrow> translate_samsara e now m
      | NIDD \<Rightarrow> ret (Inr m)
      | ASTSpaceMobile \<Rightarrow> ret (Inr m)
      | LoRaMesh \<Rightarrow> ret (Inr m))"

text \<open>
  The task spawned by \<open>Translator::new\<close>: it takes messages from the input channel, each with
  the clock at its translation, and sends on the ones that translate.
\<close>

fun translate_task :: "ext \<Rightarrow> (u64 \<times> message) list \<Rightarrow> message list exec" where
  "translate_task e [] = ret []"
| "translate_task e ((now, m) # ms) = do {
     r \<leftarrow> translate_message e now m;
     rest \<leftarrow> translate_task e ms;
     ret (case r of Inl _ \<Rightarrow> rest | Inr t \<Rightarrow> t # rest) }"

section \<open>The Iridium hot path\<close>

definition translate_iridium_to_asts_sync ::
    "u32 \<Rightarrow> bytes \<Rightarrow> bytes \<Rightarrow> ((translate_error + nat) \<times> bytes \<times> u32) exec" where
  "translate_iridium_to_asts_sync sq d out = do {
     r \<leftarrow> iridium_parse d;
     (case r of
        None \<Rightarrow> ret (Inl InvalidProtocol, out, sq)
      | Some m \<Rightarrow> do {
          (n, out, sq) \<leftarrow> asts_translate sq m out;
          ret (ok_or n DataTooLarge, out, sq) }) }"

definition translate_iridium_to_asts_hot_path ::
    "u32 \<Rightarrow> bytes \<Rightarrow> bytes \<Rightarrow> ((translate_error + nat) \<times> bytes \<times> u32) exec" where
  "translate_iridium_to_asts_hot_path sq d out = do {
     r \<leftarrow> iridium_parse d;
     (case r of
        None \<Rightarrow> ret (Inl InvalidProtocol, out, sq)
      | Some m \<Rightarrow> do {
          (n, out, sq) \<leftarrow> asts_translate sq m out;
          ret (ok_or n DataTooLarge, out, sq) }) }"

section \<open>Buffer pool\<close>

record buffer_pool =
  bp_buffers :: "bytes list"
  bp_next_index :: u64

definition buffer_pool_new :: "nat \<Rightarrow> buffer_pool" where
  "buffer_pool_new n = \<lparr>bp_buffers = replicate n (replicate 2048 0), bp_next_index = 0\<rparr>"

text \<open>A returned \<open>&mut [u8; 2048]\<close> is the position of the buffer in the pool.\<close>

definition get_buffer :: "buffer_pool \<Rightarrow> (nat \<times> buffer_pool) exec" where
  "get_buffer p =
     (if bp_buffers p = [] then panic
      else let index = unat (bp_next_index p) mod length (bp_buffers p)
           in ret (index, p\<lparr>bp_next_index := bp_next_index p + 1\<rparr>))"

definition get_buffer_at :: "buffer_pool \<Rightarrow> nat \<Rightarrow> nat exec" where
  "get_buffer_at p index =
     (if bp_buffers p = [] then panic else ret (index mod length (bp_buffers p)))"

fun get_buffers :: "nat \<Rightarrow> buffer_pool \<Rightarrow> (nat list \<times> buffer_pool) exec" where
  "get_buffers 0 p = ret ([], p)"
| "get_buffers (Suc n) p = do {
     (i, p) \<leftarrow> get_buffer p;
     (is, p) \<leftarrow> get_buffers n p;
     ret (i # is, p) }"

section \<open>Translator pool\<close>

text \<open>A translator is known by the buffer size it was created with; the rest is channel ends.\<close>

record translator =
  t_buffer_size :: nat

definition new_without_task :: "nat \<Rightarrow> translator" where
  "new_without_task n = \<lparr>t_buffer_size = n\<rparr>"

type_synonym 'q translator_pool = "(protocol \<times> 'q) list"

definition pooled_protocols :: "protocol list" where
  "pooled_protocols = [IridiumSBD, InmarsatC, VSAT, HFVHF, RockBLOCK, Samsara]"

text \<open>\<open>None\<close>: the loop blocks in \<open>send\<close>, which a channel of \<open>pool_size\<close> slots excludes.\<close>

fun translator_pool_build ::
    "('q, translator) chan_ops \<Rightarrow> nat \<Rightarrow> protocol list \<Rightarrow> 'q translator_pool \<Rightarrow> 'q translator_pool option" where
  "translator_pool_build C n [] pools = Some pools"
| "translator_pool_build C n (p # ps) pools = do {
     q \<leftarrow> send_all C (ch_bounded C n) (replicate n (new_without_task 100));
     translator_pool_build C n ps (hm_insert p q pools) }"

definition translator_pool_new :: "('q, translator) chan_ops \<Rightarrow> nat \<Rightarrow> 'q translator_pool option" where
  "translator_pool_new C n = translator_pool_build C n pooled_protocols []"

definition pool_borrow ::
    "('q, translator) chan_ops \<Rightarrow> 'q translator_pool \<Rightarrow> protocol \<Rightarrow> translator option \<times> 'q translator_pool" where
  "pool_borrow C pools p =
     (case map_of pools p of
        None \<Rightarrow> (None, pools)
      | Some q \<Rightarrow> (case ch_try_recv C q of
          None \<Rightarrow> (None, pools)
        | Some (t, q) \<Rightarrow> (Some t, hm_insert p q pools)))"

definition return_translator ::
    "('q, translator) chan_ops \<Rightarrow> 'q translator_pool \<Rightarrow> protocol \<Rightarrow> translator \<Rightarrow> 'q translator_pool" where
  "return_translator C pools p t =
     (case map_of pools p of
        None \<Rightarrow> pools
      | Some q \<Rightarrow> (case ch_try_send C q t of None \<Rightarrow> pools | Some q \<Rightarrow> hm_insert p q pools))"

text \<open>
  The use of the pool by the workers: a state is the pool and the number of translators
  borrowed per protocol; a worker returns only what it borrowed.
\<close>

inductive pool_step ::
    "('q, translator) chan_ops \<Rightarrow> 'q translator_pool \<times> (protocol \<Rightarrow> nat) \<Rightarrow>
     'q translator_pool \<times> (protocol \<Rightarrow> nat) \<Rightarrow> bool"
  for C :: "('q, translator) chan_ops" where
  borrow: "pool_borrow C pools p = (Some t, pools') \<Longrightarrow>
     pool_step C (pools, lent) (pools', lent(p := lent p + 1))"
| borrow_none: "pool_borrow C pools p = (None, pools') \<Longrightarrow> pool_step C (pools, lent) (pools', lent)"
| return: "0 < lent p \<Longrightarrow>
     pool_step C (pools, lent) (return_translator C pools p t, lent(p := lent p - 1))"

section \<open>Reference translation\<close>

text \<open>
  What the translation of each protocol produces, as a function of the bytes alone:
  \<open>None\<close> when the input is rejected.
\<close>

definition inmarsat_valid :: "ext \<Rightarrow> bytes \<Rightarrow> bool" where
  "inmarsat_valid e d \<longleftrightarrow> 16 \<le> length d \<and> u32_from_be (take 4 d) = inmarsat_magic \<and>
     x_crc16 e (take (length d - 2) d) = u16_from_be (drop (length d - 2) d)"

definition reframe_inmarsat :: "ext \<Rightarrow> bytes \<Rightarrow> bytes" where
  "reframe_inmarsat e d = (let b = take (min 128 (length d - 2)) d in b @ u16_to_be (x_crc16 e b))"

definition samsara_cellular :: "bytes \<Rightarrow> bytes option" where
  "samsara_cellular d =
     (let n = unat (u16_from_be (take 2 (drop 1 d)));
          pl = unat (u32_from_be (take 4 (drop (n + 27) d)))
      in if 31 + n \<le> length d \<and> d ! 0 = 1 \<and> n \<le> 1024 \<and> utf8_valid (take n (drop 3 d)) \<and>
            31 + n + pl \<le> length d
         then Some ([0x07] @ take n (drop 3 d) @ take 24 (drop (n + 3) d) @ take pl (drop (n + 31) d))
         else None)"

definition translated_bytes :: "ext \<Rightarrow> protocol \<Rightarrow> bytes \<Rightarrow> bytes option" where
  "translated_bytes e p d =
     (case p of
        IridiumSBD \<Rightarrow> (if iridium_frame_ok d then Some (d ! 0 # take (iridium_declared_len d) (drop 3 d)) else None)
      | RockBLOCK \<Rightarrow> (if iridium_frame_ok d then Some (d ! 0 # take (iridium_declared_len d) (drop 3 d)) else None)
      | InmarsatC \<Rightarrow> (if inmarsat_valid e d then Some (reframe_inmarsat e d) else None)
      | VSAT \<Rightarrow> (if 16 \<le> length d then Some (case x_zstd_encode e d 3 of Some c \<Rightarrow> c | None \<Rightarrow> d) else None)
      | HFVHF \<Rightarrow> (if 8 \<le> length d \<and> modulation_of_byte (d ! 4) \<noteq> None
                  then Some (take (5 + 2 * ((length d - 5) div 2)) d) else None)
      | Samsara \<Rightarrow> samsara_cellular d
      | _ \<Rightarrow> Some d)"

text \<open>The pool invariant: every translator is in its channel or borrowed.\<close>

definition slot_ok :: "('q \<Rightarrow> translator list) \<Rightarrow> ('q \<Rightarrow> nat) \<Rightarrow> nat \<Rightarrow> protocol \<Rightarrow> 'q option \<Rightarrow> nat \<Rightarrow> bool" where
  "slot_ok cont cap n p slot lent =
     (case slot of
        None \<Rightarrow> p \<notin> set pooled_protocols \<and> lent = 0
      | Some q \<Rightarrow> cap q = n \<and> length (cont q) + lent = n)"

fun pool_inv ::
    "('q \<Rightarrow> translator list) \<Rightarrow> ('q \<Rightarrow> nat) \<Rightarrow> nat \<Rightarrow> 'q translator_pool \<times> (protocol \<Rightarrow> nat) \<Rightarrow> bool" where
  "pool_inv cont cap n (pools, lent) \<longleftrightarrow> (\<forall>p. slot_ok cont cap n p (map_of pools p) (lent p))"

section \<open>Lemmas\<close>

lemma take_2_drop_1: "3 \<le> length d \<Longrightarrow> take 2 (drop 1 d) = [d ! 1, d ! 2]"
  by (rule nth_equalityI) (auto simp: nth_Cons numeral_2_eq_2 less_Suc_eq split: nat.splits)

lemma decode_iridium_eq:
  "decode_iridium_sbd d = ret (ok_or (translated_bytes e IridiumSBD d) InvalidProtocol)"
proof (cases "length d < 3")
  case False
  then have "d \<noteq> []" by auto
  moreover have "unat (u16_from_be (take 2 (drop 1 d))) = iridium_declared_len d"
    using False by (simp add: iridium_declared_len_def take_2_drop_1 del: One_nat_def)
  ultimately show ?thesis
    using False
    by (simp add: decode_iridium_sbd_def translated_bytes_def iridium_frame_ok_def panic_simps Let_def)
qed (simp add: decode_iridium_sbd_def translated_bytes_def iridium_frame_ok_def)

lemma inmarsat_reencode:
  assumes "hex_decode_law e" and "14 \<le> length b" and "u32_from_be (take 4 b) = inmarsat_magic"
  shows "inmarsat_encode e \<lparr>in_message_number = u16_from_be (take 2 (drop 4 b)),
     in_destination_id = hex_text (take 4 (drop 6 b)), in_source_id = hex_text (take 4 (drop 10 b)),
     in_payload = drop 14 b\<rparr> = ret (take 128 b @ u16_to_be (x_crc16 e (take 128 b)))"
proof -
  have "u32_to_be (u32_from_be (take 4 b)) = take 4 b"
    by (rule to_from_be32) (use assms(2) in simp)
  then have m: "u32_to_be inmarsat_magic = take 4 b" by (simp only: assms(3))
  have "take 128 b = take 4 b @ take 2 (drop 4 b) @ take 4 (drop 6 b) @ take 4 (drop 10 b) @ take 114 (drop 14 b)"
    using take_add [of 4 124 b] take_add [of 2 122 "drop 4 b"] take_add [of 4 118 "drop 6 b"]
      take_add [of 4 114 "drop 10 b"] by simp
  then show ?thesis
    using assms(1,2) m
    by (subst inmarsat_encode_eq [where ds = "take 4 (drop 6 b)" and ss = "take 4 (drop 10 b)"])
      (simp_all add: hex_decode_law_def inmarsat_body_def)
qed

lemma decode_inmarsat_eq:
  assumes "hex_decode_law e"
  shows "decode_inmarsat_c e d = ret (ok_or (translated_bytes e InmarsatC d) InvalidProtocol)"
proof (cases "inmarsat_valid e d")
  case True
  let ?b = "take (length d - 2) d"
  from True have len: "14 \<le> length ?b" and mg: "u32_from_be (take 4 ?b) = inmarsat_magic"
    by (auto simp: inmarsat_valid_def min_def)
  have "inmarsat_parse e d = inmarsat_parse_inner e ?b"
  proof -
    from True have "\<not> length d < 16" "u32_from_be (take 4 d) = inmarsat_magic"
      "x_crc16 e ?b = u16_from_be (drop (length d - 2) d)" by (simp_all add: inmarsat_valid_def)
    then show ?thesis
      by (simp add: inmarsat_parse_def panic_simps Let_def inmarsat_compute_checksum_def)
  qed
  then show ?thesis
    using True inmarsat_reencode [OF assms len mg] len
    by (simp add: decode_inmarsat_c_def inmarsat_parse_inner_eq [OF assms] translated_bytes_def
        reframe_inmarsat_def min.commute Let_def del: length_take)
next
  case False
  have "\<exists>err. inmarsat_parse e d = ret (Inl err)"
    using False by (auto simp: inmarsat_parse_def inmarsat_valid_def panic_simps Let_def
        inmarsat_compute_checksum_def)
  with False show ?thesis by (auto simp: decode_inmarsat_c_def translated_bytes_def)
qed

lemma compress_eq:
  "compress_for_cellular e d = ret (ok_or (translated_bytes e VSAT d) InvalidProtocol)"
proof (cases "length d < 16")
  case False
  let ?m = "\<lparr>v_packet_id = u32_from_be (take 4 d), v_source_ip = take 4 (drop 4 d),
     v_dest_ip = take 4 (drop 8 d), v_payload = drop 12 d\<rparr>"
  have "vsat_parse d = ret (Some ?m)" using False by (simp add: vsat_parse_def panic_simps)
  moreover have "vsat_body ?m = d"
    using False append_take_drop_id [of 4 d] append_take_drop_id [of 4 "drop 4 d"]
      append_take_drop_id [of 4 "drop 8 d"] by (simp add: vsat_body_def)
  moreover have "vsat_encode e ?m = ret (case x_zstd_encode e (vsat_body ?m) 3 of Some c \<Rightarrow> c | None \<Rightarrow> vsat_body ?m)"
    using False by (intro vsat_encode_eq) simp_all
  ultimately show ?thesis
    using False by (simp add: compress_for_cellular_def translated_bytes_def split: option.splits)
qed (simp add: compress_for_cellular_def translated_bytes_def vsat_parse_def)

lemma rewritten_samples:
  "concat (map u16_to_le (parse_samples r)) = take (2 * (length r div 2)) r"
  by (induction r rule: parse_samples.induct) simp_all

lemma translate_audio_eq:
  "translate_audio d = ret (ok_or (translated_bytes e HFVHF d) InvalidProtocol)"
proof (cases "8 \<le> length d \<and> modulation_of_byte (d ! 4) \<noteq> None")
  case True
  then obtain md where md: "modulation_of_byte (d ! 4) = Some md" by auto
  then have mb: "modulation_byte md = d ! 4" by (auto simp: modulation_of_byte_def split: if_splits)
  let ?m = "\<lparr>h_frequency_khz = u32_from_be (take 4 d), h_modulation = md,
     h_audio_samples = parse_samples (drop 5 d)\<rparr>"
  have "hfvhf_parse d = ret (Some ?m)" using True md by (simp add: hfvhf_parse_def panic_simps)
  moreover have "hfvhf_frame ?m = take 5 d @ take (2 * (length (drop 5 d) div 2)) (drop 5 d)"
  proof -
    have "take 5 d = take 4 d @ [d ! 4]" using True take_Suc_conv_app_nth [of 4 d] by simp
    then show ?thesis using True mb by (simp add: hfvhf_frame_def rewritten_samples)
  qed
  ultimately show ?thesis
    using True by (simp add: translate_audio_def codec_translate_to_digital_def hfvhf_encode_eq
        translated_bytes_def take_add)
next
  case False
  then have "hfvhf_parse d = ret None" by (auto simp: hfvhf_parse_def panic_simps)
  with False show ?thesis by (auto simp: translate_audio_def translated_bytes_def)
qed

lemma samsara_nom_header_eq:
  assumes "nom_law e"
  shows "samsara_nom_header e d =
    (if length d < 3 then None else Some (drop 3 d, d ! 0, u16_from_be (take 2 (drop 1 d))))"
proof (cases d)
  case (Cons b r)
  then show ?thesis using assms by (auto simp: samsara_nom_header_def nom_law_def)
qed (use assms in \<open>simp add: samsara_nom_header_def nom_law_def\<close>)

lemma samsara_nom_body_eq:
  assumes "nom_law e"
  shows "samsara_nom_body e r =
    (if length r < 28 then None
     else Some (drop 28 r, u64_from_be (take 8 r), u64_from_be (take 8 (drop 8 r)),
                u64_from_be (take 8 (drop 16 r)), u32_from_be (take 4 (drop 24 r))))"
proof -
  have *: "x_be_u64 e = (\<lambda>i. if length i < 8 then None else Some (drop 8 i, u64_from_be (take 8 i)))"
    "x_be_f64 e = (\<lambda>i. if length i < 8 then None else Some (drop 8 i, u64_from_be (take 8 i)))"
    "x_be_u32 e = (\<lambda>i. if length i < 4 then None else Some (drop 4 i, u32_from_be (take 4 i)))"
    using assms by (auto simp: nom_law_def)
  show ?thesis
    by (cases "length r < 28") (auto simp: samsara_nom_body_def *)
qed

lemma take_24_fields: 
  assumes "24 \<le> length r"
  shows "u64_to_be (u64_from_be (take 8 r)) @ u64_to_be (u64_from_be (take 8 (drop 8 r))) @
   u64_to_be (u64_from_be (take 8 (drop 16 r))) = take 24 r"
  using assms take_add [of 8 16 r] take_add [of 8 8 "drop 8 r"] by simp

lemma decode_samsara_eq:
  assumes "nom_law e"
  shows "decode_samsara e d = ret (ok_or (translated_bytes e Samsara d) InvalidProtocol)"
proof (cases "length d < 3")
  case False
  let ?n = "unat (u16_from_be (take 2 (drop 1 d)))"
  let ?r = "drop (?n + 3) d"
  have tk: "x_take e k i = (if length i < k then None else Some (drop k i, take k i))" for k i
    using assms by (simp add: nom_law_def)
  note head = samsara_nom_header_eq [OF assms]
  note body = samsara_nom_body_eq [OF assms]
  define n where "n = ?n"
  define pl where "pl = unat (u32_from_be (take 4 (drop (n + 27) d)))"
  show ?thesis
  proof (cases "d ! 0 = 1 \<and> n \<le> 1024 \<and> 31 + n \<le> length d \<and> utf8_valid (take n (drop 3 d))")
    case True
    then have ar: "\<not> length d - 3 < n" "\<not> length d - (n + 3) < 28" "24 \<le> length d - (n + 3)"
      "length d - (n + 31) < pl \<longleftrightarrow> \<not> n + (pl + 31) \<le> length d" by auto
    have "u64_to_be (u64_from_be (take 8 (drop (n + 3) d))) @ u64_to_be (u64_from_be (take 8 (drop (n + 11) d))) @
        u64_to_be (u64_from_be (take 8 (drop (n + 19) d))) = take 24 (drop (n + 3) d)"
      using take_24_fields [of "drop (n + 3) d"] ar(3) by (simp add: add.commute)
    with True False ar show ?thesis
      unfolding decode_samsara_def translated_bytes_def samsara_cellular_def head Let_def
      by (simp add: body tk from_utf8_def slice_ok add.commute n_def [symmetric, simplified]
          pl_def [symmetric] add.assoc)
  next
    case ko: False
    then have "31 + n \<le> length d \<Longrightarrow> \<not> length d - 3 < n \<and> \<not> length d - (n + 3) < 28"
      and "\<not> 31 + n \<le> length d \<Longrightarrow> length d - 3 < n \<or> length d - (n + 3) < 28" by auto
    with ko False show ?thesis
      unfolding decode_samsara_def translated_bytes_def samsara_cellular_def head Let_def
      by (auto simp: body tk from_utf8_def n_def [symmetric, simplified] add.commute)
  qed
qed (use assms in \<open>simp add: decode_samsara_def samsara_nom_header_eq translated_bytes_def samsara_cellular_def Let_def\<close>)

lemma translate_sync_eq:
  assumes "hex_decode_law e" and "nom_law e"
  shows "translate_sync e now m = ret
    (case translated_bytes e (m_protocol m) (m_data m) of
       None \<Rightarrow> Inl InvalidProtocol
     | Some d \<Rightarrow> Inr \<lparr>m_protocol = ASTSpaceMobile, m_data = take 120000000 d, m_priority = m_priority m,
                     m_timestamp = now, m_t_event = m_t_event m, m_t_system = m_t_system m\<rparr>)"
proof -
  have "(case m_protocol m of
          IridiumSBD \<Rightarrow> decode_iridium_sbd (m_data m)
        | InmarsatC \<Rightarrow> decode_inmarsat_c e (m_data m)
        | VSAT \<Rightarrow> compress_for_cellular e (m_data m)
        | HFVHF \<Rightarrow> translate_audio (m_data m)
        | RockBLOCK \<Rightarrow> decode_rockblock (m_data m)
        | Samsara \<Rightarrow> decode_samsara e (m_data m)
        | NIDD \<Rightarrow> ret (Inr (m_data m))
        | ASTSpaceMobile \<Rightarrow> ret (Inr (m_data m))
        | LoRaMesh \<Rightarrow> ret (Inr (m_data m))) =
      ret (ok_or (translated_bytes e (m_protocol m) (m_data m)) InvalidProtocol)"
    using decode_inmarsat_eq [OF assms(1)] decode_samsara_eq [OF assms(2)]
      decode_iridium_eq [of _ e] compress_eq [of e] translate_audio_eq [of _ e]
    by (cases "m_protocol m") (simp_all add: decode_rockblock_def translated_bytes_def)
  then show ?thesis
    unfolding translate_sync_def
    by (simp add: message_new_def Let_def ok_or_def split: option.splits)
qed

lemma translate_message_eq:
  assumes "hex_decode_law e" and "nom_law e"
    and "m_protocol m \<notin> {NIDD, ASTSpaceMobile, LoRaMesh}"
  shows "translate_message e now m = ret
    (case translated_bytes e (m_protocol m) (m_data m) of
       None \<Rightarrow> Inl InvalidProtocol
     | Some d \<Rightarrow> Inr (message_new now ASTSpaceMobile d (m_priority m)))"
  using assms(3) decode_inmarsat_eq [OF assms(1)] decode_samsara_eq [OF assms(2)]
    decode_iridium_eq [of _ e] compress_eq [of e] translate_audio_eq [of _ e]
  by (cases "m_protocol m")
    (simp_all add: translate_message_def translate_iridium_def translate_inmarsat_def translate_vsat_def
      translate_hfvhf_def translate_rockblock_def translate_samsara_def translate_with_def
      decode_rockblock_def translated_bytes_def ok_or_def split: option.splits)

lemma hot_path_eq:
  "translate_iridium_to_asts_hot_path sq d out = ret
     (if \<not> iridium_frame_ok d then (Inl InvalidProtocol, out, sq)
      else let p = take (iridium_declared_len d) (drop 3 d) in
        if length out < 7 + length p then (Inl DataTooLarge, out, sq + 1)
        else (Inr (7 + length p), asts_frame 1 sq p @ drop (7 + length p) out, sq + 1))"
proof (cases "iridium_frame_ok d")
  case True
  have wf: "iridium_wf (iridium_image d)" by (rule iridium_image_wf [OF True])
  have "iridium_payload (iridium_image d) = take (iridium_declared_len d) (drop 3 d)"
    using iridium_image_payload [OF True] iridium_payload_slice_wf [OF wf] by simp
  with True wf show ?thesis
    by (simp add: translate_iridium_to_asts_hot_path_def iridium_parse_eq asts_translate_eq
        asts_translate_with_type_eq Let_def)
qed (simp add: translate_iridium_to_asts_hot_path_def iridium_parse_eq)

lemma get_buffers_eq:
  assumes "bp_buffers p \<noteq> []" and "unat (bp_next_index p) + n < 2 ^ 64"
  shows "\<exists>p'. get_buffers n p =
    ret (map (\<lambda>i. i mod length (bp_buffers p)) [unat (bp_next_index p)..<unat (bp_next_index p) + n], p')"
  using assms
proof (induction n arbitrary: p)
  case (Suc n)
  let ?q = "p\<lparr>bp_next_index := bp_next_index p + 1\<rparr>"
  have nx: "unat (bp_next_index p + 1) = unat (bp_next_index p) + 1"
    using Suc.prems(2) by (simp add: unat_word_ariths)
  obtain p' where "get_buffers n ?q = ret (map (\<lambda>i. i mod length (bp_buffers p))
      [unat (bp_next_index p) + 1..<unat (bp_next_index p) + 1 + n], p')"
    using Suc.IH [of ?q] Suc.prems nx by auto
  then show ?case
    using Suc.prems(1) by (simp add: get_buffer_def Let_def upt_conv_Cons del: upt_Suc)
qed simp

locale translator_channel = bounded_channel C contents capacity
  for C :: "('q, translator) chan_ops" and contents :: "'q \<Rightarrow> translator list" and capacity :: "'q \<Rightarrow> nat"
begin

lemma filled_channel:
  "\<exists>q. send_all C (ch_bounded C n) (replicate n (new_without_task 100)) = Some q \<and>
       length (contents q) = n \<and> capacity q = n"
  using send_all_ok [of "ch_bounded C n" "replicate n (new_without_task 100)"] by (auto simp: bounded)

lemma pool_build_full:
  "\<exists>pools'. translator_pool_build C n ps pools = Some pools' \<and>
     (\<forall>p. if p \<in> set ps then \<exists>q. map_of pools' p = Some q \<and> capacity q = n \<and> length (contents q) = n
          else map_of pools' p = map_of pools p)"
proof (induction ps arbitrary: pools)
  case (Cons p ps)
  obtain q where q: "send_all C (ch_bounded C n) (replicate n (new_without_task 100)) = Some q"
    "length (contents q) = n" "capacity q = n"
    using filled_channel [of n] by (elim exE conjE)
  obtain pools' where p': "translator_pool_build C n ps (hm_insert p q pools) = Some pools'"
    "\<forall>p'. if p' \<in> set ps then \<exists>q. map_of pools' p' = Some q \<and> capacity q = n \<and> length (contents q) = n
          else map_of pools' p' = map_of (hm_insert p q pools) p'"
    using Cons.IH [of "hm_insert p q pools"] by (elim exE conjE)
  have "if p' \<in> set (p # ps) then \<exists>q. map_of pools' p' = Some q \<and> capacity q = n \<and> length (contents q) = n
      else map_of pools' p' = map_of pools p'" for p'
    using p'(2) [rule_format, of p'] q by (cases "p' = p"; cases "p' \<in> set ps") simp_all
  with q p'(1) show ?case by (intro exI [of _ pools']) (simp del: map_of_hm_insert)
qed simp

lemma pool_new_inv: "\<exists>pools. translator_pool_new C n = Some pools \<and> pool_inv contents capacity n (pools, \<lambda>_. 0)"
proof -
  obtain pools where *: "translator_pool_build C n pooled_protocols [] = Some pools"
    "\<forall>p. if p \<in> set pooled_protocols
         then \<exists>q. map_of pools p = Some q \<and> capacity q = n \<and> length (contents q) = n
         else map_of pools p = None"
    using pool_build_full [of n pooled_protocols "[]"] by auto
  have "slot_ok contents capacity n p (map_of pools p) 0" for p
    using *(2) [rule_format, of p] by (auto simp: slot_ok_def split: if_splits)
  with *(1) show ?thesis by (simp add: translator_pool_new_def)
qed

lemma pool_step_inv:
  assumes "pool_step C st st'" and "pool_inv contents capacity n st"
  shows "pool_inv contents capacity n st'"
  using assms
proof (induction rule: pool_step.induct)
  case (borrow pools p t pools' lent)
  from borrow.hyps obtain q q' where "map_of pools p = Some q" "ch_try_recv C q = Some (t, q')"
    "pools' = hm_insert p q' pools" by (auto simp: pool_borrow_def split: option.splits)
  with borrow.prems recv_iff [of q t q'] show ?case by (auto simp: slot_ok_def dest: spec [of _ p])
next
  case (borrow_none pools p pools' lent)
  then have "pools' = pools" by (auto simp: pool_borrow_def split: option.splits)
  with borrow_none.prems show ?case by simp
next
  case (return lent p pools t)
  then obtain q where q: "map_of pools p = Some q" "capacity q = n" "length (contents q) + lent p = n"
    by (auto simp: slot_ok_def split: option.splits dest!: spec [of _ p])
  then have "length (contents q) < capacity q" using return.hyps by simp
  then obtain q' where "ch_try_send C q t = Some q'" "length (contents q') = Suc (length (contents q))"
    "capacity q' = n" using send_ok [of q t] q(2) by auto
  with q return show ?case by (auto simp: slot_ok_def return_translator_def)
qed

lemma pool_reachable_inv:
  assumes "translator_pool_new C n = Some pools" and "(pool_step C)\<^sup>*\<^sup>* (pools, \<lambda>_. 0) st"
  shows "pool_inv contents capacity n st"
  using assms(2)
proof (induction rule: rtranclp_induct)
  case base
  then show ?case using pool_new_inv [of n] assms(1) by simp
next
  case (step y z)
  then show ?case using pool_step_inv by blast
qed

lemma borrow_succeeds_iff:
  assumes "pool_inv contents capacity n (pools, lent)" and "p \<in> set pooled_protocols"
  shows "fst (pool_borrow C pools p) \<noteq> None \<longleftrightarrow> lent p < n"
proof -
  from assms obtain q where q: "map_of pools p = Some q" "length (contents q) + lent p = n"
    by (auto simp: slot_ok_def split: option.splits dest!: spec [of _ p])
  then show ?thesis
    using recv_None_iff [of q] by (auto simp: pool_borrow_def split: option.splits)
qed

end

interpretation list_translators: translator_channel list_chan snd fst
  by unfold_locales

section \<open>Properties\<close>

text \<open>
  C8. The synchronous translation never panics, for any protocol and any bytes. It rejects
  exactly what the reference translation rejects, with \<open>InvalidProtocol\<close>; otherwise the
  result is an AST SpaceMobile message with the reference bytes that keeps priority, event
  time and system time of the original.
\<close>

theorem translate_sync_correct:
  assumes "hex_decode_law e" and "nom_law e"
  shows "translate_sync e now m = ret
    (case translated_bytes e (m_protocol m) (m_data m) of
       None \<Rightarrow> Inl InvalidProtocol
     | Some d \<Rightarrow> Inr \<lparr>m_protocol = ASTSpaceMobile, m_data = take 120000000 d, m_priority = m_priority m,
                     m_timestamp = now, m_t_event = m_t_event m, m_t_system = m_t_system m\<rparr>)"
  using assms by (rule translate_sync_eq)

theorem translate_sync_correct_witness:
  "translate_sync ref_ext 500 (new_with_temporal IridiumSBD [1, 0, 2, 72, 105] Emergency 100 200) =
   ret (Inr \<lparr>m_protocol = ASTSpaceMobile, m_data = [1, 72, 105], m_priority = Emergency,
             m_timestamp = 500, m_t_event = 100, m_t_system = 200\<rparr>)"
proof -
  have "translated_bytes ref_ext IridiumSBD [1, 0, 2, 72, 105] = Some [1, 72, 105]"
    by (simp add: translated_bytes_def iridium_frame_ok_def iridium_declared_len_def codec_simps)
  then show ?thesis
    using translate_sync_correct [OF ref_ext_laws(1,5), of 500
        "new_with_temporal IridiumSBD [1, 0, 2, 72, 105] Emergency 100 200"]
    by (simp add: new_with_temporal_def)
qed

text \<open>
  The asynchronous handlers of the six decoded protocols accept the same messages and
  produce the same bytes and priority as the synchronous translation, but stamp the result
  with the translation time: event and system time of the original are lost.
\<close>

lemma translate_message_restamps:
  assumes "hex_decode_law e" and "nom_law e"
    and "m_protocol m \<notin> {NIDD, ASTSpaceMobile, LoRaMesh}"
  shows "translate_message e now m =
    map_option (map_sum id (\<lambda>t. t\<lparr>m_t_event := now, m_t_system := now\<rparr>)) (translate_sync e now m)"
  unfolding translate_message_eq [OF assms] translate_sync_eq [OF assms(1,2)]
  by (simp add: message_new_def Let_def split: option.splits)

lemma translate_message_restamps_example:
  "translate_message ref_ext 500 (new_with_temporal IridiumSBD [1, 0, 0] Emergency 100 200) =
   map_option (map_sum id (\<lambda>t. t\<lparr>m_t_event := 500, m_t_system := 500\<rparr>))
     (translate_sync ref_ext 500 (new_with_temporal IridiumSBD [1, 0, 0] Emergency 100 200))"
  by (rule translate_message_restamps [OF ref_ext_laws(1,5)]) (simp add: new_with_temporal_def)

text \<open>
  A Samsara message written by its encoder, with an identifier of at most 1024 bytes, is
  translated to the cellular header byte, the identifier, the three 8-byte fields and the
  payload.
\<close>

lemma decode_samsara_of_encode:
  assumes "nom_law e" and "samsara_wf m" and "length (s_device_id m) \<le> 1024"
  shows "decode_samsara e (samsara_encode m) =
    ret (Inr ([0x07] @ bytes_of (s_device_id m) @ u64_to_be (s_timestamp m) @ u64_to_be (s_latitude m) @
              u64_to_be (s_longitude m) @ s_payload m))"
  using assms(2,3)
  by (simp add: decode_samsara_eq [OF assms(1)] translated_bytes_def samsara_cellular_def samsara_wf_def
      samsara_encode_def Let_def drop_Cons')

text \<open>
  The allocation-free Iridium path never panics. On an acceptable frame and a large
  enough buffer it writes the complete AST frame with the next sequence number and reports
  its size; a malformed frame is \<open>InvalidProtocol\<close> and consumes no sequence number, a
  buffer that is too small is \<open>DataTooLarge\<close>, and the buffer is untouched in both cases.
\<close>

lemma hot_path_correct:
  "translate_iridium_to_asts_hot_path sq d out = ret
     (if \<not> iridium_frame_ok d then (Inl InvalidProtocol, out, sq)
      else let p = take (iridium_declared_len d) (drop 3 d) in
        if length out < 7 + length p then (Inl DataTooLarge, out, sq + 1)
        else (Inr (7 + length p), asts_frame 1 sq p @ drop (7 + length p) out, sq + 1))"
  by (rule hot_path_eq)

text \<open>
  Consecutive requests to a buffer pool never hand out the same buffer twice as long as
  they are no more than the pool has buffers.
\<close>

lemma get_buffers_distinct:
  assumes "n \<le> length (bp_buffers p)" and "0 < n" and "unat (bp_next_index p) + n < 2 ^ 64"
  shows "\<exists>is p'. get_buffers n p = ret (is, p') \<and> length is = n \<and> distinct is \<and>
                 (\<forall>i\<in>set is. i < length (bp_buffers p))"
proof -
  let ?k = "unat (bp_next_index p)" and ?l = "length (bp_buffers p)"
  have ne: "bp_buffers p \<noteq> []" using assms(1,2) by auto
  obtain p' where "get_buffers n p = ret (map (\<lambda>i. i mod ?l) [?k..<?k + n], p')"
    using get_buffers_eq [OF ne assms(3)] by blast
  moreover have "inj_on (\<lambda>i. i mod ?l) {?k..<?k + n}"
  proof (rule inj_onI)
    fix i j assume ij: "i \<in> {?k..<?k + n}" "j \<in> {?k..<?k + n}" "i mod ?l = j mod ?l"
    then have "\<bar>int i - int j\<bar> < int ?l" and "int ?l dvd int i - int j"
      using assms(1) by (auto simp: mod_eq_dvd_iff [symmetric] zmod_int [symmetric])
    then show "i = j" using zdvd_imp_le [of "int ?l" "\<bar>int i - int j\<bar>"] by force
  qed
  ultimately show ?thesis using ne by (auto simp: distinct_map)
qed

text \<open>
  The translator pool loses no translator: with a channel that keeps the documented
  contract, after any sequence of borrows and returns a borrow for a pooled protocol succeeds
  exactly when fewer than \<open>n\<close> of its translators are out.
\<close>

lemma translator_pool_available:
  assumes "bounded_channel C cont cap" and "translator_pool_new C n = Some pools"
    and "(pool_step C)\<^sup>*\<^sup>* (pools, \<lambda>_. 0) (pools', lent)" and "p \<in> set pooled_protocols"
  shows "fst (pool_borrow C pools' p) \<noteq> None \<longleftrightarrow> lent p < n"
proof -
  have tc: "translator_channel C cont cap" using assms(1) by (rule translator_channel.intro)
  show ?thesis
    by (rule translator_channel.borrow_succeeds_iff [OF tc
          translator_channel.pool_reachable_inv [OF tc assms(2,3)] assms(4)])
qed

end
