(* ===== verification/Cache.thy ===== *)
theory Cache
  imports Protocol Floats
begin

text \<open>
  \<open>src/src/cache.rs\<close>: the translation cache, a hash map from protocol and payload hash to
  translated messages, with a queue that records insertion order for eviction. \<open>Instant\<close>
  and \<open>Duration\<close> are natural numbers; the clock is an argument of every operation that
  reads it.
\<close>

section \<open>Data\<close>

record cache_key =
  ck_protocol :: protocol
  ck_data_hash :: u64

record cache_entry =
  ce_message :: message
  ce_t_event :: u64
  ce_timestamp :: nat
  ce_ttl :: nat

record async_cache =
  c_entries :: "(cache_key \<times> cache_entry) list"
  c_eviction_order :: "cache_key list"
  c_max_entries :: nat
  c_default_ttl :: nat

record cache_stats =
  cs_total_entries :: nat
  cs_valid_entries :: nat
  cs_max_entries :: nat

section \<open>Operations\<close>

definition hash_data :: "bytes \<Rightarrow> u64" where
  "hash_data d = foldl (\<lambda>h b. h * 33 + ucast b) 5381 d"

definition cache_new :: "nat \<Rightarrow> nat \<Rightarrow> async_cache" where
  "cache_new n ttl = \<lparr>c_entries = [], c_eviction_order = [], c_max_entries = n, c_default_ttl = ttl\<rparr>"

definition entry_valid :: "nat \<Rightarrow> cache_entry \<Rightarrow> bool" where
  "entry_valid now e \<longleftrightarrow> now - ce_timestamp e < ce_ttl e"

definition cache_get :: "nat \<Rightarrow> async_cache \<Rightarrow> protocol \<Rightarrow> bytes \<Rightarrow> message option" where
  "cache_get now c p d =
     (let key = \<lparr>ck_protocol = p, ck_data_hash = hash_data d\<rparr> in
      case map_of (c_entries c) key of
        None \<Rightarrow> None
      | Some e \<Rightarrow> if entry_valid now e then Some (ce_message e) else None)"

text \<open>\<open>if entries.len() >= self.max_entries\<close>: drop the key at the front of the queue.\<close>

definition cache_make_room :: "async_cache \<Rightarrow> async_cache" where
  "cache_make_room c =
     (if length (c_entries c) \<ge> c_max_entries c
      then (case c_eviction_order c of
              [] \<Rightarrow> c
            | oldest # rest \<Rightarrow>
                c\<lparr>c_entries := hm_remove oldest (c_entries c), c_eviction_order := rest\<rparr>)
      else c)"

definition cache_set :: "nat \<Rightarrow> async_cache \<Rightarrow> protocol \<Rightarrow> bytes \<Rightarrow> message \<Rightarrow> async_cache" where
  "cache_set now c p d m =
     (let key = \<lparr>ck_protocol = p, ck_data_hash = hash_data d\<rparr>;
          entry = \<lparr>ce_message = m, ce_t_event = m_t_event m, ce_timestamp = now, ce_ttl = c_default_ttl c\<rparr>;
          c = cache_make_room c;
          is_new = (map_of (c_entries c) key = None);
          c = c\<lparr>c_entries := hm_insert key entry (c_entries c)\<rparr>
      in if is_new then c\<lparr>c_eviction_order := c_eviction_order c @ [key]\<rparr> else c)"

definition cache_get_batch :: "nat \<Rightarrow> async_cache \<Rightarrow> (protocol \<times> bytes) list \<Rightarrow> message option list" where
  "cache_get_batch now c qs =
     map (\<lambda>(p, d).
       let key = \<lparr>ck_protocol = p, ck_data_hash = hash_data d\<rparr> in
       case map_of (c_entries c) key of
         None \<Rightarrow> None
       | Some e \<Rightarrow> if entry_valid now e then Some (ce_message e) else None) qs"

text \<open>The loop of \<open>set_batch\<close>; every item carries the clock at its insertion.\<close>

fun cache_set_loop :: "async_cache \<Rightarrow> (nat \<times> protocol \<times> bytes \<times> message) list \<Rightarrow> async_cache" where
  "cache_set_loop c [] = c"
| "cache_set_loop c ((now, p, d, m) # batch) =
     (let key = \<lparr>ck_protocol = p, ck_data_hash = hash_data d\<rparr>;
          entry = \<lparr>ce_message = m, ce_t_event = m_t_event m, ce_timestamp = now, ce_ttl = c_default_ttl c\<rparr>;
          c = cache_make_room c;
          is_new = (map_of (c_entries c) key = None);
          c = c\<lparr>c_entries := hm_insert key entry (c_entries c)\<rparr>;
          c = (if is_new then c\<lparr>c_eviction_order := c_eviction_order c @ [key]\<rparr> else c)
      in cache_set_loop c batch)"

definition cache_set_batch :: "async_cache \<Rightarrow> (nat \<times> protocol \<times> bytes \<times> message) list \<Rightarrow> async_cache" where
  "cache_set_batch c batch = (if batch = [] then c else cache_set_loop c batch)"

text \<open>
  \<open>entries.retain\<close> with a closure that takes every dropped key out of the queue:
  \<open>position\<close> followed by \<open>remove\<close> is \<open>remove1\<close>.
\<close>

definition cache_retain :: "(cache_key \<Rightarrow> cache_entry \<Rightarrow> bool) \<Rightarrow> async_cache \<Rightarrow> async_cache" where
  "cache_retain keep c =
     c\<lparr>c_entries := filter (\<lambda>(k, e). keep k e) (c_entries c),
       c_eviction_order := foldl (\<lambda>order (k, e). if keep k e then order else remove1 k order)
                                 (c_eviction_order c) (c_entries c)\<rparr>"

definition invalidate_protocol_time_range :: "async_cache \<Rightarrow> protocol \<Rightarrow> u64 \<Rightarrow> u64 \<Rightarrow> async_cache" where
  "invalidate_protocol_time_range c p a b =
     cache_retain (\<lambda>k e. ck_protocol k \<noteq> p \<or> \<not> (ce_t_event e \<ge> a \<and> ce_t_event e \<le> b)) c"

definition invalidate_protocol :: "async_cache \<Rightarrow> protocol \<Rightarrow> async_cache" where
  "invalidate_protocol c p = cache_retain (\<lambda>k e. ck_protocol k \<noteq> p) c"

definition cache_clear :: "async_cache \<Rightarrow> async_cache" where
  "cache_clear c = c\<lparr>c_entries := [], c_eviction_order := []\<rparr>"

definition cache_stats_of :: "nat \<Rightarrow> async_cache \<Rightarrow> cache_stats" where
  "cache_stats_of now c =
     \<lparr>cs_total_entries = length (c_entries c),
      cs_valid_entries = length (filter (entry_valid now) (map snd (c_entries c))),
      cs_max_entries = c_max_entries c\<rparr>"

definition hit_rate :: "'f f64_ops \<Rightarrow> cache_stats \<Rightarrow> 'f" where
  "hit_rate F st =
     (if cs_total_entries st = 0 then f_of_rat F 0
      else f_div F (f_of_nat F (cs_valid_entries st)) (f_of_nat F (cs_total_entries st)))"

section \<open>Invariant and reachable states\<close>

definition cache_inv :: "async_cache \<Rightarrow> bool" where
  "cache_inv c \<longleftrightarrow> map_ok (c_entries c) \<and> distinct (c_eviction_order c) \<and>
     set (c_eviction_order c) = set (keys (c_entries c)) \<and>
     length (c_entries c) \<le> max 1 (c_max_entries c)"

inductive cache_step :: "async_cache \<Rightarrow> async_cache \<Rightarrow> bool" where
  set: "cache_step c (cache_set now c p d m)"
| set_batch: "cache_step c (cache_set_batch c batch)"
| range: "cache_step c (invalidate_protocol_time_range c p a b)"
| protocol: "cache_step c (invalidate_protocol c p)"
| clear: "cache_step c (cache_clear c)"

abbreviation cache_key_of :: "protocol \<Rightarrow> bytes \<Rightarrow> cache_key" where
  "cache_key_of p d \<equiv> \<lparr>ck_protocol = p, ck_data_hash = hash_data d\<rparr>"

section \<open>Lemmas\<close>

lemma make_room_simps [simp]:
  "c_max_entries (cache_make_room c) = c_max_entries c"
  "c_default_ttl (cache_make_room c) = c_default_ttl c"
  by (simp_all add: cache_make_room_def split: list.splits)

lemma make_room_inv:
  assumes "cache_inv c"
  shows "map_ok (c_entries (cache_make_room c)) \<and> distinct (c_eviction_order (cache_make_room c)) \<and>
     set (c_eviction_order (cache_make_room c)) = set (keys (c_entries (cache_make_room c))) \<and>
     length (c_entries (cache_make_room c)) \<le> max 1 (c_max_entries c) - 1"
proof (cases "length (c_entries c) \<ge> c_max_entries c")
  case full: True
  show ?thesis
  proof (cases "c_eviction_order c")
    case Nil
    with assms have "c_entries c = []" by (auto simp: cache_inv_def)
    with Nil assms full show ?thesis by (simp add: cache_make_room_def cache_inv_def)
  next
    case (Cons k ks)
    with assms have "k \<in> set (keys (c_entries c))" "map_ok (c_entries c)" by (auto simp: cache_inv_def)
    moreover from this have "length (hm_remove k (c_entries c)) = length (c_entries c) - 1"
      by (simp add: length_hm_remove)
    moreover have "set (keys (hm_remove k (c_entries c))) = set (keys (c_entries c)) - {k}"
      by simp
    ultimately show ?thesis
      using full Cons assms by (auto simp: cache_make_room_def cache_inv_def max_def split: if_splits)
  qed
next
  case False
  with assms show ?thesis by (auto simp: cache_make_room_def cache_inv_def)
qed

lemma cache_set_simps [simp]:
  "c_max_entries (cache_set now c p d m) = c_max_entries c"
  "c_default_ttl (cache_set now c p d m) = c_default_ttl c"
  by (simp_all add: cache_set_def Let_def)

lemma cache_set_inv:
  assumes "cache_inv c"
  shows "cache_inv (cache_set now c p d m)"
proof -
  let ?r = "cache_make_room c" and ?k = "cache_key_of p d"
  have room: "map_ok (c_entries ?r)" "distinct (c_eviction_order ?r)"
    "set (c_eviction_order ?r) = set (keys (c_entries ?r))"
    "length (c_entries ?r) \<le> max 1 (c_max_entries c) - 1" using make_room_inv [OF assms] by auto
  have "map_of (c_entries ?r) ?k = None \<longleftrightarrow> ?k \<notin> fst ` set (c_entries ?r)"
    by (simp add: map_of_eq_None_iff)
  with room show ?thesis
    by (cases "?k \<in> fst ` set (c_entries ?r)")
      (auto simp: cache_set_def Let_def cache_inv_def length_hm_insert)
qed

lemma cache_set_loop_foldl:
  "cache_set_loop c batch = foldl (\<lambda>c (now, p, d, m). cache_set now c p d m) c batch"
  by (induction c batch rule: cache_set_loop.induct) (simp_all add: cache_set_def Let_def)

lemma cache_set_batch_foldl:
  "cache_set_batch c batch = foldl (\<lambda>c (now, p, d, m). cache_set now c p d m) c batch"
  by (simp add: cache_set_batch_def cache_set_loop_foldl)

lemma cache_set_batch_inv: "cache_inv c \<Longrightarrow> cache_inv (cache_set_batch c batch)"
  unfolding cache_set_batch_foldl
  by (induction batch arbitrary: c) (auto simp: cache_set_inv split: prod.splits)

lemma foldl_remove1:
  assumes "distinct order"
  shows "foldl (\<lambda>order (k, e). if keep k e then order else remove1 k order) order es =
     filter (\<lambda>k. \<forall>e. (k, e) \<in> set es \<longrightarrow> keep k e) order"
  using assms
proof (induction es arbitrary: order)
  case (Cons x es)
  obtain k e where x: "x = (k, e)" by fastforce
  show ?case
  proof (cases "keep k e")
    case True
    then show ?thesis using Cons x by (auto intro!: filter_cong)
  next
    case False
    have "remove1 k order = filter (\<lambda>j. j \<noteq> k) order"
      using Cons.prems by (simp add: distinct_remove1_removeAll removeAll_filter_not_eq eq_commute)
    then show ?thesis
      using False Cons.IH [of "remove1 k order"] Cons.prems x by (auto intro!: filter_cong)
  qed
qed simp

lemma cache_retain_inv:
  assumes "cache_inv c"
  shows "cache_inv (cache_retain keep c)"
proof -
  from assms have ok: "map_ok (c_entries c)" "distinct (c_eviction_order c)"
    "set (c_eviction_order c) = fst ` set (c_entries c)" by (auto simp: cache_inv_def)
  have u: "(k, e) \<in> set (c_entries c) \<Longrightarrow> (k, e') \<in> set (c_entries c) \<Longrightarrow> e = e'" for k e e'
    using ok(1) by (metis map_of_SomeI_ok option.inject)
  have "k \<in> fst ` set (c_entries c) \<and> (\<forall>e. (k, e) \<in> set (c_entries c) \<longrightarrow> keep k e) \<longleftrightarrow>
      (\<exists>e. (k, e) \<in> set (c_entries c) \<and> keep k e)" for k
  proof -
    have "k \<in> fst ` set (c_entries c) \<longleftrightarrow> (\<exists>e. (k, e) \<in> set (c_entries c))" by force
    then show ?thesis using u [of k] by blast
  qed
  then have "{k \<in> fst ` set (c_entries c). \<forall>e. (k, e) \<in> set (c_entries c) \<longrightarrow> keep k e} =
      fst ` set (filter (\<lambda>(k, e). keep k e) (c_entries c))"
    by (simp add: set_eq_iff image_iff Bex_def split_paired_Ex case_prod_unfold)
  moreover have "length (filter (\<lambda>(k, e). keep k e) (c_entries c)) \<le> max 1 (c_max_entries c)"
    using assms length_filter_le order_trans unfolding cache_inv_def by blast
  ultimately show ?thesis
    using assms ok by (simp add: cache_inv_def cache_retain_def foldl_remove1)
qed

lemma cache_step_inv: "cache_step c c' \<Longrightarrow> cache_inv c \<Longrightarrow> cache_inv c'"
  by (induction rule: cache_step.induct)
    (auto simp: cache_set_inv cache_set_batch_inv invalidate_protocol_time_range_def
      invalidate_protocol_def cache_retain_inv cache_clear_def cache_inv_def [of "c_entries_update _ _"]
      cache_inv_def [of "c_eviction_order_update _ _"])

lemma cache_new_inv: "cache_inv (cache_new n ttl)"
  by (simp add: cache_new_def cache_inv_def)

lemma cache_reachable_inv:
  assumes "cache_step\<^sup>*\<^sup>* (cache_new n ttl) c"
  shows "cache_inv c"
  using assms
proof (induction rule: rtranclp_induct)
  case base
  then show ?case by (rule cache_new_inv)
next
  case (step y z)
  then show ?case using cache_step_inv by blast
qed

lemma cache_set_entries:
  "map_of (c_entries (cache_set now c p d m)) =
     (map_of (c_entries (cache_make_room c)))
       (cache_key_of p d \<mapsto> \<lparr>ce_message = m, ce_t_event = m_t_event m, ce_timestamp = now,
                              ce_ttl = c_default_ttl c\<rparr>)"
  by (simp add: cache_set_def Let_def)

lemma cache_get_set:
  "now' - now < c_default_ttl c \<Longrightarrow> cache_get now' (cache_set now c p d m) p d = Some m"
  by (simp add: cache_get_def cache_set_entries entry_valid_def Let_def)

lemma make_room_lookup:
  assumes "\<not> (length (c_entries c) \<ge> c_max_entries c \<and> c_eviction_order c \<noteq> [] \<and> hd (c_eviction_order c) = k)"
  shows "map_of (c_entries (cache_make_room c)) k = map_of (c_entries c) k"
  using assms by (auto simp: cache_make_room_def split: list.splits)

lemma hash_data_snoc: "hash_data (d @ [b]) = hash_data d * 33 + ucast b"
  by (simp add: hash_data_def)

section \<open>The contract the gateway relies on\<close>

text \<open>
  A translation cache keeps its invariant, answers a lookup with what was stored last under
  the same protocol and payload while it is fresh, and answers nothing before.
\<close>

locale translation_cache =
  fixes get :: "nat \<Rightarrow> 'c \<Rightarrow> protocol \<Rightarrow> bytes \<Rightarrow> message option"
    and set :: "nat \<Rightarrow> 'c \<Rightarrow> protocol \<Rightarrow> bytes \<Rightarrow> message \<Rightarrow> 'c"
    and ttl :: "'c \<Rightarrow> nat" and inv :: "'c \<Rightarrow> bool"
  assumes get_set: "t' - t < ttl c \<Longrightarrow> get t' (set t c p d m) p d = Some m"
    and set_ttl: "ttl (set t c p d m) = ttl c"
    and set_inv: "inv c \<Longrightarrow> inv (set t c p d m)"
begin

text \<open>A second store under the same key replaces the first one.\<close>

lemma get_set_twice: "t' - t < ttl c \<Longrightarrow> get t' (set t (set t0 c p d m0) p d m) p d = Some m"
  by (simp add: get_set set_ttl)

end

interpretation gateway_cache: translation_cache cache_get cache_set c_default_ttl cache_inv
  by unfold_locales (simp_all add: cache_get_set cache_set_inv)

section \<open>Properties\<close>

text \<open>
  In every state reachable from an empty cache by stores, batch stores, invalidations and
  clears, the keys in the eviction queue are distinct and are exactly the keys of the map (no
  ghost keys), and the number of entries never exceeds the limit (one when the limit is zero).
\<close>

lemma cache_reachable_ok:
  assumes "cache_step\<^sup>*\<^sup>* (cache_new n ttl) c"
  shows "map_ok (c_entries c) \<and> distinct (c_eviction_order c) \<and>
     set (c_eviction_order c) = set (keys (c_entries c)) \<and>
     length (c_entries c) \<le> max 1 (c_max_entries c)"
  using cache_reachable_inv [OF assms] by (simp add: cache_inv_def)

text \<open>
  C15. Storing a translation makes it visible: until its time to live has passed a lookup with
  the same protocol and bytes returns it, and every other key keeps its entry unless the
  cache was full and the key was the oldest in the queue.
\<close>

theorem cache_set_effect:
  assumes "now' - now < c_default_ttl c"
  shows "cache_get now' (cache_set now c p d m) p d = Some m \<and>
    (\<forall>k. k \<noteq> cache_key_of p d \<longrightarrow>
       map_of (c_entries (cache_set now c p d m)) k =
         (if c_max_entries c \<le> length (c_entries c) \<and> c_eviction_order c \<noteq> [] \<and> hd (c_eviction_order c) = k
          then None else map_of (c_entries c) k))"
proof (intro conjI allI impI)
  show "cache_get now' (cache_set now c p d m) p d = Some m" using assms by (rule gateway_cache.get_set)
next
  fix k assume "k \<noteq> cache_key_of p d"
  then show "map_of (c_entries (cache_set now c p d m)) k =
      (if c_max_entries c \<le> length (c_entries c) \<and> c_eviction_order c \<noteq> [] \<and> hd (c_eviction_order c) = k
       then None else map_of (c_entries c) k)"
    using make_room_lookup [of c k]
    by (auto simp: cache_set_entries cache_make_room_def split: list.splits)
qed

theorem cache_set_effect_witness:
  "cache_get 9 (cache_set 5 (cache_new 4 10) VSAT [1, 2] (message_new 0 ASTSpaceMobile [3] Operational)) VSAT [1, 2] =
   Some (message_new 0 ASTSpaceMobile [3] Operational)"
  using cache_set_effect [of 9 5 "cache_new 4 10" VSAT "[1, 2]" "message_new 0 ASTSpaceMobile [3] Operational"]
  by (simp add: cache_new_def)

text \<open>
  The batch operations take the lock once but change nothing else: a batch store is the
  sequence of single stores, and a batch lookup answers each query as the single lookup would.
\<close>

lemma cache_batch_equivalent:
  "cache_set_batch c batch = foldl (\<lambda>c (now, p, d, m). cache_set now c p d m) c batch \<and>
   cache_get_batch now c qs = map (\<lambda>(p, d). cache_get now c p d) qs"
  by (simp add: cache_set_batch_foldl cache_get_batch_def cache_get_def)

text \<open>
  The payload hash does not identify the payload: after the translation of the two-byte
  payload \<open>0, 33\<close> is cached, a lookup for the different payload \<open>1, 0\<close> of the same
  protocol returns that translation.
\<close>

lemma cache_collision:
  assumes "now' - now < c_default_ttl c"
  shows "cache_get now' (cache_set now c p [0, 33] m) p [1, 0] = Some m"
proof -
  have "hash_data [1, 0] = hash_data [0, 33]" by (simp add: hash_data_def)
  then have "cache_get now' (cache_set now c p [0, 33] m) p [1, 0] =
      cache_get now' (cache_set now c p [0, 33] m) p [0, 33]" by (simp add: cache_get_def)
  then show ?thesis using gateway_cache.get_set [OF assms] by simp
qed

lemma cache_collision_example:
  "cache_get 9 (cache_set 5 (cache_new 4 10) VSAT [0, 33] (message_new 0 ASTSpaceMobile [3] Operational)) VSAT [1, 0] =
   Some (message_new 0 ASTSpaceMobile [3] Operational)"
  using cache_collision [of 9 5 "cache_new 4 10" VSAT "message_new 0 ASTSpaceMobile [3] Operational"]
  by (simp add: cache_new_def)

end
