(* ===== verification/Snapshot.thy ===== *)
theory Snapshot
  imports Protocol Floats
begin

text \<open>
  \<open>src/src/snapshot.rs\<close>: snapshots of translated batches for uplink, a map by identifier
  with an insertion-order queue whose stale keys are skipped lazily. The wall clock in
  milliseconds is the argument \<open>now\<close>; ages are computed by a wrapping subtraction.
\<close>

unbundle bit_operations_syntax

section \<open>Data\<close>

record snapshot =
  sn_id :: string
  sn_messages :: "message list"
  sn_protocol :: protocol
  sn_created_at :: u64
  sn_size_bytes :: nat
  sn_device_id :: u64

record snapshot_manager =
  sm_map :: "(string \<times> snapshot) list"
  sm_order :: "string list"
  sm_max_snapshots :: nat
  sm_snapshot_ttl :: nat

record snapshot_stats =
  st_total_snapshots :: nat
  st_valid_snapshots :: nat
  st_total_size_bytes :: nat
  st_max_snapshots :: nat

section \<open>Identifiers\<close>

fun protocol_discr :: "protocol \<Rightarrow> u64" where
  "protocol_discr IridiumSBD = 0"
| "protocol_discr InmarsatC = 1"
| "protocol_discr VSAT = 2"
| "protocol_discr HFVHF = 3"
| "protocol_discr RockBLOCK = 4"
| "protocol_discr Samsara = 5"
| "protocol_discr NIDD = 6"
| "protocol_discr ASTSpaceMobile = 7"
| "protocol_discr LoRaMesh = 8"

definition fnv_mix :: "u64 \<Rightarrow> bytes \<Rightarrow> u64" where
  "fnv_mix h bs = foldl (\<lambda>h b. (h XOR ucast b) * 1099511628211) h bs"

definition hash_messages :: "message list \<Rightarrow> protocol \<Rightarrow> u64" where
  "hash_messages ms p =
     foldl (\<lambda>h m. fnv_mix h (m_data m)) (fnv_mix 14695981039346656037 (u64_to_le (protocol_discr p))) ms"

definition generate_snapshot_id :: "message list \<Rightarrow> protocol \<Rightarrow> string" where
  "generate_snapshot_id ms p =
     ''snap_'' @ protocol_name p @ ''_'' @ show_nat (unat (hash_messages ms p))"

section \<open>Operations\<close>

definition snapshot_manager_new :: "nat \<Rightarrow> nat \<Rightarrow> snapshot_manager" where
  "snapshot_manager_new n ttl = \<lparr>sm_map = [], sm_order = [], sm_max_snapshots = n, sm_snapshot_ttl = ttl\<rparr>"

text \<open>The loop \<open>while let Some(id) = store.order.pop_front()\<close>.\<close>

fun evict_loop :: "(string \<times> snapshot) list \<Rightarrow> string list \<Rightarrow> (string \<times> snapshot) list \<times> string list" where
  "evict_loop m [] = (m, [])"
| "evict_loop m (i # order) =
     (if map_of m i \<noteq> None then (hm_remove i m, order) else evict_loop m order)"

definition evict_oldest :: "snapshot_manager \<Rightarrow> snapshot_manager" where
  "evict_oldest s = (case evict_loop (sm_map s) (sm_order s) of (m, order) \<Rightarrow> s\<lparr>sm_map := m, sm_order := order\<rparr>)"

definition create_snapshot ::
    "u64 \<Rightarrow> snapshot_manager \<Rightarrow> message list \<Rightarrow> protocol \<Rightarrow> u64 \<Rightarrow> string \<times> snapshot_manager" where
  "create_snapshot now s ms p dev =
     (let i = generate_snapshot_id ms p;
          snap = \<lparr>sn_id = i, sn_messages = ms, sn_protocol = p, sn_created_at = now,
                  sn_size_bytes = sum_list (map message_size ms), sn_device_id = dev\<rparr>;
          s = (if length (sm_map s) \<ge> sm_max_snapshots s then evict_oldest s else s)
      in (i, s\<lparr>sm_order := sm_order s @ [i], sm_map := hm_insert i snap (sm_map s)\<rparr>))"

definition create_batch_snapshot ::
    "u64 \<Rightarrow> snapshot_manager \<Rightarrow> message list \<Rightarrow> protocol \<Rightarrow> u64 \<Rightarrow> string \<times> snapshot_manager" where
  "create_batch_snapshot now s ms p dev = create_snapshot now s ms p dev"

definition ttl_ms :: "snapshot_manager \<Rightarrow> u64" where
  "ttl_ms s = word_of_nat (sm_snapshot_ttl s)"

definition drain_for_uplink ::
    "u64 \<Rightarrow> snapshot_manager \<Rightarrow> u64 \<Rightarrow> u64 \<Rightarrow> snapshot list \<times> snapshot_manager" where
  "drain_for_uplink now s dev since =
     (let matches = (\<lambda>x. sn_device_id x = dev \<and> sn_created_at x \<ge> since \<and> now - sn_created_at x < ttl_ms s)
      in (filter matches (map snd (sm_map s)),
          s\<lparr>sm_map := filter (\<lambda>(k, x). \<not> matches x) (sm_map s)\<rparr>))"

definition get_snapshot :: "u64 \<Rightarrow> snapshot_manager \<Rightarrow> string \<Rightarrow> snapshot option" where
  "get_snapshot now s i =
     (case map_of (sm_map s) i of
        None \<Rightarrow> None
      | Some x \<Rightarrow> if now - sn_created_at x > ttl_ms s then None else Some x)"

definition get_protocol_snapshots :: "u64 \<Rightarrow> snapshot_manager \<Rightarrow> protocol \<Rightarrow> snapshot list" where
  "get_protocol_snapshots now s p =
     filter (\<lambda>x. sn_protocol x = p \<and> now - sn_created_at x < ttl_ms s) (map snd (sm_map s))"

definition delete_snapshot :: "snapshot_manager \<Rightarrow> string \<Rightarrow> bool \<times> snapshot_manager" where
  "delete_snapshot s i = (map_of (sm_map s) i \<noteq> None, s\<lparr>sm_map := hm_remove i (sm_map s)\<rparr>)"

definition clear_expired :: "u64 \<Rightarrow> snapshot_manager \<Rightarrow> snapshot_manager" where
  "clear_expired now s =
     s\<lparr>sm_map := filter (\<lambda>(k, x). now - sn_created_at x < ttl_ms s) (sm_map s)\<rparr>"

definition snapshot_stats_of :: "u64 \<Rightarrow> snapshot_manager \<Rightarrow> snapshot_stats" where
  "snapshot_stats_of now s =
     \<lparr>st_total_snapshots = length (sm_map s),
      st_valid_snapshots = length (filter (\<lambda>x. now - sn_created_at x < ttl_ms s) (map snd (sm_map s))),
      st_total_size_bytes = sum_list (map sn_size_bytes (map snd (sm_map s))),
      st_max_snapshots = sm_max_snapshots s\<rparr>"

definition snapshot_utilization :: "'f f64_ops \<Rightarrow> snapshot_stats \<Rightarrow> 'f" where
  "snapshot_utilization F st =
     (if st_max_snapshots st = 0 then f_of_rat F 0
      else f_div F (f_of_nat F (st_total_snapshots st)) (f_of_nat F (st_max_snapshots st)))"

section \<open>Invariant and reachable states\<close>

definition snapshot_inv :: "snapshot_manager \<Rightarrow> bool" where
  "snapshot_inv s \<longleftrightarrow> map_ok (sm_map s) \<and> fst ` set (sm_map s) \<subseteq> set (sm_order s) \<and>
     length (sm_map s) \<le> max 1 (sm_max_snapshots s)"

inductive snapshot_step :: "snapshot_manager \<Rightarrow> snapshot_manager \<Rightarrow> bool" where
  create: "create_snapshot now s ms p dev = (i, s') \<Longrightarrow> snapshot_step s s'"
| drain: "drain_for_uplink now s dev since = (xs, s') \<Longrightarrow> snapshot_step s s'"
| delete: "delete_snapshot s i = (b, s') \<Longrightarrow> snapshot_step s s'"
| expire: "snapshot_step s (clear_expired now s)"

text \<open>A device that creates a snapshot and has it deleted, \<open>n\<close> times.\<close>

fun create_delete_rounds :: "nat \<Rightarrow> u64 \<Rightarrow> snapshot_manager \<Rightarrow> message list \<Rightarrow> protocol \<Rightarrow> u64 \<Rightarrow> snapshot_manager" where
  "create_delete_rounds 0 now s ms p dev = s"
| "create_delete_rounds (Suc n) now s ms p dev =
     (case create_snapshot now s ms p dev of
        (i, s) \<Rightarrow> create_delete_rounds n now (snd (delete_snapshot s i)) ms p dev)"

section \<open>Lemmas\<close>

text \<open>Eviction drops the stale keys at the front of the queue and the first live one.\<close>

lemma evict_loop_spec:
  assumes "fst ` set m \<subseteq> set order" and "m \<noteq> []"
  shows "\<exists>stale i rest. order = stale @ i # rest \<and> set stale \<inter> fst ` set m = {} \<and>
     i \<in> fst ` set m \<and> evict_loop m order = (hm_remove i m, rest)"
  using assms
proof (induction order)
  case (Cons j order)
  show ?case
  proof (cases "j \<in> fst ` set m")
    case True
    then have "map_of m j \<noteq> None" by (simp add: map_of_eq_None_iff)
    with True show ?thesis by (intro exI [of _ "[]"] exI [of _ j] exI [of _ order]) simp
  next
    case False
    then have "map_of m j = None" by (simp add: map_of_eq_None_iff)
    moreover have "fst ` set m \<subseteq> set order" using Cons.prems(1) False by auto
    then obtain stale i rest where "order = stale @ i # rest" "set stale \<inter> fst ` set m = {}"
      "i \<in> fst ` set m" "evict_loop m order = (hm_remove i m, rest)"
      using Cons.IH Cons.prems(2) by blast
    ultimately show ?thesis using False
      by (intro exI [of _ "j # stale"] exI [of _ i] exI [of _ rest]) auto
  qed
qed auto

lemma evict_loop_Nil [simp]: "evict_loop [] order = ([], [])"
  by (induction order) simp_all

lemma evict_oldest_inv:
  assumes "snapshot_inv s" and "sm_map s \<noteq> []"
  shows "snapshot_inv (evict_oldest s) \<and> length (sm_map (evict_oldest s)) = length (sm_map s) - 1"
proof -
  from assms(1) have sub: "fst ` set (sm_map s) \<subseteq> set (sm_order s)" by (simp add: snapshot_inv_def)
  obtain stale i rest where e: "sm_order s = stale @ i # rest"
    "set stale \<inter> fst ` set (sm_map s) = {}" "i \<in> fst ` set (sm_map s)"
    "evict_loop (sm_map s) (sm_order s) = (hm_remove i (sm_map s), rest)"
    using evict_loop_spec [OF sub assms(2)] by blast
  have "fst ` set (hm_remove i (sm_map s)) \<subseteq> set rest"
    using assms(1) e(1,2) by (auto simp: snapshot_inv_def)
  moreover have "length (hm_remove i (sm_map s)) = length (sm_map s) - 1"
    using e(3) assms(1) by (simp add: snapshot_inv_def length_hm_remove)
  ultimately show ?thesis using assms e(4) by (auto simp: evict_oldest_def snapshot_inv_def)
qed

lemma evict_oldest_fields [simp]:
  "sm_max_snapshots (evict_oldest s) = sm_max_snapshots s"
  "sm_snapshot_ttl (evict_oldest s) = sm_snapshot_ttl s"
  by (simp_all add: evict_oldest_def split: prod.splits)

lemma create_snapshot_inv:
  assumes "snapshot_inv s" and "create_snapshot now s ms p dev = (i, s')"
  shows "snapshot_inv s'"
proof -
  define r where "r = (if length (sm_map s) \<ge> sm_max_snapshots s then evict_oldest s else s)"
  have "snapshot_inv r \<and> sm_max_snapshots r = sm_max_snapshots s \<and>
      (sm_map r = [] \<or> length (sm_map r) < max 1 (sm_max_snapshots s))"
  proof (cases "sm_map s = []")
    case True
    then show ?thesis using assms(1) by (simp add: r_def evict_oldest_def snapshot_inv_def)
  next
    case False
    then show ?thesis using assms(1) evict_oldest_inv [OF assms(1) False]
      by (cases "sm_map s") (auto simp: r_def snapshot_inv_def)
  qed
  then have r: "map_ok (sm_map r)" "fst ` set (sm_map r) \<subseteq> set (sm_order r)"
    "length (sm_map r) \<le> max 1 (sm_max_snapshots s) - 1" "sm_max_snapshots r = sm_max_snapshots s"
    by (auto simp: snapshot_inv_def)
  obtain x where s': "s' = r\<lparr>sm_order := sm_order r @ [i], sm_map := hm_insert i x (sm_map r)\<rparr>"
    using assms(2) unfolding create_snapshot_def Let_def r_def [symmetric] by auto
  have "length (hm_insert i x (sm_map r)) \<le> max 1 (sm_max_snapshots s)"
    using r(3) unfolding length_hm_insert by (cases "sm_max_snapshots s") auto
  moreover have "insert i (fst ` set (sm_map r)) \<subseteq> insert i (set (sm_order r))" using r(2) by blast
  ultimately show ?thesis using r(1,4) by (simp add: s' snapshot_inv_def)
qed

lemma snapshot_filter_inv:
  assumes "snapshot_inv s"
  shows "snapshot_inv (s\<lparr>sm_map := filter P (sm_map s)\<rparr>)"
proof -
  have "fst ` set (filter P (sm_map s)) \<subseteq> fst ` set (sm_map s)" by auto
  moreover have "length (filter P (sm_map s)) \<le> length (sm_map s)" by simp
  ultimately show ?thesis using assms order_trans
    by (simp add: snapshot_inv_def del: length_filter_le) blast
qed

lemma snapshot_delete_inv:
  assumes "snapshot_inv s"
  shows "snapshot_inv (snd (delete_snapshot s i))"
  using assms by (auto simp: snapshot_inv_def delete_snapshot_def length_hm_remove)

lemma snapshot_step_inv: "snapshot_step s s' \<Longrightarrow> snapshot_inv s \<Longrightarrow> snapshot_inv s'"
proof (induction rule: snapshot_step.induct)
  case (delete s i b s')
  then show ?case using snapshot_delete_inv [of s i] by simp
qed (auto simp: drain_for_uplink_def clear_expired_def Let_def snapshot_filter_inv intro: create_snapshot_inv)

lemma snapshot_reachable_inv:
  assumes "snapshot_step\<^sup>*\<^sup>* (snapshot_manager_new n ttl) s"
  shows "snapshot_inv s"
  using assms
proof (induction rule: rtranclp_induct)
  case base
  show ?case by (simp add: snapshot_manager_new_def snapshot_inv_def)
next
  case (step y z)
  then show ?case using snapshot_step_inv by blast
qed

lemma create_lookup:
  "create_snapshot now s ms p dev = (i, s') \<Longrightarrow>
   i = generate_snapshot_id ms p \<and>
   map_of (sm_map s') i = Some \<lparr>sn_id = i, sn_messages = ms, sn_protocol = p, sn_created_at = now,
     sn_size_bytes = sum_list (map message_size ms), sn_device_id = dev\<rparr> \<and>
   sm_snapshot_ttl s' = sm_snapshot_ttl s"
  by (auto simp: create_snapshot_def Let_def)

text \<open>
  A stale key left by a deletion makes a later snapshot with the same identifier the first
  candidate for eviction: after creating \<open>a\<close>, deleting it, creating \<open>b\<close> and then
  \<open>a\<close> again in a store of two, the next creation evicts the new \<open>a\<close> and keeps the
  older \<open>b\<close>.
\<close>

lemma stale_key_evicts_newest:
  assumes ids: "generate_snapshot_id a p = ia" "generate_snapshot_id b p = ib" "generate_snapshot_id c p = ic"
    and ne: "ia \<noteq> ib" "ia \<noteq> ic" "ib \<noteq> ic"
    and "s1 = snd (create_snapshot t1 (snapshot_manager_new 2 ttl) a p d)"
    and "s2 = snd (delete_snapshot s1 ia)"
    and "s3 = snd (create_snapshot t2 s2 b p d)"
    and "s4 = snd (create_snapshot t3 s3 a p d)"
    and "s5 = snd (create_snapshot t4 s4 c p d)"
  shows "map_of (sm_map s5) ia = None \<and> map_of (sm_map s5) ib \<noteq> None"
  using ne assms(7-)
  by (simp add: create_snapshot_def delete_snapshot_def snapshot_manager_new_def evict_oldest_def Let_def ids)

section \<open>Properties\<close>

text \<open>
  In every state reachable by creating, draining, deleting and expiring snapshots the
  store holds at most the configured number (one when it is zero), and every stored snapshot
  still has its key in the eviction queue, so that none escapes eviction.
\<close>

lemma snapshot_reachable_ok:
  assumes "snapshot_step\<^sup>*\<^sup>* (snapshot_manager_new n ttl) s"
  shows "map_ok (sm_map s) \<and> set (keys (sm_map s)) \<subseteq> set (sm_order s) \<and>
         length (sm_map s) \<le> max 1 (sm_max_snapshots s)"
  using snapshot_reachable_inv [OF assms] by (simp add: snapshot_inv_def)

text \<open>
  A created snapshot is found again under the returned identifier, with its messages and
  their total size, until its age exceeds the time to live; and the identifier depends on the
  protocol and the payload bytes only, not on timestamps or priorities.
\<close>

lemma snapshot_create_get:
  assumes "create_snapshot now s ms p dev = (i, s')" and "now' - now \<le> ttl_ms s"
    and "map m_data ms' = map m_data ms"
  shows "get_snapshot now' s' i =
      Some \<lparr>sn_id = i, sn_messages = ms, sn_protocol = p, sn_created_at = now,
            sn_size_bytes = sum_list (map message_size ms), sn_device_id = dev\<rparr> \<and>
    generate_snapshot_id ms' p = i"
proof -
  have "hash_messages ms' p = hash_messages ms p"
    unfolding hash_messages_def foldl_map [symmetric, of _ _ m_data]
    by (metis assms(3) foldl_map)
  then have "generate_snapshot_id ms' p = generate_snapshot_id ms p"
    by (simp only: generate_snapshot_id_def)
  moreover note create_lookup [OF assms(1)]
  moreover from this have "ttl_ms s' = ttl_ms s" by (simp add: ttl_ms_def)
  ultimately show ?thesis using assms(2) by (auto simp: get_snapshot_def not_less)
qed

text \<open>
  Draining for an uplink takes out exactly the unexpired snapshots of the device since
  the given time, keeps all others, and nothing is sent twice: draining again at the same
  time returns nothing.
\<close>

lemma drain_exact:
  assumes "drain_for_uplink now s dev since = (xs, s')"
  shows "set xs = {x \<in> snd ` set (sm_map s).
            sn_device_id x = dev \<and> since \<le> sn_created_at x \<and> now - sn_created_at x < ttl_ms s} \<and>
         set (sm_map s') = {(k, x) \<in> set (sm_map s). x \<notin> set xs} \<and>
         fst (drain_for_uplink now s' dev since) = []"
proof -
  have "x \<in> snd ` S \<longleftrightarrow> (\<exists>k. (k, x) \<in> S)" for x and S :: "(string \<times> snapshot) set" by force
  then show ?thesis
    using assms by (auto simp: drain_for_uplink_def Let_def ttl_ms_def filter_empty_conv)
qed

text \<open>
  Keys of drained or deleted snapshots stay in the order queue until an eviction is
  needed: a device whose snapshots are created and removed \<open>n\<close> times leaves an empty map
  but a queue of length \<open>n\<close>, whatever the configured limit.
\<close>

lemma snapshot_order_grows:
  assumes "0 < sm_max_snapshots s" and "sm_map s = []"
  shows "sm_map (create_delete_rounds n now s ms p dev) = [] \<and>
         length (sm_order (create_delete_rounds n now s ms p dev)) = length (sm_order s) + n"
  using assms
proof (induction n arbitrary: s)
  case (Suc n)
  then show ?case by (simp add: create_snapshot_def delete_snapshot_def Let_def)
qed simp

lemma snapshot_order_grows_example:
  "length (sm_order (create_delete_rounds 1000 5 (snapshot_manager_new 4 60) [] VSAT 7)) = 1000"
  using snapshot_order_grows [of "snapshot_manager_new 4 60" 1000 5 "[]" VSAT 7]
  by (simp add: snapshot_manager_new_def)

end
