(* ===== verification/Batcher.thy ===== *)
theory Batcher
  imports Protocol
begin

text \<open>
  \<open>src/src/batcher.rs\<close> and \<open>src/src/transmission_batcher.rs\<close>: the two batching tasks. A
  task is a loop over the events its \<open>select!\<close> can take: a message received, or the timer
  of the current deadline. An event carries the clock when it is handled and the clock after
  the batch was handed over, which is what \<open>last_flush = Instant::now()\<close> reads. The
  output of a step is the list of batches sent on.
\<close>

section \<open>Events, state and the two loops\<close>

datatype batch_event = Recv (ev_msg: message) (ev_now: nat) (ev_after: nat) | Timer (ev_now: nat) (ev_after: nat)

record batcher_config =
  bc_max_batch_size :: nat
  bc_batch_timeout :: nat
  bc_spread_threshold_ms :: i64

record batcher_state =
  b_buffer :: "message list"
  b_last_flush :: nat

definition default_spread_flush_threshold_ms :: i64 where
  "default_spread_flush_threshold_ms = 30000"

definition batcher_start :: "nat \<Rightarrow> batcher_state" where
  "batcher_start now = \<lparr>b_buffer = [], b_last_flush = now\<rparr>"

definition should_flush :: "message list \<Rightarrow> i64 \<Rightarrow> bool" where
  "should_flush buffer threshold =
     (if length (filter (\<lambda>m. m_priority m = SafetyCritical) buffer) \<ge> 5 then True
      else list_ex (\<lambda>m. sint (spread_ms m) > sint threshold) buffer)"

fun async_batcher_step :: "batcher_config \<Rightarrow> batcher_state \<Rightarrow> batch_event \<Rightarrow> batcher_state \<times> message list list" where
  "async_batcher_step cfg st (Recv msg now after) =
     (if is_emergency msg then (st, [[msg]])
      else let buffer = b_buffer st @ [msg] in
        if length buffer \<ge> bc_max_batch_size cfg \<or> now - b_last_flush st \<ge> bc_batch_timeout cfg
           \<or> should_flush buffer (bc_spread_threshold_ms cfg)
        then (\<lparr>b_buffer = [], b_last_flush = after\<rparr>, if buffer \<noteq> [] then [buffer] else [])
        else (st\<lparr>b_buffer := buffer\<rparr>, []))"
| "async_batcher_step cfg st (Timer now after) =
     (if b_buffer st \<noteq> [] then (\<lparr>b_buffer = [], b_last_flush = after\<rparr>, [b_buffer st]) else (st, []))"

text \<open>\<open>None => break\<close>: the task ends and its buffer is dropped.\<close>

definition async_batcher_close :: "batcher_state \<Rightarrow> message list list" where
  "async_batcher_close st = []"

fun transmission_batcher_step :: "batcher_config \<Rightarrow> batcher_state \<Rightarrow> batch_event \<Rightarrow> batcher_state \<times> message list list" where
  "transmission_batcher_step cfg st (Recv msg now after) =
     (let buffer = b_buffer st @ [msg] in
      if length buffer \<ge> bc_max_batch_size cfg \<or> now - b_last_flush st \<ge> bc_batch_timeout cfg
      then (\<lparr>b_buffer = [], b_last_flush = after\<rparr>, [buffer])
      else (st\<lparr>b_buffer := buffer\<rparr>, []))"
| "transmission_batcher_step cfg st (Timer now after) =
     (if b_buffer st \<noteq> [] then (\<lparr>b_buffer = [], b_last_flush = after\<rparr>, [b_buffer st]) else (st, []))"

text \<open>\<open>None\<close>: flush what remains and exit.\<close>

definition transmission_batcher_close :: "batcher_state \<Rightarrow> message list list" where
  "transmission_batcher_close st = (if b_buffer st \<noteq> [] then [b_buffer st] else [])"

text \<open>The timer branch can be taken once the deadline \<open>last_flush + batch_timeout\<close> has passed.\<close>

fun event_enabled :: "batcher_config \<Rightarrow> batcher_state \<Rightarrow> batch_event \<Rightarrow> bool" where
  "event_enabled cfg st (Recv m now after) = True"
| "event_enabled cfg st (Timer now after) = (b_last_flush st + bc_batch_timeout cfg \<le> now)"

text \<open>A run of a loop over a sequence of events.\<close>

fun run_batcher :: "('s \<Rightarrow> 'e \<Rightarrow> 's \<times> 'm list list) \<Rightarrow> 's \<Rightarrow> 'e list \<Rightarrow> 's \<times> 'm list list" where
  "run_batcher step st [] = (st, [])"
| "run_batcher step st (e # es) =
     (case step st e of (st, out) \<Rightarrow> (case run_batcher step st es of (st, outs) \<Rightarrow> (st, out @ outs)))"

fun received :: "batch_event \<Rightarrow> message list" where
  "received (Recv m now after) = [m]"
| "received (Timer now after) = []"

section \<open>Invariants\<close>

definition async_inv :: "batcher_config \<Rightarrow> batcher_state \<Rightarrow> bool" where
  "async_inv cfg st \<longleftrightarrow> length (b_buffer st) < max 1 (bc_max_batch_size cfg) \<and>
     \<not> should_flush (b_buffer st) (bc_spread_threshold_ms cfg) \<and> list_all (\<lambda>m. \<not> is_emergency m) (b_buffer st)"

definition async_batch_ok :: "batcher_config \<Rightarrow> message list \<Rightarrow> bool" where
  "async_batch_ok cfg b \<longleftrightarrow> (\<exists>m. is_emergency m \<and> b = [m]) \<or>
     b \<noteq> [] \<and> length b \<le> max 1 (bc_max_batch_size cfg) \<and> list_all (\<lambda>m. \<not> is_emergency m) b"

definition transmission_inv :: "batcher_config \<Rightarrow> batcher_state \<Rightarrow> bool" where
  "transmission_inv cfg st \<longleftrightarrow> length (b_buffer st) < max 1 (bc_max_batch_size cfg)"

section \<open>The contract of a batching loop\<close>

text \<open>
  A batching loop conserves the messages it is responsible for (those satisfying \<open>P\<close>): what
  a step sends on followed by what it keeps is what was kept before followed by what came in.
\<close>

locale coalescer =
  fixes step :: "'s \<Rightarrow> 'e \<Rightarrow> 's \<times> 'm list list" and buf :: "'s \<Rightarrow> 'm list"
    and inp :: "'e \<Rightarrow> 'm list" and P :: "'m \<Rightarrow> bool"
  assumes conserve: "step s e = (s', out) \<Longrightarrow>
     filter P (concat out) @ filter P (buf s') = filter P (buf s) @ filter P (inp e)"
begin

lemma run_conserve:
  "run_batcher step s es = (s', outs) \<Longrightarrow>
   filter P (concat outs) @ filter P (buf s') = filter P (buf s) @ filter P (concat (map inp es))"
proof (induction es arbitrary: s outs)
  case (Cons e es)
  obtain s1 out1 where s1: "step s e = (s1, out1)" by fastforce
  then obtain out2 where s2: "run_batcher step s1 es = (s', out2)" and o: "outs = out1 @ out2"
    using Cons.prems by (auto split: prod.splits)
  from Cons.IH [OF s2] conserve [OF s1] show ?case
    unfolding o by simp
qed simp

end

interpretation async_coalescer:
  coalescer "async_batcher_step cfg" b_buffer received "\<lambda>m. \<not> is_emergency m" for cfg
proof unfold_locales
  fix s s' :: batcher_state and e and out :: "message list list"
  assume "async_batcher_step cfg s e = (s', out)"
  then show "filter (\<lambda>m. \<not> is_emergency m) (concat out) @ filter (\<lambda>m. \<not> is_emergency m) (b_buffer s') =
      filter (\<lambda>m. \<not> is_emergency m) (b_buffer s) @ filter (\<lambda>m. \<not> is_emergency m) (received e)"
    by (cases e) (auto simp: Let_def split: if_splits)
qed

interpretation transmission_coalescer:
  coalescer "transmission_batcher_step cfg" b_buffer received "\<lambda>m. True" for cfg
proof unfold_locales
  fix s s' :: batcher_state and e and out :: "message list list"
  assume "transmission_batcher_step cfg s e = (s', out)"
  then show "filter (\<lambda>m. True) (concat out) @ filter (\<lambda>m. True) (b_buffer s') =
      filter (\<lambda>m. True) (b_buffer s) @ filter (\<lambda>m. True) (received e)"
    by (cases e) (auto simp: Let_def split: if_splits)
qed

lemma async_step_inv:
  assumes "async_inv cfg st" and "async_batcher_step cfg st e = (st', out)"
  shows "async_inv cfg st' \<and> (\<forall>b\<in>set out. async_batch_ok cfg b) \<and>
     filter is_emergency (concat out) = filter is_emergency (received e)"
proof (cases e)
  case (Recv m now after)
  show ?thesis
    using assms unfolding Recv
    by (auto simp: Let_def async_inv_def async_batch_ok_def should_flush_def list_all_iff filter_empty_conv
        split: if_splits)
next
  case (Timer now after)
  show ?thesis
    using assms unfolding Timer
    by (auto simp: async_inv_def async_batch_ok_def should_flush_def list_all_iff filter_empty_conv
        split: if_splits)
qed

lemma async_run_inv:
  "async_inv cfg st \<Longrightarrow> run_batcher (async_batcher_step cfg) st es = (st', outs) \<Longrightarrow>
   async_inv cfg st' \<and> (\<forall>b\<in>set outs. async_batch_ok cfg b) \<and>
   filter is_emergency (concat outs) = filter is_emergency (concat (map received es))"
proof (induction es arbitrary: st outs)
  case (Cons e es)
  obtain st1 out1 where s1: "async_batcher_step cfg st e = (st1, out1)" by fastforce
  then obtain out2 where s2: "run_batcher (async_batcher_step cfg) st1 es = (st', out2)"
    and o: "outs = out1 @ out2" using Cons.prems by (auto split: prod.splits)
  from async_step_inv [OF Cons.prems(1) s1] Cons.IH [OF _ s2] o show ?case by auto
qed simp

lemma transmission_step_inv:
  assumes "transmission_inv cfg st" and "transmission_batcher_step cfg st e = (st', out)"
  shows "transmission_inv cfg st' \<and> (\<forall>b\<in>set out. b \<noteq> [] \<and> length b \<le> max 1 (bc_max_batch_size cfg))"
  using assms by (cases e) (auto simp: Let_def transmission_inv_def split: if_splits)

lemma transmission_run_inv:
  "transmission_inv cfg st \<Longrightarrow> run_batcher (transmission_batcher_step cfg) st es = (st', outs) \<Longrightarrow>
   transmission_inv cfg st' \<and> (\<forall>b\<in>set outs. b \<noteq> [] \<and> length b \<le> max 1 (bc_max_batch_size cfg))"
proof (induction es arbitrary: st outs)
  case (Cons e es)
  obtain st1 out1 where s1: "transmission_batcher_step cfg st e = (st1, out1)" by fastforce
  then obtain out2 where s2: "run_batcher (transmission_batcher_step cfg) st1 es = (st', out2)"
    and o: "outs = out1 @ out2" using Cons.prems by (auto split: prod.splits)
  from transmission_step_inv [OF Cons.prems(1) s1] Cons.IH [OF _ s2] o show ?case by auto
qed simp

lemma async_start_inv: "async_inv cfg (batcher_start now)"
  by (simp add: async_inv_def batcher_start_def should_flush_def)

section \<open>Properties\<close>

text \<open>
  C16. The batching loop loses, duplicates and reorders nothing while it runs: over any
  sequence of events the non-emergency messages sent on, followed by the buffer, are the
  non-emergency messages received, in order, and every emergency message leaves at once in a
  batch of its own. Between events the buffer holds fewer messages than the batch size and
  none that asks for a flush.
\<close>

theorem async_batcher_correct:
  assumes "run_batcher (async_batcher_step cfg) (batcher_start t0) es = (st, outs)"
  shows "filter (\<lambda>m. \<not> is_emergency m) (concat outs) @ b_buffer st =
           filter (\<lambda>m. \<not> is_emergency m) (concat (map received es)) \<and>
         filter is_emergency (concat outs) = filter is_emergency (concat (map received es)) \<and>
         (\<forall>b\<in>set outs. async_batch_ok cfg b) \<and>
         length (b_buffer st) < max 1 (bc_max_batch_size cfg) \<and>
         \<not> should_flush (b_buffer st) (bc_spread_threshold_ms cfg)"
proof -
  note inv = async_run_inv [OF async_start_inv assms]
  then have "filter (\<lambda>m. \<not> is_emergency m) (b_buffer st) = b_buffer st"
    by (simp add: async_inv_def list_all_iff filter_id_conv)
  with async_coalescer.run_conserve [OF assms] inv show ?thesis
    by (simp add: batcher_start_def async_inv_def)
qed

theorem async_batcher_correct_witness:
  "let m = message_new 5 VSAT [1] Operational; em = message_new 6 VSAT [2] Emergency;
       cfg = \<lparr>bc_max_batch_size = 2, bc_batch_timeout = 50, bc_spread_threshold_ms = 30000\<rparr>;
       (st, outs) = run_batcher (async_batcher_step cfg) (batcher_start 0) [Recv m 1 1, Recv em 2 2]
   in filter is_emergency (concat outs) = [em] \<and>
      filter (\<lambda>m. \<not> is_emergency m) (concat outs) @ b_buffer st = [m]"
proof -
  let ?m = "message_new 5 VSAT [1] Operational" and ?em = "message_new 6 VSAT [2] Emergency"
  let ?cfg = "\<lparr>bc_max_batch_size = 2, bc_batch_timeout = 50, bc_spread_threshold_ms = 30000\<rparr>"
  obtain st outs where r: "run_batcher (async_batcher_step ?cfg) (batcher_start 0) [Recv ?m 1 1, Recv ?em 2 2] = (st, outs)"
    by fastforce
  from async_batcher_correct [OF r] r show ?thesis by (simp add: is_emergency_def Let_def)
qed

text \<open>
  The transmission batcher delivers everything: when its channel closes, the batches sent
  over its whole life, the final flush included, concatenate to the messages received, in
  order, in non-empty batches no larger than the batch size.
\<close>

lemma transmission_delivers_all:
  assumes "run_batcher (transmission_batcher_step cfg) (batcher_start t0) es = (st, outs)"
  shows "concat (outs @ transmission_batcher_close st) = concat (map received es) \<and>
         (\<forall>b\<in>set (outs @ transmission_batcher_close st). b \<noteq> [] \<and> length b \<le> max 1 (bc_max_batch_size cfg))"
proof -
  have "transmission_inv cfg (batcher_start t0)" by (simp add: transmission_inv_def batcher_start_def)
  from transmission_run_inv [OF this assms] transmission_coalescer.run_conserve [OF assms] show ?thesis
    by (auto simp: transmission_batcher_close_def batcher_start_def transmission_inv_def)
qed

text \<open>
  The translation batcher does not flush on close: the non-emergency messages that are
  never sent on are exactly those in its buffer when the channel closes.
\<close>

lemma async_close_drops_buffer:
  assumes "run_batcher (async_batcher_step cfg) (batcher_start t0) es = (st, outs)"
  shows "filter (\<lambda>m. \<not> is_emergency m) (concat (outs @ async_batcher_close st)) @ b_buffer st =
         filter (\<lambda>m. \<not> is_emergency m) (concat (map received es))"
proof -
  have "filter (\<lambda>m. \<not> is_emergency m) (b_buffer st) = b_buffer st"
    using async_run_inv [OF async_start_inv assms] by (simp add: async_inv_def list_all_iff filter_id_conv)
  with async_coalescer.run_conserve [OF assms] show ?thesis
    by (simp add: batcher_start_def async_batcher_close_def)
qed

lemma async_close_drops_buffer_example:
  "let m = message_new 5 VSAT [1] Operational;
       cfg = \<lparr>bc_max_batch_size = 2, bc_batch_timeout = 50, bc_spread_threshold_ms = 30000\<rparr>;
       (st, outs) = run_batcher (async_batcher_step cfg) (batcher_start 0) [Recv m 1 1]
   in concat (outs @ async_batcher_close st) = [] \<and> b_buffer st = [m]"
proof -
  let ?m = "message_new 5 VSAT [1] Operational"
  let ?cfg = "\<lparr>bc_max_batch_size = 2, bc_batch_timeout = 50, bc_spread_threshold_ms = 30000\<rparr>"
  have r: "run_batcher (async_batcher_step ?cfg) (batcher_start 0) [Recv ?m 1 1] =
      (\<lparr>b_buffer = [?m], b_last_flush = 0\<rparr>, [])"
    by (simp add: batcher_start_def is_emergency_def should_flush_def spread_ms_def)
  show ?thesis
    unfolding Let_def r using async_close_drops_buffer [OF r] by (simp add: async_batcher_close_def)
qed

text \<open>
  An idle batcher spins: once the deadline has passed with an empty buffer, the timer
  branch can be taken again and again, at every later time, and changes nothing.
\<close>

lemma batcher_idle_spins:
  assumes "b_buffer st = []" and "event_enabled cfg st (Timer now after)" and "now \<le> now'"
  shows "async_batcher_step cfg st (Timer now after) = (st, []) \<and>
         transmission_batcher_step cfg st (Timer now after) = (st, []) \<and>
         event_enabled cfg st (Timer now' after')"
  using assms by simp

lemma batcher_idle_spins_example:
  "async_batcher_step \<lparr>bc_max_batch_size = 2, bc_batch_timeout = 50, bc_spread_threshold_ms = 0\<rparr>
     (batcher_start 0) (Timer 50 50) = (batcher_start 0, [])"
  using batcher_idle_spins [of "batcher_start 0"
      "\<lparr>bc_max_batch_size = 2, bc_batch_timeout = 50, bc_spread_threshold_ms = 0\<rparr>" 50 50 60]
  by (simp add: batcher_start_def)

end
