(* ===== verification/Reliability.thy ===== *)
theory Reliability
  imports Prelude Floats "HOL-Library.Multiset"
begin

text \<open>
  \<open>src/src/reliability.rs\<close>: circuit breaker, retry policy and health checker. Durations are
  natural numbers of nanoseconds; the milliseconds since startup that the code reads from its
  static start time are an argument of the operations. A circuit-breaker call is split at its
  \<open>await\<close> into admission and completion, so that calls can overlap.
\<close>

section \<open>Time\<close>

definition elapsed_since_startup :: "u64 \<Rightarrow> u64 \<Rightarrow> u64" where
  "elapsed_since_startup startup now =
     (if startup = 0 then 0 else if now < startup then 0 else now - startup)"

text \<open>The start-up time is a global that the two initialisers set from the system clock.\<close>

definition init_startup_time :: "u64 \<Rightarrow> u64 \<Rightarrow> u64" where
  "init_startup_time now startup = now"

definition ensure_startup_time_initialized :: "u64 \<Rightarrow> u64 \<Rightarrow> u64" where
  "ensure_startup_time_initialized now startup = (if startup = 0 then init_startup_time now startup else startup)"

definition from_millis :: "u64 \<Rightarrow> nat" where
  "from_millis n = unat n * 1000000"

definition as_millis :: "nat \<Rightarrow> nat" where
  "as_millis d = d div 1000000"

section \<open>Circuit breaker\<close>

datatype circuit_state = Closed | Open | HalfOpen

record circuit_breaker =
  cb_state :: circuit_state
  cb_failure_count :: u32
  cb_last_failure_time :: u64
  cb_failure_threshold :: u32
  cb_recovery_timeout :: nat
  cb_half_open_calls :: u32

datatype 'e circuit_breaker_error = OpenErr | Inner 'e

definition circuit_breaker_new :: "u32 \<Rightarrow> nat \<Rightarrow> circuit_breaker" where
  "circuit_breaker_new threshold timeout =
     \<lparr>cb_state = Closed, cb_failure_count = 0, cb_last_failure_time = 0,
      cb_failure_threshold = threshold, cb_recovery_timeout = timeout, cb_half_open_calls = 0\<rparr>"

definition on_success :: "circuit_breaker \<Rightarrow> circuit_breaker" where
  "on_success cb = cb\<lparr>cb_failure_count := 0, cb_state := Closed\<rparr>"

definition on_failure :: "u64 \<Rightarrow> circuit_breaker \<Rightarrow> circuit_breaker" where
  "on_failure t cb =
     (let count = cb_failure_count cb + 1;
          cb = cb\<lparr>cb_failure_count := count, cb_last_failure_time := t\<rparr>
      in if count \<ge> cb_failure_threshold cb then cb\<lparr>cb_state := Open\<rparr> else cb)"

text \<open>
  Admission of a call, up to \<open>f.await\<close>: \<open>None\<close> is the early return with the error
  \<open>Open\<close>, \<open>Some state\<close> admits the call, which keeps the state it loaded.
\<close>

definition call_begin :: "u64 \<Rightarrow> circuit_breaker \<Rightarrow> circuit_state option \<times> circuit_breaker" where
  "call_begin t cb =
     (let state = cb_state cb in
      if state = Open \<and> \<not> from_millis (t - cb_last_failure_time cb) > cb_recovery_timeout cb
      then (None, cb)
      else
        let cb = (if state = Open then cb\<lparr>cb_state := HalfOpen\<rparr> else cb) in
        if state = HalfOpen
        then (let old = cb_half_open_calls cb; cb = cb\<lparr>cb_half_open_calls := old + 1\<rparr>
              in if old > 0 then (None, cb\<lparr>cb_half_open_calls := cb_half_open_calls cb - 1\<rparr>)
                 else (Some state, cb))
        else (Some state, cb))"

text \<open>Completion of an admitted call, with the outcome of the future.\<close>

definition call_end :: "u64 \<Rightarrow> circuit_state \<Rightarrow> ('e + 'a) \<Rightarrow> circuit_breaker \<Rightarrow>
    ('e circuit_breaker_error + 'a) \<times> circuit_breaker" where
  "call_end t state outcome cb =
     (let leave = (\<lambda>cb. if state = HalfOpen then cb\<lparr>cb_half_open_calls := cb_half_open_calls cb - 1\<rparr> else cb)
      in case outcome of
           Inr v \<Rightarrow> (Inr v, leave (on_success cb))
         | Inl err \<Rightarrow> (Inl (Inner err), leave (on_failure t cb)))"

text \<open>A call that does not overlap with others, admitted at \<open>t1\<close> and completed at \<open>t2\<close>.\<close>

definition circuit_call :: "u64 \<Rightarrow> u64 \<Rightarrow> ('e + 'a) \<Rightarrow> circuit_breaker \<Rightarrow>
    ('e circuit_breaker_error + 'a) \<times> circuit_breaker" where
  "circuit_call t1 t2 outcome cb =
     (case call_begin t1 cb of
        (None, cb) \<Rightarrow> (Inl OpenErr, cb)
      | (Some state, cb) \<Rightarrow> call_end t2 state outcome cb)"

definition circuit_is_open :: "circuit_breaker \<Rightarrow> bool" where
  "circuit_is_open cb \<longleftrightarrow> cb_state cb = Open"

text \<open>
  Overlapping calls: a configuration is the breaker and the loaded states of the calls in
  flight; a step admits, rejects or completes one call.
\<close>

type_synonym breaker_config = "circuit_breaker \<times> circuit_state multiset"

inductive breaker_step :: "breaker_config \<Rightarrow> breaker_config \<Rightarrow> bool" where
  admit: "call_begin t cb = (Some s, cb') \<Longrightarrow> breaker_step (cb, calls) (cb', add_mset s calls)"
| reject: "call_begin t cb = (None, cb') \<Longrightarrow> breaker_step (cb, calls) (cb', calls)"
| complete: "s \<in># calls \<Longrightarrow> call_end t s (outcome :: unit + unit) cb = (r, cb') \<Longrightarrow>
     breaker_step (cb, calls) (cb', calls - {#s#})"

text \<open>Repeated failing calls, one after the other, each with its two clock readings.\<close>

fun failing_calls :: "(u64 \<times> u64) list \<Rightarrow> 'e \<Rightarrow> circuit_breaker \<Rightarrow> circuit_breaker" where
  "failing_calls [] err cb = cb"
| "failing_calls ((t1, t2) # ts) err cb =
     failing_calls ts err (snd (circuit_call t1 t2 (Inl err :: 'e + unit) cb))"

section \<open>Retry policy\<close>

record 'f retry_policy =
  rp_max_attempts :: u32
  rp_base_delay :: nat
  rp_max_delay :: nat
  rp_backoff_factor :: 'f

definition retry_policy_new :: "'f f64_ops \<Rightarrow> u32 \<Rightarrow> nat \<Rightarrow> 'f retry_policy" where
  "retry_policy_new F n d =
     \<lparr>rp_max_attempts = n, rp_base_delay = d, rp_max_delay = 30000000000, rp_backoff_factor = f_of_rat F 2\<rparr>"

text \<open>\<open>as u64\<close> on a float saturates.\<close>

definition next_delay :: "'f f64_ops \<Rightarrow> 'f retry_policy \<Rightarrow> nat \<Rightarrow> nat" where
  "next_delay F pol delay =
     min (min (f_to_nat F (f_mul F (f_of_nat F (as_millis delay)) (rp_backoff_factor pol))) (2 ^ 64 - 1) * 1000000)
         (rp_max_delay pol)"

text \<open>
  The loop of \<open>execute\<close>: \<open>outcomes k\<close> is the result of the \<open>k\<close>-th call of the
  closure. The result is the returned value, the number of calls and the delays slept.
\<close>

function retry_loop :: "'f f64_ops \<Rightarrow> 'f retry_policy \<Rightarrow> (nat \<Rightarrow> 'e + 'a) \<Rightarrow> nat \<Rightarrow> nat \<Rightarrow> ('e + 'a) \<times> nat \<times> nat list" where
  "retry_loop F pol outcomes attempt delay =
     (let attempt = attempt + 1 in
      case outcomes attempt of
        Inr v \<Rightarrow> (Inr v, attempt, [])
      | Inl err \<Rightarrow>
          if attempt \<ge> unat (rp_max_attempts pol) then (Inl err, attempt, [])
          else (case retry_loop F pol outcomes attempt (next_delay F pol delay) of
                  (r, n, ds) \<Rightarrow> (r, n, delay # ds)))"
  by pat_completeness auto
termination
  by (relation "measure (\<lambda>(F, pol, outcomes, attempt, delay). unat (rp_max_attempts pol) - attempt)") auto

declare retry_loop.simps [simp del]

definition retry_execute :: "'f f64_ops \<Rightarrow> 'f retry_policy \<Rightarrow> (nat \<Rightarrow> 'e + 'a) \<Rightarrow> ('e + 'a) \<times> nat \<times> nat list" where
  "retry_execute F pol outcomes = retry_loop F pol outcomes 0 (rp_base_delay pol)"

section \<open>Health checker\<close>

record health_checker =
  hc_last_check :: u64
  hc_check_interval :: nat

definition health_checker_new :: "nat \<Rightarrow> health_checker" where
  "health_checker_new d = \<lparr>hc_last_check = 0, hc_check_interval = d\<rparr>"

text \<open>One round of the spawned loop, at \<open>t\<close> ms since startup; the next is five seconds later.\<close>

definition health_round :: "bool \<Rightarrow> u64 \<Rightarrow> health_checker \<Rightarrow> health_checker" where
  "health_round ok t hc = (if ok then hc\<lparr>hc_last_check := t\<rparr> else hc)"

definition health_round_pause :: nat where
  "health_round_pause = 5000000000"

text \<open>\<open>inst\<close> is \<open>Instant::now()\<close>; subtracting a longer duration from it panics.\<close>

definition last_check_time :: "nat \<Rightarrow> u64 \<Rightarrow> health_checker \<Rightarrow> nat option exec" where
  "last_check_time inst t hc =
     (if hc_last_check hc = 0 then ret None
      else let d = from_millis (t - hc_last_check hc)
           in if inst < d then panic else ret (Some (inst - d)))"

definition is_healthy :: "nat \<Rightarrow> u64 \<Rightarrow> nat \<Rightarrow> health_checker \<Rightarrow> bool exec" where
  "is_healthy inst t inst' hc = do {
     l \<leftarrow> last_check_time inst t hc;
     ret (case l of Some prev \<Rightarrow> inst' - prev < hc_check_interval hc * 2 | None \<Rightarrow> False) }"

section \<open>Invariant\<close>

fun breaker_inv :: "breaker_config \<Rightarrow> bool" where
  "breaker_inv (cb, calls) \<longleftrightarrow>
     count calls HalfOpen \<le> 1 \<and> cb_half_open_calls cb = word_of_nat (count calls HalfOpen)"

inductive_cases breaker_stepE: "breaker_step (cb, calls) c"

section \<open>Lemmas\<close>

lemma call_begin_cases:
  "call_begin t cb =
     (case cb_state cb of
        Closed \<Rightarrow> (Some Closed, cb)
      | Open \<Rightarrow> if from_millis (t - cb_last_failure_time cb) > cb_recovery_timeout cb
               then (Some Open, cb\<lparr>cb_state := HalfOpen\<rparr>) else (None, cb)
      | HalfOpen \<Rightarrow> if cb_half_open_calls cb > 0 then (None, cb)
                   else (Some HalfOpen, cb\<lparr>cb_half_open_calls := cb_half_open_calls cb + 1\<rparr>))"
  by (cases "cb_state cb") (simp_all add: call_begin_def Let_def)

lemma on_failure_half_open [simp]: "cb_half_open_calls (on_failure t cb) = cb_half_open_calls cb"
  by (simp add: on_failure_def Let_def)

lemma on_success_half_open [simp]: "cb_half_open_calls (on_success cb) = cb_half_open_calls cb"
  by (simp add: on_success_def)

lemma call_end_half_open:
  "call_end t s outcome cb = (r, cb') \<Longrightarrow>
   cb_half_open_calls cb' = (if s = HalfOpen then cb_half_open_calls cb - 1 else cb_half_open_calls cb)"
  by (auto simp: call_end_def Let_def split: sum.splits)

lemma breaker_step_inv:
  assumes "breaker_step c c'" and "breaker_inv c"
  shows "breaker_inv c'"
  using assms
proof (induction rule: breaker_step.induct)
  case (admit t cb s cb' calls)
  have "count calls HalfOpen = 0 \<or> count calls HalfOpen = 1" using admit.prems by auto
  with admit show ?case by (auto simp: call_begin_cases split: circuit_state.splits if_splits)
next
  case (reject t cb cb' calls)
  then show ?case by (auto simp: call_begin_cases split: circuit_state.splits if_splits)
next
  case (complete s calls t outcome cb r cb')
  show ?case
  proof (cases "s = HalfOpen")
    case True
    with complete.hyps(1) complete.prems have "count calls HalfOpen = 1"
      by (simp add: not_in_iff le_Suc_eq flip: count_greater_zero_iff)
    with True complete.prems call_end_half_open [OF complete.hyps(2)] show ?thesis by simp
  next
    case False
    with complete.prems call_end_half_open [OF complete.hyps(2)] show ?thesis by simp
  qed
qed

lemma breaker_reachable_inv:
  assumes "breaker_step\<^sup>*\<^sup>* (circuit_breaker_new n d, {#}) c"
  shows "breaker_inv c"
  using assms
proof (induction rule: rtranclp_induct)
  case base
  show ?case by (simp add: circuit_breaker_new_def)
next
  case (step y z)
  then show ?case using breaker_step_inv by blast
qed

lemma failing_call_closed:
  assumes "cb_state cb = Closed"
  shows "snd (circuit_call t1 t2 (Inl err :: 'e + unit) cb) = on_failure t2 cb"
  using assms by (simp add: circuit_call_def call_begin_cases call_end_def Let_def)

lemma on_failure_fields [simp]:
  "cb_failure_count (on_failure t cb) = cb_failure_count cb + 1"
  "cb_failure_threshold (on_failure t cb) = cb_failure_threshold cb"
  "cb_state (on_failure t cb) =
     (if cb_failure_threshold cb \<le> cb_failure_count cb + 1 then Open else cb_state cb)"
  by (simp_all add: on_failure_def Let_def)

lemma failing_calls_below:
  assumes "cb_state cb = Closed" and "unat (cb_failure_count cb) + length ts < unat (cb_failure_threshold cb)"
  shows "cb_state (failing_calls ts err cb) = Closed \<and>
    unat (cb_failure_count (failing_calls ts err cb)) = unat (cb_failure_count cb) + length ts \<and>
    cb_failure_threshold (failing_calls ts err cb) = cb_failure_threshold cb"
  using assms
proof (induction ts arbitrary: cb)
  case (Cons t ts)
  obtain t1 t2 where t: "t = (t1, t2)" by fastforce
  have bound: "unat (cb_failure_count cb) + 1 < 2 ^ 32"
    using Cons.prems(2) unat_less_size [of "cb_failure_threshold cb"] by simp
  then have up: "unat (cb_failure_count cb + 1) = unat (cb_failure_count cb) + 1"
    by (simp add: unat_word_ariths)
  moreover have "\<not> cb_failure_threshold cb \<le> cb_failure_count cb + 1"
    using Cons.prems(2) by (simp add: word_le_nat_alt up)
  ultimately show ?case
    using Cons.IH [of "on_failure t2 cb"] Cons.prems by (simp add: t failing_call_closed)
qed simp

lemma retry_loop_bounds:
  assumes "retry_loop F pol outcomes attempt delay = (r, n, ds)"
  shows "attempt < n \<and> n \<le> max (attempt + 1) (unat (rp_max_attempts pol)) \<and>
    r = outcomes n \<and> (\<forall>k. attempt < k \<and> k < n \<longrightarrow> (\<exists>err. outcomes k = Inl err)) \<and>
    ((\<exists>v. r = Inr v) \<or> unat (rp_max_attempts pol) \<le> n) \<and>
    length ds = n - attempt - 1 \<and> (\<forall>d\<in>set (tl ds). d \<le> rp_max_delay pol) \<and>
    (ds \<noteq> [] \<longrightarrow> hd ds = delay)"
  using assms
proof (induction F pol outcomes attempt delay arbitrary: r n ds rule: retry_loop.induct)
  case (1 F pol outcomes attempt delay)
  show ?case
  proof (cases "outcomes (attempt + 1)")
    case (Inr v)
    with "1.prems" have "r = Inr v" "n = attempt + 1" "ds = []"
      by (subst (asm) retry_loop.simps, simp)+
    with Inr show ?thesis by auto
  next
    case (Inl err)
    show ?thesis
    proof (cases "attempt + 1 \<ge> unat (rp_max_attempts pol)")
      case True
      with Inl "1.prems" have "r = Inl err" "n = attempt + 1" "ds = []"
        by (subst (asm) retry_loop.simps, simp)+
      with Inl True show ?thesis by auto
    next
      case False
      obtain r' n' ds' where rec: "retry_loop F pol outcomes (attempt + 1) (next_delay F pol delay) = (r', n', ds')"
        using prod_cases3 by blast
      from "1.prems" Inl False rec have eqs: "r = r'" "n = n'" "ds = delay # ds'"
        by (subst (asm) retry_loop.simps, simp)+
      have ih: "attempt + 1 < n' \<and> n' \<le> max (attempt + 1 + 1) (unat (rp_max_attempts pol)) \<and>
          r' = outcomes n' \<and> (\<forall>k. attempt + 1 < k \<and> k < n' \<longrightarrow> (\<exists>err. outcomes k = Inl err)) \<and>
          ((\<exists>v. r' = Inr v) \<or> unat (rp_max_attempts pol) \<le> n') \<and> length ds' = n' - (attempt + 1) - 1 \<and>
          (\<forall>d\<in>set (tl ds'). d \<le> rp_max_delay pol) \<and> (ds' \<noteq> [] \<longrightarrow> hd ds' = next_delay F pol delay)"
        by (rule "1.IH" [OF refl Inl _ rec]) (use False in simp)
      have "\<exists>err. outcomes k = Inl err" if "attempt < k" "k < n'" for k
        using that ih Inl by (cases "k = attempt + 1") auto
      moreover have "\<forall>d\<in>set ds'. d \<le> rp_max_delay pol"
        using ih by (cases ds') (auto simp: next_delay_def)
      ultimately show ?thesis using ih False by (auto simp: eqs)
    qed
  qed
qed

section \<open>Properties\<close>

text \<open>
  A closed breaker with a clean record opens exactly at the threshold: after fewer
  consecutive failing calls it is still closed and has counted each of them, and the failing
  call that reaches the threshold opens it.
\<close>

lemma breaker_opens_at_threshold:
  assumes "length ts < unat n"
  shows "cb_state (failing_calls ts err (circuit_breaker_new n d)) = Closed \<and>
    unat (cb_failure_count (failing_calls ts err (circuit_breaker_new n d))) = length ts \<and>
    (length ts + 1 = unat n \<longrightarrow>
       cb_state (snd (circuit_call t1 t2 (Inl err :: 'e + unit)
         (failing_calls ts err (circuit_breaker_new n d)))) = Open)"
proof -
  let ?cb = "failing_calls ts err (circuit_breaker_new n d)"
  have b: "cb_state ?cb = Closed" "unat (cb_failure_count ?cb) = length ts" "cb_failure_threshold ?cb = n"
    using failing_calls_below [of "circuit_breaker_new n d" ts err] assms
    by (simp_all add: circuit_breaker_new_def)
  moreover have "n \<le> cb_failure_count ?cb + 1" if "length ts + 1 = unat n"
  proof -
    have "unat (cb_failure_count ?cb + 1) = length ts + 1"
      using b(2) that unat_less_size [of n] by (simp add: unat_word_ariths)
    with that show ?thesis by (simp add: word_le_nat_alt)
  qed
  ultimately show ?thesis by (simp add: failing_call_closed)
qed

text \<open>
  While the recovery timeout has not passed since the last failure, an open breaker
  rejects every call without running it and without changing; after it, a successful call
  closes the breaker with a zero count, and a failed one, the count being at the threshold,
  opens it again from the time of that failure.
\<close>

lemma open_breaker_behaviour:
  assumes "cb_state cb = Open" and "cb_failure_threshold cb \<le> cb_failure_count cb + 1"
  shows "(if from_millis (t1 - cb_last_failure_time cb) \<le> cb_recovery_timeout cb
          then circuit_call t1 t2 outcome cb = (Inl OpenErr, cb)
          else case outcome of
                 Inr v \<Rightarrow> fst (circuit_call t1 t2 outcome cb) = Inr v \<and>
                          cb_state (snd (circuit_call t1 t2 outcome cb)) = Closed \<and>
                          cb_failure_count (snd (circuit_call t1 t2 outcome cb)) = 0
               | Inl err \<Rightarrow> fst (circuit_call t1 t2 outcome cb) = Inl (Inner err) \<and>
                          cb_state (snd (circuit_call t1 t2 outcome cb)) = Open \<and>
                          cb_last_failure_time (snd (circuit_call t1 t2 outcome cb)) = t2)"
  using assms
  by (auto simp: circuit_call_def call_begin_cases call_end_def on_success_def on_failure_def Let_def
      split: sum.splits)

text \<open>
  With any overlap of calls the half-open counter equals the number of admitted calls that
  loaded the half-open state, and there is never more than one of those.
\<close>

lemma half_open_counter_exact:
  assumes "breaker_step\<^sup>*\<^sup>* (circuit_breaker_new n d, {#}) (cb, calls)"
  shows "count calls HalfOpen \<le> 1 \<and> cb_half_open_calls cb = word_of_nat (count calls HalfOpen)"
  using breaker_reachable_inv [OF assms] by simp

text \<open>
  The limit of one trial call is not kept: the call that finds the breaker open after the
  timeout is admitted without being counted, so that a second call is admitted beside it
  before either completes.
\<close>

lemma half_open_admits_two:
  assumes "cb_state cb = Open" and "cb_half_open_calls cb = 0"
    and "cb_recovery_timeout cb < from_millis (t1 - cb_last_failure_time cb)"
  shows "\<exists>cb1 cb2. call_begin t1 cb = (Some Open, cb1) \<and> cb_state cb1 = HalfOpen \<and>
                   call_begin t2 cb1 = (Some HalfOpen, cb2)"
  using assms by (simp add: call_begin_cases)

lemma half_open_admits_two_example:
  "\<exists>cb1 cb2. call_begin 200 \<lparr>cb_state = Open, cb_failure_count = 5, cb_last_failure_time = 100,
       cb_failure_threshold = 5, cb_recovery_timeout = 30, cb_half_open_calls = 0\<rparr> = (Some Open, cb1) \<and>
     cb_state cb1 = HalfOpen \<and> call_begin 201 cb1 = (Some HalfOpen, cb2)"
  by (rule half_open_admits_two) (simp_all add: from_millis_def)

text \<open>
  Retrying ends: the closure is called at least once and at most \<open>max_attempts\<close> times
  (once when that is zero), it stops at the first success and otherwise returns the last
  error; there is one pause between consecutive calls, the first of the base delay and every
  later one of at most thirty seconds, whatever the rounding of the back-off arithmetic.
\<close>

lemma retry_execute_correct:
  assumes "retry_execute F (retry_policy_new F m base) outcomes = (r, n, ds)"
  shows "1 \<le> n \<and> n \<le> max 1 (unat m) \<and> r = outcomes n \<and>
    (\<forall>k. 1 \<le> k \<and> k < n \<longrightarrow> (\<exists>err. outcomes k = Inl err)) \<and>
    ((\<exists>v. r = Inr v) \<or> unat m \<le> n) \<and>
    length ds = n - 1 \<and> (ds \<noteq> [] \<longrightarrow> hd ds = base) \<and> (\<forall>d\<in>set (tl ds). d \<le> 30000000000)"
  using retry_loop_bounds [OF assms [unfolded retry_execute_def]]
  by (auto simp: retry_policy_new_def)

text \<open>
  The health checker pauses five seconds between rounds whatever its configured interval:
  with an interval of at most two and a half seconds it reports unhealthy just before the
  next round although the last check succeeded.
\<close>

lemma health_flaps:
  assumes "0 < t" and "unat t + 5000 < 2 ^ 64" and "hc_check_interval hc \<le> 2500000000"
    and "5000000000 \<le> inst" and "inst \<le> inst'"
  shows "is_healthy inst (t + 5000) inst' (health_round True t hc) = ret False"
proof -
  have "t + 5000 - t = 5000" by simp
  then have "from_millis (t + 5000 - t) = 5000000000" by (simp only: from_millis_def) simp
  with assms show ?thesis
    by (simp add: is_healthy_def last_check_time_def health_round_def word_neq_0_conv Let_def)
qed

lemma health_flaps_example:
  "is_healthy 9000000000 6000 9000000000 (health_round True 1000 (health_checker_new 1000000000)) = ret False"
  using health_flaps [of 1000 "health_checker_new 1000000000" 9000000000 9000000000]
  by (simp add: health_checker_new_def)

end
