(* ===== verification/Cadence.thy ===== *)
theory Cadence
  imports Protocol Floats
begin

text \<open>
  \<open>src/src/cadence_translation.rs\<close>: cadence rules and the rate limiters they use. Instants
  and durations are natural numbers of nanoseconds; the clock readings of a call are its
  arguments.
\<close>

section \<open>Data\<close>

datatype message_cadence =
  OncePerHour | OncePerMinute | OncePerSecond | Every5Seconds | Every10Seconds | Every30Seconds | Custom nat

fun to_duration :: "message_cadence \<Rightarrow> nat" where
  "to_duration OncePerHour = 3600 * 10 ^ 9"
| "to_duration OncePerMinute = 60 * 10 ^ 9"
| "to_duration OncePerSecond = 10 ^ 9"
| "to_duration Every5Seconds = 5 * 10 ^ 9"
| "to_duration Every10Seconds = 10 * 10 ^ 9"
| "to_duration Every30Seconds = 30 * 10 ^ 9"
| "to_duration (Custom d) = d"

datatype 'f cadence_transformation =
    Passthrough
  | RateLimit (max_per_second: 'f)
  | Aggregate (window_ms: u64)
  | Duplicate (max_duplicates: nat)
  | Throttle (target_interval_ms: u64)

record 'f cadence_rule =
  cr_source_protocol :: protocol
  cr_source_cadence :: message_cadence
  cr_target_protocol :: protocol
  cr_target_cadence :: message_cadence
  cr_message_type :: string
  cr_transformation :: "'f cadence_transformation"

record rate_limiter =
  rl_last_sent :: nat
  rl_min_interval :: nat
  rl_messages_since_last :: nat

record 'f cadence_translator =
  ct_rules :: "'f cadence_rule list"
  ct_rate_limiters :: "(string \<times> rate_limiter) list"

datatype translation_action = Send | Drop | Buffer u64 | DuplicateN nat

section \<open>Rate limiter\<close>

text \<open>\<open>Instant::now() - min_interval\<close> panics when the interval is longer than the clock.\<close>

definition rate_limiter_new :: "nat \<Rightarrow> nat \<Rightarrow> rate_limiter exec" where
  "rate_limiter_new now interval =
     (if now < interval then panic
      else ret \<lparr>rl_last_sent = now - interval, rl_min_interval = interval, rl_messages_since_last = 0\<rparr>)"

definition should_send :: "nat \<Rightarrow> rate_limiter \<Rightarrow> bool \<times> rate_limiter" where
  "should_send now rl =
     (if now - rl_last_sent rl \<ge> rl_min_interval rl
      then (True, rl\<lparr>rl_last_sent := now, rl_messages_since_last := 0\<rparr>)
      else (False, rl\<lparr>rl_messages_since_last := rl_messages_since_last rl + 1\<rparr>))"

section \<open>Cadence translator\<close>

definition cadence_new :: "'f cadence_translator" where
  "cadence_new = \<lparr>ct_rules = [], ct_rate_limiters = []\<rparr>"

definition add_rule :: "'f cadence_translator \<Rightarrow> 'f cadence_rule \<Rightarrow> 'f cadence_translator" where
  "add_rule ct r = ct\<lparr>ct_rules := ct_rules ct @ [r]\<rparr>"

definition default_iridium_to_asts_rules :: "'f cadence_rule list" where
  "default_iridium_to_asts_rules =
     [\<lparr>cr_source_protocol = IridiumSBD, cr_source_cadence = OncePerHour,
       cr_target_protocol = ASTSpaceMobile, cr_target_cadence = Every5Seconds,
       cr_message_type = ''heartbeat'', cr_transformation = Duplicate 720\<rparr>,
      \<lparr>cr_source_protocol = IridiumSBD, cr_source_cadence = OncePerMinute,
       cr_target_protocol = ASTSpaceMobile, cr_target_cadence = Every10Seconds,
       cr_message_type = ''location'', cr_transformation = Throttle 10000\<rparr>,
      \<lparr>cr_source_protocol = IridiumSBD, cr_source_cadence = OncePerMinute,
       cr_target_protocol = ASTSpaceMobile, cr_target_cadence = OncePerSecond,
       cr_message_type = ''telemetry'', cr_transformation = Duplicate 60\<rparr>,
      \<lparr>cr_source_protocol = IridiumSBD, cr_source_cadence = OncePerMinute,
       cr_target_protocol = ASTSpaceMobile, cr_target_cadence = OncePerMinute,
       cr_message_type = ''emergency'', cr_transformation = Passthrough\<rparr>]"

definition find_rule :: "'f cadence_translator \<Rightarrow> string \<Rightarrow> protocol \<Rightarrow> 'f cadence_rule option" where
  "find_rule ct mt p = find (\<lambda>r. cr_message_type r = mt \<and> cr_source_protocol r = p) (ct_rules ct)"

definition limiter_key :: "string \<Rightarrow> protocol \<Rightarrow> string" where
  "limiter_key mt p = mt @ '':'' @ protocol_name p"

text \<open>
  \<open>entry(key).or_insert_with(RateLimiter::new)\<close> followed by \<open>should_send\<close>: \<open>now1\<close> is
  the clock read by the constructor, \<open>now2\<close> the one read by the test.
\<close>

definition limiter_action :: "nat \<Rightarrow> nat \<Rightarrow> 'f cadence_translator \<Rightarrow> string \<Rightarrow> nat \<Rightarrow>
    (translation_action \<times> 'f cadence_translator) exec" where
  "limiter_action now1 now2 ct key interval = do {
     rl \<leftarrow> (case map_of (ct_rate_limiters ct) key of
              Some rl \<Rightarrow> ret rl | None \<Rightarrow> rate_limiter_new now1 interval);
     let (b, rl) = should_send now2 rl;
     ret (if b then Send else Drop,
          ct\<lparr>ct_rate_limiters := hm_insert key rl (ct_rate_limiters ct)\<rparr>) }"

definition cadence_translate :: "'f f64_ops \<Rightarrow> nat \<Rightarrow> nat \<Rightarrow> 'f cadence_translator \<Rightarrow> string \<Rightarrow> protocol \<Rightarrow>
    priority \<Rightarrow> (translation_action \<times> 'f cadence_translator) exec" where
  "cadence_translate F now1 now2 ct mt p pr =
     (if pr = Emergency then ret (Send, ct)
      else case find_rule ct mt p of
        None \<Rightarrow> ret (Send, ct)
      | Some rule \<Rightarrow> (case cr_transformation rule of
          Passthrough \<Rightarrow> ret (Send, ct)
        | RateLimit m \<Rightarrow> do {
            (case map_of (ct_rate_limiters ct) (limiter_key (cr_message_type rule) p) of
               Some rl \<Rightarrow> limiter_action now1 now2 ct (limiter_key (cr_message_type rule) p) 0
             | None \<Rightarrow> do {
                 interval \<leftarrow> f_secs F (f_div F (f_of_rat F 1) m);
                 limiter_action now1 now2 ct (limiter_key (cr_message_type rule) p) interval }) }
        | Aggregate w \<Rightarrow> ret (Buffer w, ct)
        | Duplicate n \<Rightarrow> ret (DuplicateN n, ct)
        | Throttle i \<Rightarrow> limiter_action now1 now2 ct (limiter_key (cr_message_type rule) p) (unat i * 1000000)))"

definition get_target_cadence :: "'f cadence_translator \<Rightarrow> string \<Rightarrow> protocol \<Rightarrow> message_cadence option" where
  "get_target_cadence ct mt p = map_option cr_target_cadence (find_rule ct mt p)"

definition cadence_stats :: "'f cadence_translator \<Rightarrow> nat \<times> nat" where
  "cadence_stats ct = (length (ct_rules ct), length (ct_rate_limiters ct))"

text \<open>A sequence of calls for one message type; the result is the list of instants sent.\<close>

fun cadence_sends :: "'f f64_ops \<Rightarrow> 'f cadence_translator \<Rightarrow> string \<Rightarrow> protocol \<Rightarrow> priority \<Rightarrow> nat list \<Rightarrow> nat list exec" where
  "cadence_sends F ct mt p pr [] = ret []"
| "cadence_sends F ct mt p pr (t # ts) = do {
     (a, ct) \<leftarrow> cadence_translate F t t ct mt p pr;
     rest \<leftarrow> cadence_sends F ct mt p pr ts;
     ret (if a = Send then t # rest else rest) }"

fun limiter_sends :: "rate_limiter \<Rightarrow> nat list \<Rightarrow> nat list" where
  "limiter_sends rl [] = []"
| "limiter_sends rl (t # ts) =
     (case should_send t rl of (b, rl) \<Rightarrow> if b then t # limiter_sends rl ts else limiter_sends rl ts)"

section \<open>Lemmas\<close>

lemma find_snoc:
  "find P (xs @ [x]) = (case find P xs of Some y \<Rightarrow> Some y | None \<Rightarrow> if P x then Some x else None)"
  by (induction xs) auto

lemma limiter_sends_spaced:
  assumes "sorted ts" and "\<forall>t\<in>set ts. rl_last_sent rl \<le> t"
  shows "sorted_wrt (\<lambda>a b. a + rl_min_interval rl \<le> b) (limiter_sends rl ts) \<and>
     (\<forall>t\<in>set (limiter_sends rl ts). rl_last_sent rl + rl_min_interval rl \<le> t \<and> t \<in> set ts) \<and>
     (\<forall>t\<in>set ts. t \<in> set (limiter_sends rl ts) \<or>
        (\<exists>s\<in>insert (rl_last_sent rl) (set (limiter_sends rl ts)). s \<le> t \<and> t < s + rl_min_interval rl))"
  using assms
proof (induction ts arbitrary: rl)
  case (Cons t ts)
  let ?i = "rl_min_interval rl" and ?l = "rl_last_sent rl"
  from Cons.prems have t: "?l \<le> t" "sorted ts" "\<forall>u\<in>set ts. t \<le> u" "\<forall>u\<in>set ts. ?l \<le> u" by auto
  show ?case
  proof (cases "?i \<le> t - ?l")
    case True
    let ?rl = "rl\<lparr>rl_last_sent := t, rl_messages_since_last := 0\<rparr>"
    from Cons.IH [of ?rl] t True show ?thesis by (auto simp: should_send_def)
  next
    case False
    let ?rl = "rl\<lparr>rl_messages_since_last := rl_messages_since_last rl + 1\<rparr>"
    from Cons.IH [of ?rl] t False show ?thesis by (auto simp: should_send_def)
  qed
qed simp

lemma limiter_action_known:
  assumes "map_of (ct_rate_limiters ct) key = Some rl" and "should_send now2 rl = (b, rl')"
  shows "limiter_action now1 now2 ct key i =
     ret (if b then Send else Drop, ct\<lparr>ct_rate_limiters := hm_insert key rl' (ct_rate_limiters ct)\<rparr>)"
  using assms by (simp add: limiter_action_def)

lemma throttle_known:
  assumes "find_rule ct mt p = Some r" and "cr_transformation r = Throttle i" and "pr \<noteq> Emergency"
    and "map_of (ct_rate_limiters ct) (limiter_key mt p) = Some rl"
  shows "cadence_sends F ct mt p pr ts = ret (limiter_sends rl ts)"
  using assms
proof (induction ts arbitrary: ct rl)
  case (Cons t ts)
  have mt: "cr_message_type r = mt" using Cons.prems(1) by (auto simp: find_rule_def find_Some_iff)
  obtain b rl' where b: "should_send t rl = (b, rl')" by fastforce
  let ?ct = "ct\<lparr>ct_rate_limiters := hm_insert (limiter_key mt p) rl' (ct_rate_limiters ct)\<rparr>"
  have "cadence_translate F t t ct mt p pr = ret (if b then Send else Drop, ?ct)"
    using Cons.prems b mt by (simp add: cadence_translate_def limiter_action_known)
  moreover have "cadence_sends F ?ct mt p pr ts = ret (limiter_sends rl' ts)"
    by (rule Cons.IH) (use Cons.prems in \<open>simp_all add: find_rule_def\<close>)
  ultimately show ?case using b by simp
qed simp

lemma throttle_first:
  assumes "find_rule ct mt p = Some r" and "cr_transformation r = Throttle i" and "pr \<noteq> Emergency"
    and "map_of (ct_rate_limiters ct) (limiter_key mt p) = None" and "unat i * 1000000 \<le> t"
  shows "cadence_sends F ct mt p pr (t # ts) =
     ret (t # limiter_sends \<lparr>rl_last_sent = t, rl_min_interval = unat i * 1000000, rl_messages_since_last = 0\<rparr> ts)"
proof -
  let ?rl = "\<lparr>rl_last_sent = t, rl_min_interval = unat i * 1000000, rl_messages_since_last = 0\<rparr>"
  let ?ct = "ct\<lparr>ct_rate_limiters := hm_insert (limiter_key mt p) ?rl (ct_rate_limiters ct)\<rparr>"
  have mt: "cr_message_type r = mt" using assms(1) by (auto simp: find_rule_def find_Some_iff)
  have "cadence_translate F t t ct mt p pr = ret (Send, ?ct)"
    using assms mt by (simp add: cadence_translate_def limiter_action_def rate_limiter_new_def should_send_def)
  moreover have "cadence_sends F ?ct mt p pr ts = ret (limiter_sends ?rl ts)"
    by (rule throttle_known) (use assms in \<open>simp_all add: find_rule_def\<close>)
  ultimately show ?thesis by simp
qed

section \<open>Properties\<close>

text \<open>
  Emergency messages are always sent and touch no limiter, whatever the rules; a message
  without a matching rule is sent as well, and otherwise the first matching rule in insertion
  order decides.
\<close>

lemma cadence_emergency_and_default:
  "cadence_translate F now1 now2 ct mt p Emergency = ret (Send, ct) \<and>
   (find_rule ct mt p = None \<longrightarrow> cadence_translate F now1 now2 ct mt p pr = ret (Send, ct)) \<and>
   (find_rule (add_rule ct r) mt p =
      (case find_rule ct mt p of
         Some r' \<Rightarrow> Some r'
       | None \<Rightarrow> if cr_message_type r = mt \<and> cr_source_protocol r = p then Some r else None))"
  by (simp add: cadence_translate_def find_rule_def add_rule_def find_snoc)

text \<open>
  Throttling keeps the target interval: for any increasing sequence of instants the
  messages sent under a throttle rule are at least the interval apart, the first one is sent,
  and a message is dropped only if one was sent less than the interval before it.
\<close>

lemma throttle_spacing:
  assumes "find_rule ct mt p = Some r" and "cr_transformation r = Throttle i" and "pr \<noteq> Emergency"
    and "map_of (ct_rate_limiters ct) (limiter_key mt p) = None"
    and "sorted (t # ts)" and "unat i * 1000000 \<le> t"
  shows "\<exists>sent. cadence_sends F ct mt p pr (t # ts) = ret sent \<and> hd sent = t \<and>
    sorted_wrt (\<lambda>a b. a + unat i * 1000000 \<le> b) sent \<and>
    (\<forall>u\<in>set (t # ts). u \<in> set sent \<or> (\<exists>s\<in>set sent. s \<le> u \<and> u < s + unat i * 1000000))"
proof -
  let ?rl = "\<lparr>rl_last_sent = t, rl_min_interval = unat i * 1000000, rl_messages_since_last = 0\<rparr>"
  have "sorted ts" and "\<forall>u\<in>set ts. rl_last_sent ?rl \<le> u" using assms(5) by simp_all
  from limiter_sends_spaced [OF this] throttle_first [OF assms(1-4,6), of F ts] show ?thesis by auto
qed

text \<open>
  The default rules do not limit Iridium telemetry: every non-emergency message of that
  type is answered with a request for sixty copies, at any time and in any limiter state.
\<close>

lemma default_telemetry_duplicates:
  assumes "ct_rules ct = default_iridium_to_asts_rules" and "pr \<noteq> Emergency"
  shows "cadence_translate F now1 now2 ct ''telemetry'' IridiumSBD pr = ret (DuplicateN 60, ct)"
  using assms by (simp add: cadence_translate_def find_rule_def default_iridium_to_asts_rules_def)

end
