(* ===== verification/Clock.thy ===== *)
theory Clock
  imports Protocol Floats "HOL-Library.Signed_Division"
begin

text \<open>
  \<open>src/src/clock_reconciliation.rs\<close>: the registry of device clock offsets and the
  correction of device timestamps. The wall clock in milliseconds is the argument \<open>now\<close>;
  signed arithmetic wraps. The confidence is an element of the floating-point parameter.
\<close>

record 'f clock_offset =
  co_device_id :: u64
  co_offset_ms :: i64
  co_last_updated :: u64
  co_confidence :: 'f

datatype network_time_source = ASTS | NTP | GPS | LocalClock

record 'f clock_reconciler =
  cl_offsets :: "(u64 \<times> 'f clock_offset) list"
  cl_max_offsets :: nat
  cl_max_age :: nat
  cl_network_time_source :: network_time_source

definition clock_offset_new :: "u64 \<Rightarrow> u64 \<Rightarrow> i64 \<Rightarrow> 'f \<Rightarrow> 'f clock_offset" where
  "clock_offset_new now dev off conf =
     \<lparr>co_device_id = dev, co_offset_ms = off, co_last_updated = now, co_confidence = conf\<rparr>"

definition is_stale :: "u64 \<Rightarrow> nat \<Rightarrow> 'f clock_offset \<Rightarrow> bool" where
  "is_stale now max_age ofs = (now - co_last_updated ofs > word_of_nat max_age)"

definition clock_new :: "nat \<Rightarrow> nat \<Rightarrow> network_time_source \<Rightarrow> 'f clock_reconciler" where
  "clock_new n age src =
     \<lparr>cl_offsets = [], cl_max_offsets = n, cl_max_age = age, cl_network_time_source = src\<rparr>"

text \<open>\<open>iter().min_by_key(|(_, o)| o.last_updated)\<close>: the first entry with the least value.\<close>

fun stalest :: "(u64 \<times> 'f clock_offset) list \<Rightarrow> (u64 \<times> 'f clock_offset) option" where
  "stalest [] = None"
| "stalest (x # xs) =
     (case stalest xs of
        None \<Rightarrow> Some x
      | Some y \<Rightarrow> if co_last_updated (snd x) \<le> co_last_updated (snd y) then Some x else Some y)"

definition register_offset :: "'f clock_reconciler \<Rightarrow> 'f clock_offset \<Rightarrow> 'f clock_reconciler" where
  "register_offset c off =
     (let offs = (if length (cl_offsets c) \<ge> cl_max_offsets c \<and> map_of (cl_offsets c) (co_device_id off) = None
                  then (case stalest (cl_offsets c) of
                          Some (evict_id, _) \<Rightarrow> hm_remove evict_id (cl_offsets c)
                        | None \<Rightarrow> cl_offsets c)
                  else cl_offsets c)
      in c\<lparr>cl_offsets := hm_insert (co_device_id off) off offs\<rparr>)"

definition get_offset :: "u64 \<Rightarrow> 'f clock_reconciler \<Rightarrow> u64 \<Rightarrow> 'f clock_offset option" where
  "get_offset now c dev =
     (case map_of (cl_offsets c) dev of
        Some ofs \<Rightarrow> if \<not> is_stale now (cl_max_age c) ofs then Some ofs else None
      | None \<Rightarrow> None)"

definition reconcile :: "u64 \<Rightarrow> 'f clock_reconciler \<Rightarrow> u64 \<Rightarrow> u64 \<Rightarrow> u64 option" where
  "reconcile now c dev ts =
     (case get_offset now c dev of
        None \<Rightarrow> None
      | Some ofs \<Rightarrow> let network_time = ts - co_offset_ms ofs
                  in if sint network_time < 0 then None else Some network_time)"

definition reconcile_with_confidence :: "'f f64_ops \<Rightarrow> u64 \<Rightarrow> 'f clock_reconciler \<Rightarrow> u64 \<Rightarrow> u64 \<Rightarrow> 'f \<Rightarrow> u64 option" where
  "reconcile_with_confidence F now c dev ts min_confidence =
     (case get_offset now c dev of
        None \<Rightarrow> None
      | Some ofs \<Rightarrow> if f_less F (co_confidence ofs) min_confidence then None
                  else let network_time = ts - co_offset_ms ofs
                       in if sint network_time < 0 then None else Some network_time)"

definition calculate_offset :: "u64 \<Rightarrow> u64 \<Rightarrow> u64 \<Rightarrow> i64" where
  "calculate_offset dev device_ts network_ts = device_ts - network_ts"

text \<open>Every source reads the local clock.\<close>

definition get_network_time :: "u64 \<Rightarrow> 'f clock_reconciler \<Rightarrow> u64" where
  "get_network_time now c =
     (case cl_network_time_source c of ASTS \<Rightarrow> now | NTP \<Rightarrow> now | GPS \<Rightarrow> now | LocalClock \<Rightarrow> now)"

definition update_offsets :: "u64 \<Rightarrow> 'f clock_reconciler \<Rightarrow> 'f clock_reconciler" where
  "update_offsets now c =
     c\<lparr>cl_offsets := filter (\<lambda>(k, ofs). \<not> is_stale now (cl_max_age c) ofs) (cl_offsets c)\<rparr>"

record clock_stats =
  ks_total_offsets :: nat
  ks_stale_offsets :: nat
  ks_avg_offset_ms :: i64

definition clock_stats_of :: "u64 \<Rightarrow> 'f clock_reconciler \<Rightarrow> clock_stats" where
  "clock_stats_of now c =
     \<lparr>ks_total_offsets = length (cl_offsets c),
      ks_stale_offsets = length (filter (is_stale now (cl_max_age c)) (map snd (cl_offsets c))),
      ks_avg_offset_ms =
        (if cl_offsets c = [] then 0
         else word_of_int (sint (sum_list (map (co_offset_ms \<circ> snd) (cl_offsets c))) sdiv
                           int (length (cl_offsets c))))\<rparr>"

definition clock_inv :: "'f clock_reconciler \<Rightarrow> bool" where
  "clock_inv c \<longleftrightarrow> map_ok (cl_offsets c) \<and> length (cl_offsets c) \<le> max 1 (cl_max_offsets c) \<and>
     (\<forall>(k, ofs)\<in>set (cl_offsets c). co_device_id ofs = k)"

inductive clock_step :: "'f clock_reconciler \<Rightarrow> 'f clock_reconciler \<Rightarrow> bool" where
  register: "clock_step c (register_offset c off)"
| update: "clock_step c (update_offsets now c)"

section \<open>Lemmas\<close>

lemma stalest_None [simp]: "stalest xs = None \<longleftrightarrow> xs = []"
  by (cases xs) (auto split: option.splits)

lemma stalest_Some:
  "stalest xs = Some x \<Longrightarrow> x \<in> set xs \<and> (\<forall>y\<in>set xs. co_last_updated (snd x) \<le> co_last_updated (snd y))"
proof (induction xs arbitrary: x)
  case (Cons a xs)
  show ?case
  proof (cases "stalest xs")
    case None
    with Cons.prems show ?thesis by auto
  next
    case (Some y)
    from Cons.IH [OF Some] Cons.prems Some show ?thesis
      by (auto split: if_splits dest: bspec)
  qed
qed simp

lemma register_fields [simp]:
  "cl_max_offsets (register_offset c off) = cl_max_offsets c"
  "cl_max_age (register_offset c off) = cl_max_age c"
  by (simp_all add: register_offset_def Let_def)

lemma register_lookup:
  "map_of (cl_offsets (register_offset c off)) (co_device_id off) = Some off"
  by (simp add: register_offset_def Let_def)

lemma register_inv:
  assumes "clock_inv c"
  shows "clock_inv (register_offset c off)"
proof -
  define offs where "offs = (if length (cl_offsets c) \<ge> cl_max_offsets c \<and> map_of (cl_offsets c) (co_device_id off) = None
      then (case stalest (cl_offsets c) of Some (evict_id, _) \<Rightarrow> hm_remove evict_id (cl_offsets c)
                                         | None \<Rightarrow> cl_offsets c) else cl_offsets c)"
  have reg: "register_offset c off = c\<lparr>cl_offsets := hm_insert (co_device_id off) off offs\<rparr>"
    by (simp add: register_offset_def offs_def)
  have ok: "map_ok (cl_offsets c)" using assms by (simp add: clock_inv_def)
  have offs_ok: "map_ok offs \<and> set offs \<subseteq> set (cl_offsets c) \<and> length offs \<le> length (cl_offsets c)"
    using ok by (auto simp: offs_def length_hm_remove split: option.splits dest: subsetD [OF set_hm_remove_sub])
  have "length (hm_insert (co_device_id off) off offs) \<le> max 1 (cl_max_offsets c)"
  proof (cases "length (cl_offsets c) \<ge> cl_max_offsets c \<and> map_of (cl_offsets c) (co_device_id off) = None")
    case True
    show ?thesis
    proof (cases "stalest (cl_offsets c)")
      case None
      with True show ?thesis by (simp add: offs_def)
    next
      case (Some x)
      obtain k ofs where x: "x = (k, ofs)" by fastforce
      have "k \<in> fst ` set (cl_offsets c)" using stalest_Some [OF Some] x by force
      then have "length offs = length (cl_offsets c) - 1" "length (cl_offsets c) > 0"
        using True Some x by (auto simp: offs_def length_hm_remove [OF ok])
      then show ?thesis using assms True
        by (auto simp: clock_inv_def length_hm_insert max_def split: if_splits)
    qed
  next
    case False
    then have "offs = cl_offsets c" by (auto simp: offs_def)
    with False assms show ?thesis
      by (auto simp: clock_inv_def length_hm_insert max_def map_of_eq_None_iff split: if_splits)
  qed
  moreover have "\<forall>(k, ofs)\<in>set (hm_insert (co_device_id off) off offs). co_device_id ofs = k"
    using set_hm_insert_sub [of "co_device_id off" off offs] offs_ok assms by (fastforce simp: clock_inv_def)
  ultimately show ?thesis using offs_ok by (simp add: reg clock_inv_def)
qed

lemma update_inv:
  assumes "clock_inv c"
  shows "clock_inv (update_offsets now c)"
proof -
  have "length (filter (\<lambda>(k, ofs). \<not> is_stale now (cl_max_age c) ofs) (cl_offsets c)) \<le> max 1 (cl_max_offsets c)"
    using assms length_filter_le order_trans unfolding clock_inv_def by blast
  then show ?thesis using assms by (auto simp: clock_inv_def update_offsets_def)
qed

lemma clock_reachable_inv:
  assumes "clock_step\<^sup>*\<^sup>* (clock_new n age src) c"
  shows "clock_inv c"
  using assms
proof (induction rule: rtranclp_induct)
  case base
  show ?case by (simp add: clock_new_def clock_inv_def)
next
  case (step y z)
  from step.hyps(2) step.IH show ?case
    by (induction rule: clock_step.induct) (simp_all add: register_inv update_inv)
qed

lemma register_offsets:
  "map_of (cl_offsets (register_offset c off)) k =
     (if k = co_device_id off then Some off
      else if length (cl_offsets c) \<ge> cl_max_offsets c \<and> map_of (cl_offsets c) (co_device_id off) = None \<and>
              map_option fst (stalest (cl_offsets c)) = Some k
      then None else map_of (cl_offsets c) k)"
  by (auto simp: register_offset_def Let_def split: option.splits)

lemma fresh_offset:
  "now' - co_last_updated off \<le> word_of_nat (cl_max_age c) \<Longrightarrow>
   get_offset now' (register_offset c off) (co_device_id off) = Some off"
  by (simp add: get_offset_def register_lookup is_stale_def not_less)

section \<open>Properties\<close>

text \<open>
  In every state reachable by registering and expiring offsets the registry holds at most
  the configured number of devices (one when it is zero), each under its own identifier.
\<close>

lemma clock_reachable_ok:
  assumes "clock_step\<^sup>*\<^sup>* (clock_new n age src) c"
  shows "map_ok (cl_offsets c) \<and> length (cl_offsets c) \<le> max 1 (cl_max_offsets c) \<and>
         (\<forall>(k, ofs)\<in>set (cl_offsets c). co_device_id ofs = k)"
  using clock_reachable_inv [OF assms] by (simp add: clock_inv_def)

text \<open>
  Registering a measurement makes it the device's offset; another device is forgotten only
  if the registry was full, the registered device new, and the forgotten entry the stalest.
\<close>

lemma register_effect:
  assumes "clock_inv c"
  shows "map_of (cl_offsets (register_offset c off)) (co_device_id off) = Some off \<and>
    (\<forall>k ofs. k \<noteq> co_device_id off \<and> map_of (cl_offsets c) k = Some ofs \<longrightarrow>
       map_of (cl_offsets (register_offset c off)) k = Some ofs \<or>
       cl_max_offsets c \<le> length (cl_offsets c) \<and> map_of (cl_offsets c) (co_device_id off) = None \<and>
       (\<forall>(j, ofs')\<in>set (cl_offsets c). co_last_updated ofs \<le> co_last_updated ofs'))"
proof (intro conjI allI impI)
  show "map_of (cl_offsets (register_offset c off)) (co_device_id off) = Some off" by (rule register_lookup)
next
  fix k ofs
  assume k: "k \<noteq> co_device_id off \<and> map_of (cl_offsets c) k = Some ofs"
  show "map_of (cl_offsets (register_offset c off)) k = Some ofs \<or>
       cl_max_offsets c \<le> length (cl_offsets c) \<and> map_of (cl_offsets c) (co_device_id off) = None \<and>
       (\<forall>(j, ofs')\<in>set (cl_offsets c). co_last_updated ofs \<le> co_last_updated ofs')"
  proof (cases "map_option fst (stalest (cl_offsets c)) = Some k")
    case True
    then obtain x where x: "stalest (cl_offsets c) = Some (k, x)" by auto
    from stalest_Some [OF x] have "(k, x) \<in> set (cl_offsets c)"
      and least: "\<forall>y\<in>set (cl_offsets c). co_last_updated x \<le> co_last_updated (snd y)" by simp_all
    then have "x = ofs" using k assms by (auto simp: clock_inv_def map_of_SomeI_ok)
    with k least show ?thesis by (auto simp: register_offsets)
  qed (use k in \<open>simp add: register_offsets\<close>)
qed

text \<open>
  Reconciliation inverts the measurement: after registering the offset computed from a
  device timestamp and the network time, and while it is fresh, the device timestamp is mapped
  back to that network time; a timestamp \<open>d\<close> later on the device is mapped \<open>d\<close> later on
  the network. This needs only that the network times are below \<open>2^63\<close>: the device clock may
  be arbitrarily wrong, since the wrapping subtractions cancel.
\<close>

lemma reconcile_inverts:
  assumes "off = clock_offset_new now dev (calculate_offset dev device_ts network_ts) conf"
    and "now' - now \<le> word_of_nat (cl_max_age c)"
    and "uint (network_ts + d) < 2 ^ 63"
  shows "reconcile now' (register_offset c off) dev (device_ts + d) = Some (network_ts + d)"
proof -
  have "get_offset now' (register_offset c off) dev = Some off"
    using fresh_offset [of now' off c] assms(1,2) by (simp add: clock_offset_new_def)
  moreover have "device_ts + d - co_offset_ms off = network_ts + d"
    using assms(1) by (simp add: clock_offset_new_def calculate_offset_def)
  moreover have "\<not> sint (network_ts + d) < 0"
    using sint_diff_exact [of "network_ts + d" 0] assms(3) by simp
  ultimately show ?thesis by (simp only: reconcile_def option.case Let_def if_False)
qed

end
