(* ===== verification/Sharding.thy ===== *)
theory Sharding
  imports Protocol Channels Floats
begin

text \<open>
  \<open>src/src/sharding.rs\<close>: the shard manager and its workers. A shard's \<open>Sender\<close> and its
  \<open>Receiver\<close> are two handles on one channel, so the channels live in a store (a list) and
  the two maps hold positions in it; a worker that took a receiver keeps the position.
  Counters are 64-bit and wrap.
\<close>

section \<open>Data\<close>

type_synonym shard_id = u64

record memory_shard =
  ms_tx :: nat
  ms_max_size :: nat
  ms_last_access :: nat
  ms_is_deadzone_shard :: bool

datatype shard_error = Full | NotFound | Backpressure | Timeout

record 'q shard_manager =
  sg_chans :: "'q list"
  sg_shards :: "(shard_id \<times> memory_shard) list"
  sg_receivers :: "(shard_id \<times> nat) list"
  sg_num_shards :: nat
  sg_shard_size :: nat
  sg_deadzone_shard_id :: shard_id
  sg_spread_shard_id :: shard_id
  sg_total_regular_messages :: u64
  sg_backpressure_limit :: u64
  sg_round_robin :: u64
  sg_messages_allocated :: u64
  sg_messages_dropped :: u64
  sg_messages_leaked :: u64

type_synonym 'q chan = "('q, message) chan_ops"

section \<open>Shards\<close>

text \<open>\<open>MemoryShard::new\<close> and the two insertions that always follow it.\<close>

definition add_shard :: "'q chan \<Rightarrow> nat \<Rightarrow> 'q shard_manager \<Rightarrow> shard_id \<Rightarrow> bool \<Rightarrow> 'q shard_manager" where
  "add_shard C now g i dead =
     (let k = length (sg_chans g);
          shard = \<lparr>ms_tx = k, ms_max_size = sg_shard_size g, ms_last_access = now, ms_is_deadzone_shard = dead\<rparr>
      in g\<lparr>sg_chans := sg_chans g @ [ch_bounded C (sg_shard_size g)],
           sg_shards := hm_insert i shard (sg_shards g),
           sg_receivers := hm_insert i k (sg_receivers g)\<rparr>)"

text \<open>\<open>MemoryShard::push\<close> on the shard's channel; \<open>None\<close> is the error \<open>Full\<close>.\<close>

definition shard_push :: "'q chan \<Rightarrow> 'q shard_manager \<Rightarrow> memory_shard \<Rightarrow> message \<Rightarrow> 'q shard_manager option" where
  "shard_push C g s m =
     (case ch_try_send C (sg_chans g ! ms_tx s) m of
        None \<Rightarrow> None
      | Some q \<Rightarrow> Some (g\<lparr>sg_chans := (sg_chans g)[ms_tx s := q]\<rparr>))"

definition shard_len :: "'q chan \<Rightarrow> 'q shard_manager \<Rightarrow> memory_shard \<Rightarrow> nat" where
  "shard_len C g s = ch_len C (sg_chans g ! ms_tx s)"

definition shard_is_empty :: "'q chan \<Rightarrow> 'q shard_manager \<Rightarrow> memory_shard \<Rightarrow> bool" where
  "shard_is_empty C g s \<longleftrightarrow> ch_len C (sg_chans g ! ms_tx s) = 0"

section \<open>Manager\<close>

definition backpressure_limit_of :: "nat \<Rightarrow> nat \<Rightarrow> u64" where
  "backpressure_limit_of num sz = (word_of_nat num - 1) * word_of_nat sz * 8 div 10"

definition shard_manager_new :: "'q chan \<Rightarrow> nat \<Rightarrow> nat \<Rightarrow> nat \<Rightarrow> 'q shard_manager" where
  "shard_manager_new C now num sz =
     (let g = \<lparr>sg_chans = [], sg_shards = [], sg_receivers = [], sg_num_shards = num, sg_shard_size = sz,
               sg_deadzone_shard_id = 0, sg_spread_shard_id = word_of_nat num,
               sg_total_regular_messages = 0, sg_backpressure_limit = backpressure_limit_of num sz,
               sg_round_robin = 0, sg_messages_allocated = 0, sg_messages_dropped = 0, sg_messages_leaked = 0\<rparr>;
          g = add_shard C now g 0 True;
          g = foldl (\<lambda>g i. add_shard C now g (word_of_nat i) False) g [1..<num]
      in add_shard C now g (word_of_nat num) False)"

definition protocol_to_shard_id :: "'q shard_manager \<Rightarrow> protocol \<Rightarrow> shard_id" where
  "protocol_to_shard_id g p =
     (let hash = (case p of IridiumSBD \<Rightarrow> 1 | InmarsatC \<Rightarrow> 2 | VSAT \<Rightarrow> 3 | HFVHF \<Rightarrow> 4 | RockBLOCK \<Rightarrow> 5
                          | Samsara \<Rightarrow> 6 | NIDD \<Rightarrow> 7 | ASTSpaceMobile \<Rightarrow> 8 | LoRaMesh \<Rightarrow> 9)
      in 1 + (hash mod word_of_nat (sg_num_shards g)))"

definition create_shard :: "'q chan \<Rightarrow> nat \<Rightarrow> 'q shard_manager \<Rightarrow> shard_id \<Rightarrow> 'q shard_manager" where
  "create_shard C now g i = (if map_of (sg_shards g) i = None then add_shard C now g i False else g)"

definition get_shard :: "'q chan \<Rightarrow> nat \<Rightarrow> 'q shard_manager \<Rightarrow> protocol \<Rightarrow> (shard_id \<times> 'q shard_manager) exec" where
  "get_shard C now g p =
     (if word_of_nat (sg_num_shards g) = (0 :: u64) then panic
      else let i = protocol_to_shard_id g p
           in ret (i, if map_of (sg_shards g) i = None then create_shard C now g i else g))"

text \<open>The remainder by \<open>num_shards - 1\<close> panics when that is zero.\<close>

definition select_shard_for_message :: "'q shard_manager \<Rightarrow> (shard_id \<times> 'q shard_manager) exec" where
  "select_shard_for_message g =
     (let n = word_of_nat (sg_num_shards g) - 1
      in if n = 0 then panic
         else ret (1 + (sg_round_robin g mod n), g\<lparr>sg_round_robin := sg_round_robin g + 1\<rparr>))"

definition shard_manager_push :: "'q chan \<Rightarrow> 'q shard_manager \<Rightarrow> message \<Rightarrow> ((shard_error + shard_id) \<times> 'q shard_manager) exec" where
  "shard_manager_push C g m =
     (if sg_total_regular_messages g \<ge> sg_backpressure_limit g
      then ret (Inl Backpressure, g\<lparr>sg_messages_dropped := sg_messages_dropped g + 1\<rparr>)
      else do {
        (i, g) \<leftarrow> select_shard_for_message g;
        let g = g\<lparr>sg_messages_allocated := sg_messages_allocated g + 1\<rparr>;
        (case map_of (sg_shards g) i of
           Some s \<Rightarrow> (case shard_push C g s m of
               None \<Rightarrow> ret (Inl Full, g)
             | Some g \<Rightarrow> ret (Inr i, g\<lparr>sg_total_regular_messages := sg_total_regular_messages g + 1\<rparr>))
         | None \<Rightarrow> ret (Inl NotFound, g\<lparr>sg_messages_dropped := sg_messages_dropped g + 1\<rparr>)) })"

definition push_reserved :: "'q chan \<Rightarrow> shard_id \<Rightarrow> 'q shard_manager \<Rightarrow> message \<Rightarrow> (shard_error + shard_id) \<times> 'q shard_manager" where
  "push_reserved C i g m =
     (let g = g\<lparr>sg_messages_allocated := sg_messages_allocated g + 1\<rparr> in
      case map_of (sg_shards g) i of
        Some s \<Rightarrow> (case shard_push C g s m of None \<Rightarrow> (Inl Full, g) | Some g \<Rightarrow> (Inr i, g))
      | None \<Rightarrow> (Inl NotFound, g\<lparr>sg_messages_dropped := sg_messages_dropped g + 1\<rparr>))"

definition push_spread :: "'q chan \<Rightarrow> 'q shard_manager \<Rightarrow> message \<Rightarrow> (shard_error + shard_id) \<times> 'q shard_manager" where
  "push_spread C g m = push_reserved C (sg_spread_shard_id g) g m"

definition push_deadzone :: "'q chan \<Rightarrow> 'q shard_manager \<Rightarrow> message \<Rightarrow> (shard_error + shard_id) \<times> 'q shard_manager" where
  "push_deadzone C g m = push_reserved C (sg_deadzone_shard_id g) g m"

definition get_receiver :: "'q shard_manager \<Rightarrow> shard_id \<Rightarrow> nat option \<times> 'q shard_manager" where
  "get_receiver g i = (map_of (sg_receivers g) i, g\<lparr>sg_receivers := hm_remove i (sg_receivers g)\<rparr>)"

definition is_regular_shard :: "'q shard_manager \<Rightarrow> shard_id \<Rightarrow> bool" where
  "is_regular_shard g i \<longleftrightarrow> i \<noteq> sg_deadzone_shard_id g \<and> i \<noteq> sg_spread_shard_id g"

definition saturating_sub :: "u64 \<Rightarrow> u64 \<Rightarrow> u64" where
  "saturating_sub a b = (if a < b then 0 else a - b)"

definition drain_receiver :: "'q chan \<Rightarrow> 'q shard_manager \<Rightarrow> shard_id \<Rightarrow> (message list \<times> 'q shard_manager) option" where
  "drain_receiver C g i =
     (case map_of (sg_receivers g) i of
        None \<Rightarrow> Some ([], g)
      | Some k \<Rightarrow> do {
          (ms, q) \<leftarrow> drain_all C (sg_chans g ! k);
          Some (ms, g\<lparr>sg_chans := (sg_chans g)[k := q]\<rparr>) })"

definition drain_shard :: "'q chan \<Rightarrow> 'q shard_manager \<Rightarrow> shard_id \<Rightarrow> (message list \<times> 'q shard_manager) option" where
  "drain_shard C g i = do {
     (ms, g) \<leftarrow> drain_receiver C g i;
     Some (ms, if is_regular_shard g i \<and> ms \<noteq> []
               then g\<lparr>sg_total_regular_messages :=
                        saturating_sub (sg_total_regular_messages g) (word_of_nat (length ms))\<rparr>
               else g) }"

text \<open>
  One round of \<open>ShardWorker::run_batched\<close> on the channel at position \<open>k\<close>: \<open>None\<close> while
  the worker is parked on an empty channel.
\<close>

definition worker_round :: "'q chan \<Rightarrow> nat \<Rightarrow> nat \<Rightarrow> 'q shard_manager \<Rightarrow> (message list \<times> 'q shard_manager) option" where
  "worker_round C batch_size k g =
     (case ch_try_recv C (sg_chans g ! k) of
        None \<Rightarrow> None
      | Some (first, q) \<Rightarrow>
          (case recv_upto C (batch_size - 1) q of
             (rest, q) \<Rightarrow> Some (first # rest, g\<lparr>sg_chans := (sg_chans g)[k := q]\<rparr>)))"

text \<open>One round of \<open>ShardWorker::run\<close>, which passes on single messages.\<close>

definition worker_run_round :: "'q chan \<Rightarrow> nat \<Rightarrow> 'q shard_manager \<Rightarrow> (message \<times> 'q shard_manager) option" where
  "worker_run_round C k g =
     (case ch_try_recv C (sg_chans g ! k) of
        None \<Rightarrow> None
      | Some (m, q) \<Rightarrow> Some (m, g\<lparr>sg_chans := (sg_chans g)[k := q]\<rparr>))"

definition evict_idle :: "nat \<Rightarrow> nat \<Rightarrow> 'q shard_manager \<Rightarrow> 'q shard_manager" where
  "evict_idle now idle_threshold g =
     g\<lparr>sg_shards := filter (\<lambda>(i, s).
         if i = sg_deadzone_shard_id g \<or> i = sg_spread_shard_id g then True
         else now - ms_last_access s < idle_threshold) (sg_shards g)\<rparr>"

record shard_stats =
  ss_total_shards :: nat
  ss_active_shards :: nat
  ss_total_messages :: nat
  ss_shard_size :: nat

definition shard_stats_of :: "'q chan \<Rightarrow> 'q shard_manager \<Rightarrow> shard_stats" where
  "shard_stats_of C g =
     \<lparr>ss_total_shards = length (sg_shards g),
      ss_active_shards = length (filter (\<lambda>(i, s). \<not> shard_is_empty C g s) (sg_shards g)),
      ss_total_messages = sum_list (map (\<lambda>(i, s). shard_len C g s) (sg_shards g)),
      ss_shard_size = sg_shard_size g\<rparr>"

definition leak_stats :: "'q shard_manager \<Rightarrow> u64 \<times> u64 \<times> u64" where
  "leak_stats g = (sg_messages_allocated g, sg_messages_dropped g, sg_messages_leaked g)"

definition reset_leak_stats :: "'q shard_manager \<Rightarrow> 'q shard_manager" where
  "reset_leak_stats g = g\<lparr>sg_messages_allocated := 0, sg_messages_dropped := 0, sg_messages_leaked := 0\<rparr>"

definition leak_rate :: "'f f64_ops \<Rightarrow> u64 \<times> u64 \<times> u64 \<Rightarrow> 'f" where
  "leak_rate F st =
     (case st of (allocated, dropped, leaked) \<Rightarrow>
        if allocated = 0 then f_of_rat F 0 else f_div F (f_of_nat F (unat leaked)) (f_of_nat F (unat allocated)))"

definition shard_utilization :: "'f f64_ops \<Rightarrow> shard_stats \<Rightarrow> 'f" where
  "shard_utilization F st =
     (if ss_shard_size st = 0 then f_of_rat F 0
      else f_div F (f_of_nat F (ss_total_messages st)) (f_of_nat F (ss_total_shards st * ss_shard_size st)))"

section \<open>Steps and invariant\<close>

text \<open>
  The operations the running gateway performs on the manager: the three pushes, the receiver
  handed to a worker, a worker's round, and the periodic drain of the spread shard.
\<close>

inductive shard_step :: "'q chan \<Rightarrow> 'q shard_manager \<Rightarrow> 'q shard_manager \<Rightarrow> bool" for C :: "'q chan" where
  push: "shard_manager_push C g m = ret (r, g') \<Longrightarrow> shard_step C g g'"
| spread: "push_spread C g m = (r, g') \<Longrightarrow> shard_step C g g'"
| deadzone: "push_deadzone C g m = (r, g') \<Longrightarrow> shard_step C g g'"
| take: "get_receiver g i = (k, g') \<Longrightarrow> shard_step C g g'"
| worker: "worker_round C n k g = Some (ms, g') \<Longrightarrow> shard_step C g g'"
| drain: "drain_shard C g (sg_spread_shard_id g) = Some (ms, g') \<Longrightarrow> shard_step C g g'"

text \<open>Every shard has a channel of its own in the store, of the configured size.\<close>

definition shard_inv :: "('q \<Rightarrow> message list) \<Rightarrow> ('q \<Rightarrow> nat) \<Rightarrow> 'q shard_manager \<Rightarrow> bool" where
  "shard_inv cont cap g \<longleftrightarrow>
     (\<forall>q\<in>set (sg_chans g). cap q = sg_shard_size g \<and> length (cont q) \<le> sg_shard_size g) \<and>
     (\<forall>i s. map_of (sg_shards g) i = Some s \<longrightarrow> ms_tx s < length (sg_chans g)) \<and>
     (\<forall>i j s t. map_of (sg_shards g) i = Some s \<and> map_of (sg_shards g) j = Some t \<and> ms_tx s = ms_tx t \<longrightarrow> i = j) \<and>
     (\<forall>i k s. map_of (sg_receivers g) i = Some k \<and> map_of (sg_shards g) i = Some s \<longrightarrow> k = ms_tx s)"

text \<open>The queue of a shard.\<close>

definition shard_queue :: "('q \<Rightarrow> message list) \<Rightarrow> 'q shard_manager \<Rightarrow> shard_id \<Rightarrow> message list option" where
  "shard_queue cont g i = map_option (\<lambda>s. cont (sg_chans g ! ms_tx s)) (map_of (sg_shards g) i)"

section \<open>Lemmas\<close>

lemma add_shard_fields [simp]:
  "sg_shards (add_shard C now g i d) =
     hm_insert i \<lparr>ms_tx = length (sg_chans g), ms_max_size = sg_shard_size g, ms_last_access = now,
                  ms_is_deadzone_shard = d\<rparr> (sg_shards g)"
  "sg_receivers (add_shard C now g i d) = hm_insert i (length (sg_chans g)) (sg_receivers g)"
  "sg_chans (add_shard C now g i d) = sg_chans g @ [ch_bounded C (sg_shard_size g)]"
  "sg_num_shards (add_shard C now g i d) = sg_num_shards g"
  "sg_shard_size (add_shard C now g i d) = sg_shard_size g"
  "sg_deadzone_shard_id (add_shard C now g i d) = sg_deadzone_shard_id g"
  "sg_spread_shard_id (add_shard C now g i d) = sg_spread_shard_id g"
  "sg_total_regular_messages (add_shard C now g i d) = sg_total_regular_messages g"
  "sg_backpressure_limit (add_shard C now g i d) = sg_backpressure_limit g"
  by (simp_all add: add_shard_def Let_def)

lemma add_shards_fields:
  "sg_num_shards (foldl (\<lambda>g i. add_shard C now g (f i) d) g is) = sg_num_shards g \<and>
   sg_shard_size (foldl (\<lambda>g i. add_shard C now g (f i) d) g is) = sg_shard_size g \<and>
   sg_deadzone_shard_id (foldl (\<lambda>g i. add_shard C now g (f i) d) g is) = sg_deadzone_shard_id g \<and>
   sg_spread_shard_id (foldl (\<lambda>g i. add_shard C now g (f i) d) g is) = sg_spread_shard_id g \<and>
   sg_total_regular_messages (foldl (\<lambda>g i. add_shard C now g (f i) d) g is) = sg_total_regular_messages g \<and>
   sg_backpressure_limit (foldl (\<lambda>g i. add_shard C now g (f i) d) g is) = sg_backpressure_limit g"
  by (induction "is" arbitrary: g) simp_all

lemma add_shards_last_access:
  "(\<forall>(i, s)\<in>set (sg_shards g). ms_last_access s = now) \<Longrightarrow>
   (\<forall>(i, s)\<in>set (sg_shards (foldl (\<lambda>g i. add_shard C now g (f i) d) g is)). ms_last_access s = now)"
proof (induction "is" arbitrary: g)
  case (Cons i "is")
  have "\<forall>(j, s)\<in>set (sg_shards (add_shard C now g (f i) d)). ms_last_access s = now"
    using Cons.prems by (auto dest!: subsetD [OF set_hm_insert_sub])
  from Cons.IH [OF this] show ?case by (simp only: foldl_Cons)
qed simp

lemma new_fields [simp]:
  "sg_num_shards (shard_manager_new C now num sz) = num"
  "sg_shard_size (shard_manager_new C now num sz) = sz"
  "sg_deadzone_shard_id (shard_manager_new C now num sz) = 0"
  "sg_spread_shard_id (shard_manager_new C now num sz) = word_of_nat num"
  "sg_total_regular_messages (shard_manager_new C now num sz) = 0"
  "sg_backpressure_limit (shard_manager_new C now num sz) = backpressure_limit_of num sz"
  by (simp_all add: shard_manager_new_def Let_def add_shards_fields)

lemma select_in_range:
  assumes "2 \<le> sg_num_shards g" and "sg_num_shards g < 2 ^ 64"
  shows "\<exists>i. select_shard_for_message g = ret (i, g\<lparr>sg_round_robin := sg_round_robin g + 1\<rparr>) \<and>
     unat i = 1 + unat (sg_round_robin g) mod (sg_num_shards g - 1) \<and> 1 \<le> unat i \<and> unat i < sg_num_shards g"
proof -
  define k where "k = sg_num_shards g - 1"
  have k: "0 < k" "k + 1 < 2 ^ 64" "word_of_nat (sg_num_shards g) - 1 = (word_of_nat k :: u64)"
    using assms by (simp_all add: k_def of_nat_diff)
  then have uk: "unat (word_of_nat k :: u64) = k" by (simp add: unat_of_nat)
  then have nz: "(word_of_nat k :: u64) \<noteq> 0" using k(1) by auto
  have um: "unat (sg_round_robin g mod word_of_nat k) = unat (sg_round_robin g) mod k"
    by (simp add: unat_mod uk)
  have lt: "unat (sg_round_robin g) mod k < k" using k(1) by simp
  have "unat (1 + sg_round_robin g mod word_of_nat k) = 1 + unat (sg_round_robin g) mod k"
    using um lt k(2) by (simp add: unat_word_ariths)
  moreover have "1 + unat (sg_round_robin g) mod k < sg_num_shards g"
    using lt assms(1) k_def by linarith
  moreover have "select_shard_for_message g =
      ret (1 + sg_round_robin g mod word_of_nat k, g\<lparr>sg_round_robin := sg_round_robin g + 1\<rparr>)"
    using nz by (simp add: select_shard_for_message_def Let_def k(3))
  ultimately show ?thesis unfolding k_def [symmetric] by (intro exI conjI) (assumption, simp_all)
qed

text \<open>Below the limit, \<open>push\<close> is a push to the round-robin shard that counts its successes.\<close>

lemma push_is_reserved:
  assumes "sg_total_regular_messages g < sg_backpressure_limit g"
    and "select_shard_for_message g = ret (i, g1)" and "push_reserved C i g1 m = (r, g2)"
  shows "shard_manager_push C g m = ret (r, case r of Inl _ \<Rightarrow> g2
     | Inr _ \<Rightarrow> g2\<lparr>sg_total_regular_messages := sg_total_regular_messages g2 + 1\<rparr>)"
proof -
  from assms(1) have "\<not> sg_total_regular_messages g \<ge> sg_backpressure_limit g" by simp
  with assms(2,3) show ?thesis
    by (auto simp: shard_manager_push_def push_reserved_def Let_def split: option.splits)
qed

lemma shard_manager_push_total:
  assumes "2 \<le> sg_num_shards g" and "sg_num_shards g < 2 ^ 64"
  shows "\<exists>r g'. shard_manager_push C g m = ret (r, g')"
proof (cases "sg_total_regular_messages g < sg_backpressure_limit g")
  case True
  from select_in_range [OF assms] obtain i g1 where "select_shard_for_message g = ret (i, g1)" by blast
  moreover obtain r g2 where "push_reserved C i g1 m = (r, g2)" by fastforce
  ultimately show ?thesis using push_is_reserved [OF True] by blast
next
  case False
  then have "sg_backpressure_limit g \<le> sg_total_regular_messages g" by simp
  then show ?thesis by (simp add: shard_manager_push_def)
qed

text \<open>The unbatched worker is the batched one with batches of one message.\<close>

lemma worker_run_round_eq:
  "worker_round C 1 k g = map_option (\<lambda>(m, g'). ([m], g')) (worker_run_round C k g)"
  by (simp add: worker_round_def worker_run_round_def split: option.splits prod.splits)

lemma drain_receiver_frame: "drain_receiver C g i = Some (ms, g') \<Longrightarrow> \<exists>cs. g' = g\<lparr>sg_chans := cs\<rparr>"
proof (cases "map_of (sg_receivers g) i")
  case None
  assume "drain_receiver C g i = Some (ms, g')"
  with None show ?thesis by (intro exI [of _ "sg_chans g"]) (simp add: drain_receiver_def)
qed (auto simp: drain_receiver_def bind_eq_Some_conv)

lemma drain_spread_frame:
  assumes "drain_shard C g (sg_spread_shard_id g) = Some (ms, g')"
  shows "\<exists>cs. g' = g\<lparr>sg_chans := cs\<rparr>"
proof -
  from assms obtain ms1 g1 where g1: "drain_receiver C g (sg_spread_shard_id g) = Some (ms1, g1)"
    unfolding drain_shard_def by (cases "drain_receiver C g (sg_spread_shard_id g)") auto
  then obtain cs where cs: "g1 = g\<lparr>sg_chans := cs\<rparr>" using drain_receiver_frame by blast
  with assms g1 show ?thesis by (simp add: drain_shard_def is_regular_shard_def) blast
qed

lemma shard_step_frame:
  assumes "shard_step C g g'"
  shows "sg_shards g' = sg_shards g \<and> sg_num_shards g' = sg_num_shards g \<and> sg_shard_size g' = sg_shard_size g \<and>
    sg_backpressure_limit g' = sg_backpressure_limit g \<and> sg_spread_shard_id g' = sg_spread_shard_id g \<and>
    sg_deadzone_shard_id g' = sg_deadzone_shard_id g"
  using assms
proof (induction rule: shard_step.induct)
  case (push g m r g')
  then show ?case
    by (auto simp: shard_manager_push_def select_shard_for_message_def shard_push_def Let_def
        split: if_splits option.splits)
next
  case (drain g ms g')
  then show ?case using drain_spread_frame by fastforce
qed (auto simp: push_spread_def push_deadzone_def push_reserved_def shard_push_def get_receiver_def
    worker_round_def Let_def split: option.splits prod.splits)

lemma shard_step_total:
  assumes "shard_step C g g'"
  shows "sg_total_regular_messages g' = sg_total_regular_messages g \<or>
    sg_total_regular_messages g < sg_backpressure_limit g \<and>
    sg_total_regular_messages g' = sg_total_regular_messages g + 1"
  using assms
proof (induction rule: shard_step.induct)
  case (push g m r g')
  show ?case
  proof (cases "sg_total_regular_messages g \<ge> sg_backpressure_limit g")
    case True
    with push show ?thesis by (auto simp: shard_manager_push_def)
  next
    case False
    then have "sg_total_regular_messages g < sg_backpressure_limit g" by simp
    moreover from push False have "sg_total_regular_messages g' = sg_total_regular_messages g \<or>
        sg_total_regular_messages g' = sg_total_regular_messages g + 1"
      by (auto simp: shard_manager_push_def select_shard_for_message_def shard_push_def Let_def
          simp del: not_le split: if_split_asm option.split_asm)
    ultimately show ?thesis by blast
  qed
next
  case (drain g ms g')
  then show ?case using drain_spread_frame by fastforce
next
  case (spread g m r g')
  then have "sg_total_regular_messages g' = sg_total_regular_messages g"
    by (auto simp: push_spread_def push_reserved_def shard_push_def Let_def split: option.split_asm)
  then show ?case by (rule disjI1)
next
  case (deadzone g m r g')
  then have "sg_total_regular_messages g' = sg_total_regular_messages g"
    by (auto simp: push_deadzone_def push_reserved_def shard_push_def Let_def split: option.split_asm)
  then show ?case by (rule disjI1)
next
  case (take g i k g')
  then show ?case by (auto simp: get_receiver_def)
next
  case (worker n k g ms g')
  then have "sg_total_regular_messages g' = sg_total_regular_messages g"
    by (auto simp: worker_round_def split: option.split_asm prod.split_asm)
  then show ?case by (rule disjI1)
qed

locale shard_channels = bounded_channel C contents capacity
  for C :: "('q, message) chan_ops" and contents :: "'q \<Rightarrow> message list" and capacity :: "'q \<Rightarrow> nat"
begin

lemma add_shard_inv:
  assumes "shard_inv contents capacity g"
  shows "shard_inv contents capacity (add_shard C now g i d)"
  unfolding shard_inv_def
proof (intro conjI)
  show "\<forall>q\<in>set (sg_chans (add_shard C now g i d)).
      capacity q = sg_shard_size (add_shard C now g i d) \<and> length (contents q) \<le> sg_shard_size (add_shard C now g i d)"
    using assms by (auto simp: shard_inv_def bounded)
  have lt: "map_of (sg_shards g) j = Some s \<Longrightarrow> ms_tx s < length (sg_chans g)" for j s
    using assms by (auto simp: shard_inv_def)
  then show "\<forall>j s. map_of (sg_shards (add_shard C now g i d)) j = Some s \<longrightarrow>
      ms_tx s < length (sg_chans (add_shard C now g i d))"
    by (auto simp: less_Suc_eq)
  show "\<forall>j k s t. map_of (sg_shards (add_shard C now g i d)) j = Some s \<and>
      map_of (sg_shards (add_shard C now g i d)) k = Some t \<and> ms_tx s = ms_tx t \<longrightarrow> j = k"
  proof (intro allI impI, elim conjE)
    fix j k s t
    assume st: "map_of (sg_shards (add_shard C now g i d)) j = Some s"
      "map_of (sg_shards (add_shard C now g i d)) k = Some t" "ms_tx s = ms_tx t"
    have old: "\<lbrakk>map_of (sg_shards g) j = Some s; map_of (sg_shards g) k = Some t\<rbrakk> \<Longrightarrow> j = k"
      using assms st(3) unfolding shard_inv_def by blast
    have tx: "map_of (sg_shards (add_shard C now g i d)) l = Some u \<Longrightarrow>
        (if l = i then ms_tx u = length (sg_chans g) else map_of (sg_shards g) l = Some u \<and> ms_tx u < length (sg_chans g))"
      for l u by (auto dest: lt)
    consider "j = i" "k = i" | "j = i" "k \<noteq> i" | "j \<noteq> i" "k = i" | "j \<noteq> i" "k \<noteq> i" by blast
    then show "j = k"
    proof cases
      case 1 then show ?thesis by simp
    next
      case 2 then show ?thesis using tx [OF st(1)] tx [OF st(2)] st(3) by simp
    next
      case 3 then show ?thesis using tx [OF st(1)] tx [OF st(2)] st(3) by simp
    next
      case 4
      with tx [OF st(1)] tx [OF st(2)] have "map_of (sg_shards g) j = Some s" "map_of (sg_shards g) k = Some t"
        by simp_all
      then show ?thesis by (rule old)
    qed
  qed
  show "\<forall>j k s. map_of (sg_receivers (add_shard C now g i d)) j = Some k \<and>
      map_of (sg_shards (add_shard C now g i d)) j = Some s \<longrightarrow> k = ms_tx s"
    using assms unfolding shard_inv_def by (auto split: if_splits)
qed

lemma add_shards_inv:
  "shard_inv contents capacity g \<Longrightarrow>
   shard_inv contents capacity (foldl (\<lambda>g i. add_shard C now g (f i) d) g is)"
  by (induction "is" arbitrary: g) (simp_all add: add_shard_inv)

lemma new_inv: "shard_inv contents capacity (shard_manager_new C now num sz)"
  unfolding shard_manager_new_def Let_def
  by (intro add_shard_inv add_shards_inv) (simp add: shard_inv_def)

lemma put_chan_inv:
  assumes "shard_inv contents capacity g" and "capacity q = sg_shard_size g" and "length (contents q) \<le> sg_shard_size g"
  shows "shard_inv contents capacity (g\<lparr>sg_chans := (sg_chans g)[k := q]\<rparr>)"
  using assms unfolding shard_inv_def by (auto dest!: subsetD [OF set_update_subset_insert])

lemma put_chan_queue:
  assumes "shard_inv contents capacity g" and "map_of (sg_shards g) i = Some s"
  shows "shard_queue contents (g\<lparr>sg_chans := (sg_chans g)[ms_tx s := q]\<rparr>) j =
     (if j = i then Some (contents q) else shard_queue contents g j)"
proof (cases "map_of (sg_shards g) j")
  case (Some t)
  have "ms_tx s < length (sg_chans g)" and "j \<noteq> i \<Longrightarrow> ms_tx t \<noteq> ms_tx s"
    using assms Some unfolding shard_inv_def by blast+
  with Some assms(2) show ?thesis by (auto simp: shard_queue_def)
qed (use assms(2) in \<open>auto simp: shard_queue_def\<close>)

lemma shard_push_spec:
  assumes inv: "shard_inv contents capacity g" and s: "map_of (sg_shards g) i = Some s"
  shows "case shard_push C g s m of
      None \<Rightarrow> (\<exists>ms. shard_queue contents g i = Some ms \<and> sg_shard_size g \<le> length ms)
    | Some g' \<Rightarrow> (\<exists>ms. shard_queue contents g i = Some ms \<and> length ms < sg_shard_size g \<and>
        (\<forall>j. shard_queue contents g' j = (if j = i then Some (ms @ [m]) else shard_queue contents g j))) \<and>
        shard_inv contents capacity g' \<and> (\<exists>cs. g' = g\<lparr>sg_chans := cs\<rparr>)"
proof -
  let ?q = "sg_chans g ! ms_tx s"
  have q: "?q \<in> set (sg_chans g)" using inv s by (auto simp: shard_inv_def)
  then have cap: "capacity ?q = sg_shard_size g" using inv by (auto simp: shard_inv_def)
  have qi: "shard_queue contents g i = Some (contents ?q)" using s by (simp add: shard_queue_def)
  show ?thesis
  proof (cases "ch_try_send C ?q m")
    case None
    moreover from None have "sg_shard_size g \<le> length (contents ?q)" using cap by (simp add: send_None_iff)
    ultimately show ?thesis using qi by (simp add: shard_push_def)
  next
    case (Some q')
    from send_iff [OF Some] cap have q': "length (contents ?q) < sg_shard_size g"
      "contents q' = contents ?q @ [m]" "capacity q' = sg_shard_size g" by auto
    then have "shard_inv contents capacity (g\<lparr>sg_chans := (sg_chans g)[ms_tx s := q']\<rparr>)"
      by (intro put_chan_inv [OF inv]) simp_all
    then show ?thesis using Some qi q' put_chan_queue [OF inv s, of q'] by (auto simp: shard_push_def)
  qed
qed

lemma drain_spec:
  assumes inv: "shard_inv contents capacity g" and s: "map_of (sg_shards g) i = Some s"
    and r: "map_of (sg_receivers g) i = Some k"
  shows "\<exists>ms g'. drain_receiver C g i = Some (ms, g') \<and> shard_queue contents g i = Some ms \<and>
     (\<forall>j. shard_queue contents g' j = (if j = i then Some [] else shard_queue contents g j)) \<and>
     shard_inv contents capacity g'"
proof -
  let ?q = "sg_chans g ! ms_tx s"
  have k: "k = ms_tx s" using inv s r unfolding shard_inv_def by blast
  have "?q \<in> set (sg_chans g)" using inv s by (auto simp: shard_inv_def)
  then have cap: "capacity ?q = sg_shard_size g" using inv by (auto simp: shard_inv_def)
  obtain q' where q': "drain_all C ?q = Some (contents ?q, q')" "contents q' = []" "capacity q' = capacity ?q"
    using drain_all_terminates [of ?q] by blast
  have "shard_inv contents capacity (g\<lparr>sg_chans := (sg_chans g)[ms_tx s := q']\<rparr>)"
    using q'(2,3) cap by (intro put_chan_inv [OF inv]) simp_all
  with q' put_chan_queue [OF inv s, of q'] s r k show ?thesis
    by (simp add: drain_receiver_def shard_queue_def)
qed

lemma put_any_inv:
  assumes "shard_inv contents capacity g"
    and "k < length (sg_chans g) \<Longrightarrow> capacity q = capacity (sg_chans g ! k) \<and> length (contents q) \<le> length (contents (sg_chans g ! k))"
  shows "shard_inv contents capacity (g\<lparr>sg_chans := (sg_chans g)[k := q]\<rparr>)"
proof (cases "k < length (sg_chans g)")
  case True
  then have "sg_chans g ! k \<in> set (sg_chans g)" by simp
  then have "capacity (sg_chans g ! k) = sg_shard_size g" "length (contents (sg_chans g ! k)) \<le> sg_shard_size g"
    using assms(1) unfolding shard_inv_def by blast+
  with assms(2) [OF True] show ?thesis by (intro put_chan_inv [OF assms(1)]) simp_all
qed (use assms(1) in \<open>simp add: list_update_beyond\<close>)

lemma drain_receiver_inv:
  assumes "shard_inv contents capacity g" and "drain_receiver C g i = Some (ms, g')"
  shows "shard_inv contents capacity g'"
proof (cases "map_of (sg_receivers g) i")
  case None
  with assms show ?thesis by (simp add: drain_receiver_def)
next
  case (Some k)
  obtain q' where q': "drain_all C (sg_chans g ! k) = Some (contents (sg_chans g ! k), q')" "contents q' = []"
    "capacity q' = capacity (sg_chans g ! k)" using drain_all_terminates by blast
  with assms(2) Some have "g' = g\<lparr>sg_chans := (sg_chans g)[k := q']\<rparr>" by (simp add: drain_receiver_def)
  with q' show ?thesis by (simp add: put_any_inv [OF assms(1)])
qed

lemma worker_round_inv:
  assumes "shard_inv contents capacity g" and "worker_round C n k g = Some (ms, g')"
  shows "shard_inv contents capacity g'"
proof -
  from assms(2) obtain m q r q' where q: "ch_try_recv C (sg_chans g ! k) = Some (m, q)"
    and q': "recv_upto C (n - 1) q = (r, q')" and g': "g' = g\<lparr>sg_chans := (sg_chans g)[k := q']\<rparr>"
    by (auto simp: worker_round_def split: option.splits prod.splits)
  show ?thesis unfolding g' using recv_iff [OF q] recv_upto_take [OF q']
    by (intro put_any_inv [OF assms(1)]) simp
qed

lemma shard_push_inv:
  assumes "shard_inv contents capacity g" "map_of (sg_shards g) i = Some s" "shard_push C g s m = Some g'"
  shows "shard_inv contents capacity g'"
  using shard_push_spec [OF assms(1,2), of m] assms(3) by simp

lemma inv_counters [simp]:
  "shard_inv contents capacity (g\<lparr>sg_messages_allocated := a\<rparr>) = shard_inv contents capacity g"
  "shard_inv contents capacity (g\<lparr>sg_messages_dropped := d\<rparr>) = shard_inv contents capacity g"
  "shard_inv contents capacity (g\<lparr>sg_round_robin := r\<rparr>) = shard_inv contents capacity g"
  "shard_inv contents capacity (g\<lparr>sg_total_regular_messages := t\<rparr>) = shard_inv contents capacity g"
  "shard_queue contents (g\<lparr>sg_messages_allocated := a\<rparr>) = shard_queue contents g"
  "shard_queue contents (g\<lparr>sg_messages_dropped := d\<rparr>) = shard_queue contents g"
  "shard_queue contents (g\<lparr>sg_round_robin := r\<rparr>) = shard_queue contents g"
  "shard_queue contents (g\<lparr>sg_total_regular_messages := t\<rparr>) = shard_queue contents g"
  by (simp_all add: shard_inv_def shard_queue_def fun_eq_iff)

lemma push_reserved_inv:
  assumes "shard_inv contents capacity g" and "push_reserved C i g m = (r, g')"
  shows "shard_inv contents capacity g'"
proof (cases "map_of (sg_shards g) i")
  case None
  with assms show ?thesis by (auto simp: push_reserved_def Let_def)
next
  case (Some s)
  let ?g = "g\<lparr>sg_messages_allocated := sg_messages_allocated g + 1\<rparr>"
  from Some assms(2) have "(r, g') = (case shard_push C ?g s m of None \<Rightarrow> (Inl Full, ?g) | Some g \<Rightarrow> (Inr i, g))"
    by (simp add: push_reserved_def Let_def)
  then show ?thesis using shard_push_inv [of ?g i s m] Some assms(1) by (simp split: option.splits)
qed

lemma manager_push_inv:
  assumes "shard_inv contents capacity g" and "shard_manager_push C g m = ret (r, g')"
  shows "shard_inv contents capacity g'"
proof (cases "sg_total_regular_messages g \<ge> sg_backpressure_limit g")
  case True
  with assms show ?thesis by (auto simp: shard_manager_push_def)
next
  case False
  then have lt: "sg_total_regular_messages g < sg_backpressure_limit g" by simp
  from False assms(2) obtain i where sel: "select_shard_for_message g = ret (i, g\<lparr>sg_round_robin := sg_round_robin g + 1\<rparr>)"
    by (cases "select_shard_for_message g")
      (auto simp: shard_manager_push_def select_shard_for_message_def Let_def split: if_split_asm)
  obtain r2 g2 where g2: "push_reserved C i (g\<lparr>sg_round_robin := sg_round_robin g + 1\<rparr>) m = (r2, g2)" by fastforce
  have "shard_inv contents capacity g2" by (rule push_reserved_inv [OF _ g2]) (simp add: assms(1))
  then show ?thesis using push_is_reserved [OF lt sel g2] assms(2) by (auto split: sum.splits)
qed

lemma step_inv:
  assumes "shard_step C g g'" and "shard_inv contents capacity g"
  shows "shard_inv contents capacity g'"
  using assms
proof (induction rule: shard_step.induct)
  case (push g m r g')
  then show ?case using manager_push_inv by blast
next
  case (drain g ms g')
  then obtain h where h: "drain_receiver C g (sg_spread_shard_id g) = Some (ms, h)"
    by (auto simp: drain_shard_def bind_eq_Some_conv)
  with drain.prems have "shard_inv contents capacity h" using drain_receiver_inv by blast
  with h drain.hyps show ?case by (auto simp: drain_shard_def)
next
  case (take g i k g')
  then have "g' = g\<lparr>sg_receivers := hm_remove i (sg_receivers g)\<rparr>" by (simp add: get_receiver_def)
  then show ?case using take.prems unfolding shard_inv_def by (auto split: if_splits)
qed (auto simp: push_spread_def push_deadzone_def intro: push_reserved_inv worker_round_inv)

lemma reachable_inv:
  "(shard_step C)\<^sup>*\<^sup>* (shard_manager_new C now num sz) g \<Longrightarrow> shard_inv contents capacity g"
  by (induction rule: rtranclp_induct) (auto intro: new_inv step_inv)

lemma push_reserved_spec:
  assumes "shard_inv contents capacity g" and "map_of (sg_shards g) i \<noteq> None"
  shows "\<exists>ms g'. shard_queue contents g i = Some ms \<and>
     push_reserved C i g m = (if length ms < sg_shard_size g then Inr i else Inl Full, g') \<and>
     (\<forall>j. shard_queue contents g' j =
        (if j = i \<and> length ms < sg_shard_size g then Some (ms @ [m]) else shard_queue contents g j))"
proof -
  let ?g = "g\<lparr>sg_messages_allocated := sg_messages_allocated g + 1\<rparr>"
  from assms(2) obtain s where s: "map_of (sg_shards ?g) i = Some s" by auto
  have inv: "shard_inv contents capacity ?g" using assms(1) by simp
  show ?thesis
  proof (cases "shard_push C ?g s m")
    case None
    with shard_push_spec [OF inv s, of m] obtain ms where "shard_queue contents g i = Some ms" "\<not> length ms < sg_shard_size g"
      by auto
    then show ?thesis using None s by (intro exI [of _ ms]) (simp add: push_reserved_def Let_def)
  next
    case (Some g')
    with shard_push_spec [OF inv s, of m] obtain ms where ms: "shard_queue contents g i = Some ms" "length ms < sg_shard_size g"
      "\<forall>j. shard_queue contents g' j = (if j = i then Some (ms @ [m]) else shard_queue contents g j)" by auto
    then show ?thesis using Some s by (intro exI [of _ ms] exI [of _ g']) (simp add: push_reserved_def Let_def)
  qed
qed

text \<open>Pushes to the spread shard fill its queue up to the shard size; the rest is dropped.\<close>

lemma push_spread_all:
  assumes "shard_inv contents capacity g" and "shard_queue contents g (sg_spread_shard_id g) = Some q" and "length q \<le> sg_shard_size g"
  shows "shard_queue contents (foldl (\<lambda>g m. snd (push_spread C g m)) g ms) j =
    (if j = sg_spread_shard_id g then Some (take (sg_shard_size g) (q @ ms)) else shard_queue contents g j)"
  using assms
proof (induction ms arbitrary: g q)
  case (Cons m ms)
  let ?i = "sg_spread_shard_id g"
  have ex: "map_of (sg_shards g) ?i \<noteq> None" using Cons.prems(2) by (auto simp: shard_queue_def)
  from push_reserved_spec [OF Cons.prems(1) ex, of m] Cons.prems(2) obtain g' where
    p: "push_spread C g m = (if length q < sg_shard_size g then Inr ?i else Inl Full, g')"
      "\<And>j. shard_queue contents g' j = (if j = ?i \<and> length q < sg_shard_size g then Some (q @ [m]) else shard_queue contents g j)"
    by (auto simp: push_spread_def)
  have fr: "sg_spread_shard_id g' = ?i" "sg_shard_size g' = sg_shard_size g" and inv: "shard_inv contents capacity g'"
    using shard_step_frame [OF shard_step.spread [OF p(1)]] push_reserved_inv [OF Cons.prems(1)] p(1) by (auto simp: push_spread_def)
  define q' where "q' = (if length q < sg_shard_size g then q @ [m] else q)"
  have "shard_queue contents g' (sg_spread_shard_id g') = Some q'" "length q' \<le> sg_shard_size g'"
    using p(2) Cons.prems(2,3) fr by (auto simp: q'_def)
  from Cons.IH [OF inv this] show ?case using p fr Cons.prems(3) by (auto simp: q'_def take_Cons' diff_Suc split: nat.split)
qed simp

lemma drain_shard_total: "\<exists>ms g'. drain_shard C g i = Some (ms, g')"
proof (cases "map_of (sg_receivers g) i")
  case None
  then show ?thesis by (simp add: drain_shard_def drain_receiver_def)
next
  case (Some k)
  obtain q' where "drain_all C (sg_chans g ! k) = Some (contents (sg_chans g ! k), q')"
    using drain_all_terminates by blast
  with Some show ?thesis by (simp add: drain_shard_def drain_receiver_def)
qed

end

interpretation list_shards: shard_channels list_chan snd fst
  by unfold_locales

lemma shard_step_frames:
  "(shard_step C)\<^sup>*\<^sup>* g g' \<Longrightarrow> sg_shards g' = sg_shards g \<and> sg_num_shards g' = sg_num_shards g \<and>
    sg_shard_size g' = sg_shard_size g \<and> sg_backpressure_limit g' = sg_backpressure_limit g \<and>
    sg_spread_shard_id g' = sg_spread_shard_id g \<and> sg_deadzone_shard_id g' = sg_deadzone_shard_id g"
  by (induction rule: rtranclp_induct) (simp, drule shard_step_frame, simp)

lemma add_shards_present:
  "map_of (sg_shards (foldl (\<lambda>g i. add_shard C now g (f i) d) g is)) j \<noteq> None \<longleftrightarrow>
     j \<in> f ` set is \<or> map_of (sg_shards g) j \<noteq> None"
  by (induction "is" arbitrary: g) auto

lemma new_present:
  assumes "i \<le> num"
  shows "map_of (sg_shards (shard_manager_new C now num sz)) (word_of_nat i) \<noteq> None"
proof -
  have "i = num \<or> i = 0 \<or> i \<in> set [1..<num]" using assms by auto
  then show ?thesis
    by (auto simp: shard_manager_new_def Let_def add_shards_present simp del: not_None_eq)
qed

section \<open>Properties\<close>

text \<open>
  In every state the gateway can reach, the shards \<open>0\<close> to \<open>num_shards\<close> all exist, no
  queue is longer than the configured shard size, and the channels of different shards are
  different, so a message pushed to one shard can never surface in another.
\<close>

lemma shards_reachable_ok:
  assumes "bounded_channel C cont cap" and "(shard_step C)\<^sup>*\<^sup>* (shard_manager_new C now num sz) g" and "i \<le> num"
  shows "\<exists>ms. shard_queue cont g (word_of_nat i) = Some ms \<and> length ms \<le> sz \<and> shard_inv cont cap g"
proof -
  have sc: "shard_channels C cont cap" using assms(1) by (rule shard_channels.intro)
  have inv: "shard_inv cont cap g" by (rule shard_channels.reachable_inv [OF sc assms(2)])
  from shard_step_frames [OF assms(2)] new_present [OF assms(3), of C now sz]
  obtain s where s: "map_of (sg_shards g) (word_of_nat i) = Some s" and sz: "sg_shard_size g = sz" by auto
  with inv have "sg_chans g ! ms_tx s \<in> set (sg_chans g)" unfolding shard_inv_def by auto
  with inv sz have "length (cont (sg_chans g ! ms_tx s)) \<le> sz" unfolding shard_inv_def by auto
  with s inv show ?thesis by (simp add: shard_queue_def)
qed

text \<open>Below the backpressure limit a message goes to the regular shard whose turn it is.\<close>

lemma manager_push_below:
  assumes "bounded_channel C cont cap" and "(shard_step C)\<^sup>*\<^sup>* (shard_manager_new C now num sz) g"
    and "2 \<le> num" and "num < 2 ^ 64" and "sg_total_regular_messages g < backpressure_limit_of num sz"
  obtains i ms g' where "unat i = 1 + unat (sg_round_robin g) mod (num - 1)" "unat i < num" "shard_queue cont g i = Some ms"
    "shard_manager_push C g m = ret (if length ms < sz then Inr i else Inl Full, g')"
    "\<And>j. shard_queue cont g' j = (if j = i \<and> length ms < sz then Some (ms @ [m]) else shard_queue cont g j)"
proof -
  have sc: "shard_channels C cont cap" using assms(1) by (rule shard_channels.intro)
  note fr = shard_step_frames [OF assms(2), simplified]
  let ?g = "g\<lparr>sg_round_robin := sg_round_robin g + 1\<rparr>"
  from fr assms(3,4) select_in_range [of g] obtain i where i: "select_shard_for_message g = ret (i, ?g)"
    "unat i = 1 + unat (sg_round_robin g) mod (num - 1)" "unat i < num" by auto
  have "map_of (sg_shards ?g) i \<noteq> None" using new_present [of "unat i" num C now sz] i(3) fr by simp
  moreover have "shard_inv cont cap ?g"
    using shard_channels.reachable_inv [OF sc assms(2)] by (simp add: shard_channels.inv_counters [OF sc])
  ultimately obtain ms g2 where p: "shard_queue cont g i = Some ms"
    "push_reserved C i ?g m = (if length ms < sz then Inr i else Inl Full, g2)"
    "\<forall>j. shard_queue cont g2 j = (if j = i \<and> length ms < sz then Some (ms @ [m]) else shard_queue cont g j)"
    using shard_channels.push_reserved_spec [OF sc, of ?g i m] fr by (auto simp: shard_channels.inv_counters [OF sc])
  have "sg_total_regular_messages g < sg_backpressure_limit g" using assms(5) fr by simp
  from push_is_reserved [OF this i(1) p(2)] show thesis using that [OF i(2,3) p(1)] p(3)
    by (auto simp: shard_channels.inv_counters [OF sc])
qed

text \<open>On every branch the message is appended to the regular shard that is returned, or to none.\<close>

lemma manager_push_queues:
  assumes "bounded_channel C cont cap" and "(shard_step C)\<^sup>*\<^sup>* (shard_manager_new C now num sz) g"
    and "2 \<le> num" and "num < 2 ^ 64"
  obtains r g' where "shard_manager_push C g m = ret (r, g')" "\<And>i. r = Inr i \<Longrightarrow> 1 \<le> unat i \<and> unat i < num"
    "\<And>j. shard_queue cont g' j = map_option (\<lambda>q. q @ (if r = Inr j then [m] else [])) (shard_queue cont g j)"
proof (cases "sg_total_regular_messages g < backpressure_limit_of num sz")
  case True
  obtain i ms g' where p: "unat i = 1 + unat (sg_round_robin g) mod (num - 1)" "unat i < num" "shard_queue cont g i = Some ms"
    "shard_manager_push C g m = ret (if length ms < sz then Inr i else Inl Full, g')"
    "\<And>j. shard_queue cont g' j = (if j = i \<and> length ms < sz then Some (ms @ [m]) else shard_queue cont g j)"
    by (rule manager_push_below [OF assms True]) blast
  show thesis
    by (rule that [OF p(4)]) (use p in \<open>auto simp: option.map_ident split: if_splits\<close>)
next
  case False
  then have "shard_manager_push C g m = ret (Inl Backpressure, g\<lparr>sg_messages_dropped := sg_messages_dropped g + 1\<rparr>)"
    using shard_step_frames [OF assms(2)] by (simp add: shard_manager_push_def not_less)
  then show thesis by (rule that) (simp_all add: shard_queue_def option.map_ident)
qed

text \<open>
  C9. What \<open>push\<close> does in a reachable state, on every branch. At or above the backpressure
  limit the message is refused and counted as dropped, nothing else changes. Below it the
  message goes to the regular shard whose turn it is, never to the deadzone shard \<open>0\<close> or the
  spread shard: appended to its queue, or refused as \<open>Full\<close> with all queues unchanged.
\<close>

theorem shard_push_correct:
  assumes "bounded_channel C cont cap" and "(shard_step C)\<^sup>*\<^sup>* (shard_manager_new C now num sz) g"
    and "2 \<le> num" and "num < 2 ^ 64"
  shows "if sg_total_regular_messages g \<ge> backpressure_limit_of num sz
    then shard_manager_push C g m = ret (Inl Backpressure, g\<lparr>sg_messages_dropped := sg_messages_dropped g + 1\<rparr>)
    else \<exists>i ms g'. unat i = 1 + unat (sg_round_robin g) mod (num - 1) \<and> unat i < num \<and> shard_queue cont g i = Some ms \<and>
      shard_manager_push C g m = ret (if length ms < sz then Inr i else Inl Full, g') \<and>
      (\<forall>j. shard_queue cont g' j = (if j = i \<and> length ms < sz then Some (ms @ [m]) else shard_queue cont g j))"
proof (cases "sg_total_regular_messages g \<ge> backpressure_limit_of num sz")
  case True
  then show ?thesis using shard_step_frames [OF assms(2)] by (simp add: shard_manager_push_def)
next
  case False
  then have below: "sg_total_regular_messages g < backpressure_limit_of num sz" by simp
  show ?thesis by (rule manager_push_below [OF assms below, of m]) (use False in auto)
qed

theorem shard_push_correct_witness:
  "\<exists>i g'. shard_manager_push list_chan (shard_manager_new list_chan 0 4 2) (message_new 5 VSAT [1] Operational) = ret (Inr i, g') \<and>
     shard_queue snd g' i = Some [(message_new 5 VSAT [1] Operational)] \<and> unat i = 1"
proof -
  let ?m = "message_new 5 VSAT [1] Operational"
  have "\<not> sg_total_regular_messages (shard_manager_new list_chan 0 4 2) \<ge> backpressure_limit_of 4 2"
    by (simp add: backpressure_limit_of_def)
  moreover have "sg_round_robin (shard_manager_new list_chan 0 4 2) = 0"
    by (simp add: shard_manager_new_def add_shard_def Let_def upt_rec)
  moreover have "shard_queue snd (shard_manager_new list_chan 0 4 2) 1 = Some []"
    by (simp add: shard_manager_new_def add_shard_def Let_def upt_rec shard_queue_def list_chan_def)
  moreover have "unat i = 1 \<Longrightarrow> i = 1" for i :: u64 by (simp add: word_unat_eq_iff)
  ultimately show ?thesis
    using shard_push_correct [OF lc.bounded_channel_axioms rtranclp.rtrancl_refl, where num = 4 and sz = 2 and now = 0 and m = ?m]
    by fastforce
qed

text \<open>
  C10. The backpressure gate never reopens: shard workers take messages out of the channels but
  nothing lowers \<open>total_regular_messages\<close>, so once it has reached the limit every later
  push, after any sequence of pushes, worker rounds and spread drains, is refused.
\<close>

theorem backpressure_permanent:
  assumes "(shard_step C)\<^sup>*\<^sup>* g g'" and "sg_total_regular_messages g \<ge> sg_backpressure_limit g"
  shows "\<exists>g''. shard_manager_push C g' m = ret (Inl Backpressure, g'')"
proof -
  have "sg_total_regular_messages g' = sg_total_regular_messages g" using assms(1)
  proof (induction rule: rtranclp_induct)
    case (step y z)
    with shard_step_total [OF step.hyps(2)] shard_step_frames [OF step.hyps(1)] assms(2) show ?case by auto
  qed simp
  with assms shard_step_frames [OF assms(1)] show ?thesis by (simp add: shard_manager_push_def)
qed

theorem backpressure_permanent_witness:
  "\<exists>g1 k q. shard_manager_push list_chan (shard_manager_new list_chan 0 3 1) (message_new 5 VSAT [1] Operational) = ret (Inr 1, g1) \<and>
     worker_round list_chan 2 k g1 = Some ([(message_new 5 VSAT [1] Operational)], q) \<and> shard_queue snd q 1 = Some [] \<and>
     (\<exists>g''. shard_manager_push list_chan q (message_new 5 VSAT [1] Operational) = ret (Inl Backpressure, g''))"
proof -
  let ?m = "message_new 5 VSAT [1] Operational"
  let ?g0 = "shard_manager_new list_chan 0 3 1"
  obtain g1 where g1: "shard_manager_push list_chan ?g0 ?m = ret (Inr 1, g1)" "sg_total_regular_messages g1 = 1"
    "sg_backpressure_limit g1 = 1" "map_of (sg_shards g1) 1 = map_of (sg_shards ?g0) 1"
    "sg_chans g1 = [(1, []), (1, [?m]), (1, []), (1, [])]"
    by (simp add: shard_manager_new_def add_shard_def Let_def upt_rec list_chan_def shard_manager_push_def
        select_shard_for_message_def shard_push_def backpressure_limit_of_def)
  obtain q where q: "worker_round list_chan 2 1 g1 = Some ([?m], q)" "sg_shards q = sg_shards g1"
      "sg_chans q = [(1, []), (1, []), (1, []), (1, [])]"
    by (simp add: worker_round_def g1(5) list_chan_def)
  have "shard_queue snd q 1 = Some []"
    by (simp add: shard_queue_def q g1(4) shard_manager_new_def add_shard_def Let_def upt_rec)
  moreover have "\<exists>g''. shard_manager_push list_chan q ?m = ret (Inl Backpressure, g'')"
    by (rule backpressure_permanent [of list_chan g1]) (use g1 shard_step.worker [OF q(1)] in auto)
  ultimately show ?thesis using g1(1) q(1) by blast
qed

text \<open>
  Draining the spread shard ends and takes out exactly its queue, oldest first; it leaves
  that queue empty and every other queue as it was.
\<close>

lemma spread_drain_exact:
  assumes "bounded_channel C cont cap" and "(shard_step C)\<^sup>*\<^sup>* (shard_manager_new C now num sz) g"
    and "map_of (sg_receivers g) (word_of_nat num) \<noteq> None"
  shows "\<exists>ms g'. drain_shard C g (word_of_nat num) = Some (ms, g') \<and> shard_queue cont g (word_of_nat num) = Some ms \<and>
    (\<forall>j. shard_queue cont g' j = (if j = word_of_nat num then Some [] else shard_queue cont g j)) \<and>
    sg_total_regular_messages g' = sg_total_regular_messages g"
proof -
  have sc: "shard_channels C cont cap" using assms(1) by (rule shard_channels.intro)
  have fr: "sg_shards g = sg_shards (shard_manager_new C now num sz)" "sg_spread_shard_id g = word_of_nat num"
    using shard_step_frames [OF assms(2)] by simp_all
  from new_present [of num num C now sz] fr obtain s where s: "map_of (sg_shards g) (word_of_nat num) = Some s" by auto
  from assms(3) obtain k where k: "map_of (sg_receivers g) (word_of_nat num) = Some k" by blast
  from shard_channels.drain_spec [OF sc shard_channels.reachable_inv [OF sc assms(2)] s k] obtain ms g'
    where d: "drain_receiver C g (word_of_nat num) = Some (ms, g')" "shard_queue cont g (word_of_nat num) = Some ms"
      "\<forall>j. shard_queue cont g' j = (if j = word_of_nat num then Some [] else shard_queue cont g j)" by blast
  from drain_receiver_frame [OF d(1)] obtain cs where "g' = g\<lparr>sg_chans := cs\<rparr>" by blast
  then have "drain_shard C g (word_of_nat num) = Some (ms, g') \<and> sg_total_regular_messages g' = sg_total_regular_messages g"
    using d(1) fr(2) by (simp add: drain_shard_def is_regular_shard_def)
  with d show ?thesis by blast
qed

text \<open>
  The access time of a shard is set when it is made and never again, so \<open>evict_idle\<close> measures
  age, not idleness: once the gateway has run for the threshold it removes every regular
  shard, however busy, and the next push is lost with \<open>NotFound\<close>.
\<close>

lemma evict_idle_evicts_busy:
  assumes "(shard_step C)\<^sup>*\<^sup>* (shard_manager_new C start num sz) g" and "start + threshold \<le> now"
    and "i \<noteq> 0" and "i \<noteq> word_of_nat num"
  shows "map_of (sg_shards (evict_idle now threshold g)) i = None"
proof -
  have fr: "sg_shards g = sg_shards (shard_manager_new C start num sz)" "sg_deadzone_shard_id g = 0"
    "sg_spread_shard_id g = word_of_nat num" using shard_step_frames [OF assms(1)] by simp_all
  have "\<forall>(i, s)\<in>set (sg_shards g). ms_last_access s = start"
    unfolding fr shard_manager_new_def Let_def add_shard_fields
    by (rule ballI, drule subsetD [OF set_hm_insert_sub], drule insertE)
       (auto dest!: bspec [OF add_shards_last_access, rotated])
  then show ?thesis using assms(2-4) fr(2,3) by (auto simp: evict_idle_def map_of_eq_None_iff)
qed

end
