(* ===== verification/Metrics.thy ===== *)
theory Metrics
  imports Protocol Floats
begin

text \<open>
  \<open>src/src/metrics.rs\<close>: the counters of the gateway. They are 64-bit atomics, updated by
  \<open>fetch_add\<close>, which wraps; \<open>snapshot\<close> derives the averages that the telemetry reports.
\<close>

section \<open>Counters\<close>

record metrics =
  me_messages_translated :: u64
  me_messages_batched :: u64
  me_cache_hits :: u64
  me_cache_misses :: u64
  me_errors :: u64
  me_total_latency_ms :: u64
  me_latency_samples :: u64
  me_spread_sharded_messages :: u64
  me_transmission_batches_sent :: u64
  me_transmission_batch_messages :: u64
  me_iridium_messages :: u64
  me_inmarsat_messages :: u64
  me_vsat_messages :: u64
  me_hfvhf_messages :: u64
  me_rockblock_messages :: u64
  me_samsara_messages :: u64
  me_nidd_messages :: u64
  me_asts_messages :: u64
  me_lora_messages :: u64

definition metrics_new :: metrics where
  "metrics_new =
     \<lparr>me_messages_translated = 0, me_messages_batched = 0, me_cache_hits = 0,
      me_cache_misses = 0, me_errors = 0, me_total_latency_ms = 0,
      me_latency_samples = 0, me_spread_sharded_messages = 0, me_transmission_batches_sent = 0,
      me_transmission_batch_messages = 0, me_iridium_messages = 0, me_inmarsat_messages = 0,
      me_vsat_messages = 0, me_hfvhf_messages = 0, me_rockblock_messages = 0,
      me_samsara_messages = 0, me_nidd_messages = 0, me_asts_messages = 0,
      me_lora_messages = 0\<rparr>"

definition increment_translated :: "metrics \<Rightarrow> metrics" where
  "increment_translated m = m\<lparr>me_messages_translated := me_messages_translated m + 1\<rparr>"

definition increment_batched :: "metrics \<Rightarrow> u64 \<Rightarrow> metrics" where
  "increment_batched m n = m\<lparr>me_messages_batched := me_messages_batched m + n\<rparr>"

definition record_cache_hit :: "metrics \<Rightarrow> metrics" where
  "record_cache_hit m = m\<lparr>me_cache_hits := me_cache_hits m + 1\<rparr>"

definition record_cache_miss :: "metrics \<Rightarrow> metrics" where
  "record_cache_miss m = m\<lparr>me_cache_misses := me_cache_misses m + 1\<rparr>"

definition record_error :: "metrics \<Rightarrow> metrics" where
  "record_error m = m\<lparr>me_errors := me_errors m + 1\<rparr>"

definition record_spread_shard :: "metrics \<Rightarrow> metrics" where
  "record_spread_shard m = m\<lparr>me_spread_sharded_messages := me_spread_sharded_messages m + 1\<rparr>"

definition record_transmission_batch :: "metrics \<Rightarrow> u64 \<Rightarrow> metrics" where
  "record_transmission_batch m n =
     m\<lparr>me_transmission_batches_sent := me_transmission_batches_sent m + 1,
       me_transmission_batch_messages := me_transmission_batch_messages m + n\<rparr>"

text \<open>A duration is a number of nanoseconds; \<open>as_millis() as u64\<close> keeps the low 64 bits.\<close>

definition record_latency :: "metrics \<Rightarrow> nat \<Rightarrow> metrics" where
  "record_latency m d =
     m\<lparr>me_total_latency_ms := me_total_latency_ms m + word_of_nat (d div 1000000),
       me_latency_samples := me_latency_samples m + 1\<rparr>"

fun record_protocol :: "metrics \<Rightarrow> protocol \<Rightarrow> metrics" where
  "record_protocol m IridiumSBD = m\<lparr>me_iridium_messages := me_iridium_messages m + 1\<rparr>"
| "record_protocol m InmarsatC = m\<lparr>me_inmarsat_messages := me_inmarsat_messages m + 1\<rparr>"
| "record_protocol m VSAT = m\<lparr>me_vsat_messages := me_vsat_messages m + 1\<rparr>"
| "record_protocol m HFVHF = m\<lparr>me_hfvhf_messages := me_hfvhf_messages m + 1\<rparr>"
| "record_protocol m RockBLOCK = m\<lparr>me_rockblock_messages := me_rockblock_messages m + 1\<rparr>"
| "record_protocol m Samsara = m\<lparr>me_samsara_messages := me_samsara_messages m + 1\<rparr>"
| "record_protocol m NIDD = m\<lparr>me_nidd_messages := me_nidd_messages m + 1\<rparr>"
| "record_protocol m ASTSpaceMobile = m\<lparr>me_asts_messages := me_asts_messages m + 1\<rparr>"
| "record_protocol m LoRaMesh = m\<lparr>me_lora_messages := me_lora_messages m + 1\<rparr>"

section \<open>Snapshot\<close>

record 'f metrics_snapshot =
  mx_messages_translated :: u64
  mx_messages_batched :: u64
  mx_cache_hit_rate :: 'f
  mx_cache_misses :: u64
  mx_errors :: u64
  mx_spread_sharded_messages :: u64
  mx_avg_latency_ms :: u64
  mx_iridium_messages :: u64
  mx_inmarsat_messages :: u64
  mx_vsat_messages :: u64
  mx_hfvhf_messages :: u64
  mx_rockblock_messages :: u64
  mx_samsara_messages :: u64
  mx_nidd_messages :: u64
  mx_asts_messages :: u64
  mx_lora_messages :: u64
  mx_transmission_batches_sent :: u64
  mx_transmission_batch_messages :: u64
  mx_avg_transmission_batch_size :: 'f

definition metrics_snapshot_of :: "'f f64_ops \<Rightarrow> metrics \<Rightarrow> 'f metrics_snapshot" where
  "metrics_snapshot_of F m =
     (let avg_latency = (if me_latency_samples m = 0 then 0 else me_total_latency_ms m div me_latency_samples m);
          total_cache_lookups = me_cache_hits m + me_cache_misses m;
          cache_hit_rate = (if total_cache_lookups > 0
            then f_mul F (f_div F (f_of_nat F (unat (me_cache_hits m))) (f_of_nat F (unat total_cache_lookups))) (f_of_rat F 100)
            else f_of_rat F 0);
          avg_batch = (if me_transmission_batches_sent m > 0
            then f_div F (f_of_nat F (unat (me_transmission_batch_messages m))) (f_of_nat F (unat (me_transmission_batches_sent m)))
            else f_of_rat F 0)
      in \<lparr>mx_messages_translated = me_messages_translated m, mx_messages_batched = me_messages_batched m, mx_cache_hit_rate = cache_hit_rate,
          mx_cache_misses = me_cache_misses m, mx_errors = me_errors m, mx_spread_sharded_messages = me_spread_sharded_messages m,
          mx_avg_latency_ms = avg_latency, mx_iridium_messages = me_iridium_messages m, mx_inmarsat_messages = me_inmarsat_messages m,
          mx_vsat_messages = me_vsat_messages m, mx_hfvhf_messages = me_hfvhf_messages m, mx_rockblock_messages = me_rockblock_messages m,
          mx_samsara_messages = me_samsara_messages m, mx_nidd_messages = me_nidd_messages m, mx_asts_messages = me_asts_messages m,
          mx_lora_messages = me_lora_messages m, mx_transmission_batches_sent = me_transmission_batches_sent m, mx_transmission_batch_messages = me_transmission_batch_messages m,
          mx_avg_transmission_batch_size = avg_batch\<rparr>)"

text \<open>\<open>total_requests - errors\<close> wraps when more errors than requests are given.\<close>

definition uptime_percentage :: "'f f64_ops \<Rightarrow> u64 \<Rightarrow> u64 \<Rightarrow> 'f" where
  "uptime_percentage F errors total_requests =
     (if total_requests = 0 then f_of_rat F 100
      else f_mul F (f_div F (f_of_nat F (unat (total_requests - errors))) (f_of_nat F (unat total_requests))) (f_of_rat F 100))"

section \<open>Reading the counters\<close>

fun protocol_count :: "metrics \<Rightarrow> protocol \<Rightarrow> u64" where
  "protocol_count m IridiumSBD = me_iridium_messages m"
| "protocol_count m InmarsatC = me_inmarsat_messages m"
| "protocol_count m VSAT = me_vsat_messages m"
| "protocol_count m HFVHF = me_hfvhf_messages m"
| "protocol_count m RockBLOCK = me_rockblock_messages m"
| "protocol_count m Samsara = me_samsara_messages m"
| "protocol_count m NIDD = me_nidd_messages m"
| "protocol_count m ASTSpaceMobile = me_asts_messages m"
| "protocol_count m LoRaMesh = me_lora_messages m"

text \<open>The latencies a gateway reports, one after the other.\<close>

definition record_latencies :: "metrics \<Rightarrow> nat list \<Rightarrow> metrics" where
  "record_latencies m ds = foldl record_latency m ds"

section \<open>Lemmas\<close>

text \<open>\<open>record_protocol\<close> counts its protocol and no other.\<close>

lemma protocol_count_record [simp]:
  "protocol_count (record_protocol m p) q = (if q = p then protocol_count m q + 1 else protocol_count m q)"
  by (cases p; cases q) simp_all

lemma record_latencies_totals:
  "me_total_latency_ms (record_latencies m ds) =
     me_total_latency_ms m + word_of_nat (sum_list (map (\<lambda>d. d div 1000000) ds)) \<and>
   me_latency_samples (record_latencies m ds) = me_latency_samples m + word_of_nat (length ds)"
  by (induction ds arbitrary: m) (simp_all add: record_latencies_def record_latency_def add_ac)

text \<open>The reported average is the mean of the recorded latencies, as long as their sum fits 64 bits.\<close>

lemma avg_latency_exact:
  assumes "ds \<noteq> []" and "sum_list (map (\<lambda>d. d div 1000000) ds) < 2 ^ 64" and "length ds < 2 ^ 64"
  shows "unat (mx_avg_latency_ms (metrics_snapshot_of F (record_latencies metrics_new ds))) =
     sum_list (map (\<lambda>d. d div 1000000) ds) div length ds"
proof -
  have z: "(word_of_nat (length ds) :: u64) \<noteq> 0"
    using assms(1,3) by (simp add: word_of_nat_eq_0_iff unat_of_nat nat_dvd_not_less)
  show ?thesis
    using record_latencies_totals [of metrics_new ds] z assms(2,3)
    by (simp add: metrics_snapshot_of_def Let_def metrics_new_def unat_div unat_of_nat)
qed

text \<open>With more errors than requests the uptime is far above one hundred percent.\<close>

lemma uptime_can_exceed_100: "uptime_percentage exact_ops 2 1 > 100"
  by (simp add: uptime_percentage_def exact_ops_def unsigned_minus_1_eq_mask mask_eq_exp_minus_1)

end
