(* ===== verification/Ewma.thy ===== *)
theory Ewma
  imports Protocol Floats
begin

text \<open>
  The spread tracker of \<open>src/src/gateway.rs\<close>: an exponentially weighted average of the
  bi-temporal spread and of its absolute deviation, from which the gateway derives the
  threshold above which a message counts as part of a reconnect burst.
\<close>

section \<open>State and operations\<close>

record 'f ewma_spread_state =
  ew_spread :: 'f
  ew_abs_dev :: 'f
  ew_initialized :: bool

definition ewma_alpha :: "'f f64_ops \<Rightarrow> 'f" where
  "ewma_alpha F = f_of_rat F (1 / 20)"

definition ewma_sigma :: "'f f64_ops \<Rightarrow> 'f" where
  "ewma_sigma F = f_of_rat F 3"

definition ewma_new :: "'f f64_ops \<Rightarrow> 'f ewma_spread_state" where
  "ewma_new F = \<lparr>ew_spread = f_of_rat F 0, ew_abs_dev = f_of_rat F 0, ew_initialized = False\<rparr>"

definition ewma_update :: "'f f64_ops \<Rightarrow> 'f ewma_spread_state \<Rightarrow> i64 \<Rightarrow> 'f ewma_spread_state" where
  "ewma_update F st sp =
     (let s = f_of_int F (sint sp) in
      if \<not> ew_initialized st then st\<lparr>ew_spread := s, ew_abs_dev := f_abs F s, ew_initialized := True\<rparr>
      else
        let prev = ew_spread st;
            keep = f_sub F (f_of_rat F 1) (ewma_alpha F)
        in st\<lparr>ew_spread := f_add F (f_mul F (ewma_alpha F) s) (f_mul F keep prev),
              ew_abs_dev := f_add F (f_mul F (ewma_alpha F) (f_abs F (f_sub F s prev))) (f_mul F keep (ew_abs_dev st))\<rparr>)"

definition adaptive_threshold_ms :: "'f f64_ops \<Rightarrow> 'f ewma_spread_state \<Rightarrow> i64 \<Rightarrow> i64" where
  "adaptive_threshold_ms F st protocol_base_ms =
     (if \<not> ew_initialized st then protocol_base_ms
      else
        let adaptive = f_to_i64 F (f_add F (ew_spread st) (f_mul F (ewma_sigma F) (ew_abs_dev st)))
        in if sint protocol_base_ms \<le> sint adaptive then adaptive else protocol_base_ms)"

text \<open>
  How the gateway uses the tracker: it is updated with the message's own spread first, and
  the message is routed to the spread shard when its spread exceeds the new threshold.
\<close>

definition ewma_routes :: "'f f64_ops \<Rightarrow> i64 \<Rightarrow> 'f ewma_spread_state \<Rightarrow> i64 \<Rightarrow> bool \<times> 'f ewma_spread_state" where
  "ewma_routes F base st spread =
     (let st = ewma_update F st spread
      in (sint spread > sint (adaptive_threshold_ms F st base), st))"

fun ewma_run :: "'f f64_ops \<Rightarrow> i64 \<Rightarrow> 'f ewma_spread_state \<Rightarrow> i64 list \<Rightarrow> bool list \<times> 'f ewma_spread_state" where
  "ewma_run F base st [] = ([], st)"
| "ewma_run F base st (s # ss) =
     (case ewma_routes F base st s of (b, st) \<Rightarrow> (case ewma_run F base st ss of (bs, st) \<Rightarrow> (b # bs, st)))"

section \<open>Lemmas\<close>

lemma ewma_run_Cons [simp]:
  "fst (ewma_run F base st (s # ss)) =
     fst (ewma_routes F base st s) # fst (ewma_run F base (snd (ewma_routes F base st s)) ss)"
  "snd (ewma_run F base st (s # ss)) = snd (ewma_run F base (snd (ewma_routes F base st s)) ss)"
  by (simp_all split: prod.splits)

declare ewma_run.simps(2) [simp del]

lemma sint_f_to_i64: "sint (f_to_i64 F x) = max (- (2 ^ 63)) (min (2 ^ 63 - 1) (f_to_int F x))"
proof -
  have id: "- (2 ^ 63) \<le> n \<Longrightarrow> n < 2 ^ 63 \<Longrightarrow> sint (word_of_int n :: i64) = n" for n
    by (simp add: signed_of_int signed_take_bit_int_eq_self)
  show ?thesis unfolding f_to_i64_def Let_def using id [of "f_to_int F x"] by auto
qed

lemma sint_i64_bounds: "- (2 ^ 63) \<le> sint (w :: i64)" "sint (w :: i64) < 2 ^ 63"
  using sint_greater_eq [of w] sint_less [of w] by simp_all

text \<open>The threshold never falls below the protocol's base, in any arithmetic.\<close>

lemma threshold_ge_base: "sint base \<le> sint (adaptive_threshold_ms F st base)"
  by (simp add: adaptive_threshold_ms_def Let_def)

lemma exact_threshold:
  assumes "ew_initialized st"
  shows "sint (adaptive_threshold_ms exact_ops st base) =
    max (sint base) (max (- (2 ^ 63)) (min (2 ^ 63 - 1) (f_to_int exact_ops (ew_spread st + 3 * ew_abs_dev st))))"
  using assms
  by (auto simp: adaptive_threshold_ms_def Let_def sint_f_to_i64 max_def ewma_sigma_def) (simp_all add: exact_ops_def)

text \<open>A spread at most the mean plus the weighted deviation is never routed.\<close>

lemma exact_not_routed:
  fixes s :: i64
  assumes "ew_initialized st" and "of_int (sint s) \<le> ew_spread st + 3 * ew_abs_dev st"
  shows "sint s \<le> sint (adaptive_threshold_ms exact_ops st base)"
proof -
  have "sint s \<le> \<lfloor>ew_spread st + 3 * ew_abs_dev st\<rfloor>" using assms(2) by (simp add: le_floor_iff)
  also have "\<dots> \<le> f_to_int exact_ops (ew_spread st + 3 * ew_abs_dev st)"
    by (simp add: exact_ops_def floor_le_ceiling)
  finally have "sint s \<le> f_to_int exact_ops (ew_spread st + 3 * ew_abs_dev st)" .
  then show ?thesis unfolding exact_threshold [OF assms(1)] using sint_i64_bounds [of s] by simp
qed

lemma ewma_update_exact:
  "ewma_update exact_ops st s =
     (if ew_initialized st
      then \<lparr>ew_spread = of_int (sint s) / 20 + 19 / 20 * ew_spread st,
            ew_abs_dev = \<bar>of_int (sint s) - ew_spread st\<bar> / 20 + 19 / 20 * ew_abs_dev st, ew_initialized = True\<rparr>
      else \<lparr>ew_spread = of_int (sint s), ew_abs_dev = \<bar>of_int (sint s)\<bar>, ew_initialized = True\<rparr>)"
  by (cases st) (simp add: ewma_update_def Let_def ewma_alpha_def exact_ops_def)

lemma constant_spread_state:
  assumes "ew_initialized st" "ew_spread st = of_int (sint s)" "0 \<le> ew_abs_dev st"
  shows "ew_initialized (ewma_update exact_ops st s)" "ew_spread (ewma_update exact_ops st s) = of_int (sint s)"
    "0 \<le> ew_abs_dev (ewma_update exact_ops st s)"
  using assms by (simp_all add: ewma_update_exact field_simps)

text \<open>
  In exact arithmetic a link whose spread is constant, however large, is never taken for a
  reconnect burst, and neither is the first message of a protocol.
\<close>

lemma constant_spread_run:
  assumes "ew_initialized st" "ew_spread st = of_int (sint s)" "0 \<le> ew_abs_dev st"
  shows "fst (ewma_run exact_ops base st (replicate n s)) = replicate n False"
  using assms
proof (induction n arbitrary: st)
  case (Suc n)
  let ?st = "ewma_update exact_ops st s"
  note st = constant_spread_state [OF Suc.prems]
  have "sint s \<le> sint (adaptive_threshold_ms exact_ops ?st base)"
    by (rule exact_not_routed) (use st in simp_all)
  with Suc.IH [OF st] show ?case by (simp add: ewma_routes_def Let_def)
qed simp

lemma zero_history_state:
  "snd (ewma_run exact_ops base \<lparr>ew_spread = 0, ew_abs_dev = 0, ew_initialized = True\<rparr> (replicate n 0)) =
     \<lparr>ew_spread = 0, ew_abs_dev = 0, ew_initialized = True\<rparr>"
proof (induction n)
  case (Suc n)
  have "ewma_update exact_ops \<lparr>ew_spread = 0, ew_abs_dev = 0, ew_initialized = True\<rparr> 0 =
      \<lparr>ew_spread = 0, ew_abs_dev = 0, ew_initialized = True\<rparr>" by (simp add: ewma_update_exact)
  with Suc show ?case by (simp add: ewma_routes_def Let_def)
qed simp

lemma ewma_run_snoc:
  "fst (ewma_run F base st (ss @ [s])) =
     fst (ewma_run F base st ss) @ [fst (ewma_routes F base (snd (ewma_run F base st ss)) s)]"
  by (induction ss arbitrary: st) simp_all

lemma first_update_zero: "ewma_update exact_ops (ewma_new exact_ops) 0 = \<lparr>ew_spread = 0, ew_abs_dev = 0, ew_initialized = True\<rparr>"
  by (simp add: ewma_update_exact ewma_new_def)

text \<open>
  The spread router in exact arithmetic. A stream of messages with one constant spread,
  the first message included, is never routed to the spread shard, however large the
  spread. After at least one message without spread, a message delayed by more than the
  protocol's base threshold is routed there.
\<close>

lemma ewma_routing_correct:
  assumes "0 \<le> sint base"
  shows "fst (ewma_run exact_ops base (ewma_new exact_ops) (replicate n s)) = replicate n False \<and>
    last (fst (ewma_run exact_ops base (ewma_new exact_ops) (replicate (Suc n) 0 @ [s]))) = (sint s > sint base)"
proof (intro conjI)
  show "fst (ewma_run exact_ops base (ewma_new exact_ops) (replicate n s)) = replicate n False"
  proof (cases n)
    case (Suc k)
    let ?st = "ewma_update exact_ops (ewma_new exact_ops) s"
    have st: "ew_initialized ?st" "ew_spread ?st = of_int (sint s)" "0 \<le> ew_abs_dev ?st"
      by (simp_all add: ewma_update_exact ewma_new_def)
    have "sint s \<le> sint (adaptive_threshold_ms exact_ops ?st base)"
      by (rule exact_not_routed) (use st in simp_all)
    with constant_spread_run [OF st] Suc show ?thesis
      by (simp add: ewma_routes_def Let_def)
  qed simp
  let ?z = "\<lparr>ew_spread = 0, ew_abs_dev = 0, ew_initialized = True\<rparr> :: rat ewma_spread_state"
  have "snd (ewma_run exact_ops base (ewma_new exact_ops) (replicate (Suc n) 0)) = ?z"
    using zero_history_state [of base n] by (simp add: ewma_routes_def Let_def first_update_zero)
  moreover have "fst (ewma_routes exact_ops base ?z s) = (sint s > sint base)"
  proof -
    let ?st = "ewma_update exact_ops ?z s"
    let ?x = "ew_spread ?st + 3 * ew_abs_dev ?st"
    have st: "ew_initialized ?st" and x: "?x = of_int (sint s) / 20 + 3 * \<bar>of_int (sint s)\<bar> / 20"
      by (simp_all add: ewma_update_exact)
    have "f_to_int exact_ops ?x < sint s" if "sint s > 0"
    proof -
      have "r / 20 + 3 * \<bar>r\<bar> / 20 < r \<and> 0 \<le> r / 20 + 3 * \<bar>r\<bar> / 20" if "0 < r" for r :: rat using that by simp
      moreover have "(0 :: rat) < of_int (sint s)" using that by (simp only: of_int_0_less_iff)
      ultimately have "?x < of_int (sint s)" "0 \<le> ?x" unfolding x by blast+
      then show ?thesis by (simp only: exact_ops_def f64_ops.simps floor_less_iff not_less [symmetric] if_False)
    qed
    then show ?thesis
      using assms sint_i64_bounds [of s] unfolding ewma_routes_def Let_def fst_conv exact_threshold [OF st] by auto
  qed
  ultimately show "last (fst (ewma_run exact_ops base (ewma_new exact_ops) (replicate (Suc n) 0 @ [s]))) = (sint s > sint base)"
    by (simp only: ewma_run_snoc last_snoc)
qed

end
