(* ===== verification/Gateway.thy ===== *)
theory Gateway
  imports Translator Bitemporal Cache Snapshot Batcher Reliability Cadence Clock Sharding Metrics Ewma
begin

text \<open>
  \<open>src/src/gateway.rs\<close>: the gateway that composes the other components. A handler is a
  function from the gateway's state to the state it leaves; \<open>None\<close> is a panic or a loop
  that does not end. The state
  ends with the environment the handlers talk to: the successive readings of the clocks, the
  answers of the HTTP client, and the requests sent so far. Handlers run one at a time, the
  tasks interleave between handlers; an \<open>await\<close> on a full \<open>mpsc\<close> channel only delays
  the handler, so the channels here are unbounded queues.
\<close>

section \<open>State\<close>

record reading =
  r_wall :: u64
  r_inst :: nat
  r_uptime :: u64

record uplink_item =
  ui_protocol :: string
  ui_data :: string
  ui_priority :: u8
  ui_t_event :: u64
  ui_t_system :: u64

text \<open>A request: its URL, the account and key headers, and the JSON body.\<close>

datatype 'f request =
  PostMessage string string string uplink_item
| PostBatch string string string "uplink_item list"
| PostPing string string u64 u64 'f u64 u64

record asts_credentials =
  ac_account_id :: string
  ac_api_key :: string
  ac_mno_partner_id :: "string option"

record telemetry_config =
  tc_enabled :: bool
  tc_endpoint :: "string option"
  tc_ping_interval_ms :: u64

record ('q, 't, 'f) gateway_ops =
  go_ext :: ext
  go_float :: "'f f64_ops"
  go_chan :: "'q chan"
  go_pool_chan :: "('t, translator) chan_ops"

record ('q, 't, 'f) gateway =
  gw_translator :: translator
  gw_translator_pool :: "'t translator_pool"
  gw_batcher_in :: "message list"
  gw_batcher :: batcher_state
  gw_batch_rx :: "message list list"
  gw_cache :: async_cache
  gw_breaker :: circuit_breaker
  gw_retry_policy :: "'f retry_policy"
  gw_metrics :: metrics
  gw_shards :: "'q shard_manager"
  gw_workers :: "nat list"
  gw_snapshots :: snapshot_manager
  gw_bitemporal :: bitemporal_store
  gw_cadence :: "'f cadence_translator"
  gw_clock :: "'f clock_reconciler"
  gw_ewma :: "(protocol \<times> 'f ewma_spread_state) list"
  gw_credentials :: "asts_credentials option"
  gw_telemetry :: telemetry_config
  gw_transmission_in :: "message list"
  gw_transmission :: batcher_state
  gw_transmission_rx :: "message list list"
  gw_readings :: "nat \<Rightarrow> reading"
  gw_reads :: nat
  gw_http :: "nat \<Rightarrow> string + u16"
  gw_sent :: "'f request list"

type_synonym ('q, 't, 'f) handler = "('q, 't, 'f) gateway \<Rightarrow> ('q, 't, 'f) gateway exec"

section \<open>Environment\<close>

definition read_clock :: "('q, 't, 'f) gateway \<Rightarrow> reading \<times> ('q, 't, 'f) gateway" where
  "read_clock g = (gw_readings g (gw_reads g), g\<lparr>gw_reads := gw_reads g + 1\<rparr>)"

text \<open>\<open>client.post(..).send().await\<close>: an error text or a response, whatever its status code.\<close>

definition http_post :: "'f request \<Rightarrow> ('q, 't, 'f) gateway \<Rightarrow> (string + u16) \<times> ('q, 't, 'f) gateway" where
  "http_post req g = (gw_http g (length (gw_sent g)), g\<lparr>gw_sent := gw_sent g @ [req]\<rparr>)"

definition tally :: "(metrics \<Rightarrow> metrics) \<Rightarrow> ('q, 't, 'f) gateway \<Rightarrow> ('q, 't, 'f) gateway" where
  "tally f g = g\<lparr>gw_metrics := f (gw_metrics g)\<rparr>"

section \<open>Uplink\<close>

definition djb2_hash :: "bytes \<Rightarrow> u64" where
  "djb2_hash d = foldl (\<lambda>h b. h * 33 + ucast b) 5381 d"

fun priority_val :: "priority \<Rightarrow> u8" where
  "priority_val Emergency = 0"
| "priority_val SafetyCritical = 1"
| "priority_val Operational = 2"
| "priority_val Diagnostic = 3"

definition uplink_item_of :: "ext \<Rightarrow> message \<Rightarrow> uplink_item" where
  "uplink_item_of e m =
     \<lparr>ui_protocol = protocol_name (m_protocol m), ui_data = x_hex_encode e (m_data m),
      ui_priority = priority_val (m_priority m), ui_t_event = m_t_event m, ui_t_system = m_t_system m\<rparr>"

text \<open>\<open>self.circuit_breaker.call(async move { client.post(..) })\<close>\<close>

definition breaker_post :: "'f request \<Rightarrow> ('q, 't, 'f) gateway \<Rightarrow>
    (string circuit_breaker_error + u16) \<times> ('q, 't, 'f) gateway" where
  "breaker_post req g =
     (let (t1, g) = read_clock g in
      case call_begin (r_uptime t1) (gw_breaker g) of
        (None, cb) \<Rightarrow> (Inl OpenErr, g\<lparr>gw_breaker := cb\<rparr>)
      | (Some st, cb) \<Rightarrow>
          let (resp, g) = http_post req (g\<lparr>gw_breaker := cb\<rparr>);
              (t2, g) = read_clock g;
              (r, cb) = call_end (r_uptime t2) st resp (gw_breaker g)
          in (r, g\<lparr>gw_breaker := cb\<rparr>))"

definition tally_result :: "string circuit_breaker_error + u16 \<Rightarrow> ('q, 't, 'f) gateway \<Rightarrow> ('q, 't, 'f) gateway" where
  "tally_result r g =
     (case r of
        Inr _ \<Rightarrow> tally (\<lambda>m. record_protocol m ASTSpaceMobile) g
      | Inl OpenErr \<Rightarrow> tally record_error g
      | Inl (Inner e) \<Rightarrow> tally record_error g)"

definition send_telemetry_ping :: "('q, 't, 'f) gateway_ops \<Rightarrow> message \<Rightarrow> ('q, 't, 'f) gateway \<Rightarrow> ('q, 't, 'f) gateway" where
  "send_telemetry_ping X m g =
     (case tc_endpoint (gw_telemetry g) of
        None \<Rightarrow> g
      | Some endpoint \<Rightarrow>
          let snap = metrics_snapshot_of (go_float X) (gw_metrics g)
          in snd (http_post (PostPing endpoint (protocol_name (m_protocol m)) (m_t_event m) (m_t_system m)
               (mx_cache_hit_rate snap) (mx_avg_latency_ms snap) (mx_errors snap)) g))"

definition send_to_asts :: "('q, 't, 'f) gateway_ops \<Rightarrow> message \<Rightarrow> ('q, 't, 'f) gateway \<Rightarrow> ('q, 't, 'f) gateway" where
  "send_to_asts X m g =
     (let g = (case gw_credentials g of
                 None \<Rightarrow> g
               | Some creds \<Rightarrow>
                   let url = ''https://api.astspaceapi.com/v1/accounts/'' @ ac_account_id creds @ ''/messages'';
                       (r, g) = breaker_post
                         (PostMessage url (ac_account_id creds) (ac_api_key creds) (uplink_item_of (go_ext X) m)) g
                   in tally_result r g)
      in if tc_enabled (gw_telemetry g) then send_telemetry_ping X m g else g)"

definition send_batch_to_asts :: "('q, 't, 'f) gateway_ops \<Rightarrow> message list \<Rightarrow> ('q, 't, 'f) gateway \<Rightarrow> ('q, 't, 'f) gateway" where
  "send_batch_to_asts X ms g =
     (if ms = [] then g
      else
        let g = tally (\<lambda>m. record_transmission_batch m (word_of_nat (length ms))) g;
            g = (case gw_credentials g of
                   None \<Rightarrow> g
                 | Some creds \<Rightarrow>
                     let url = ''https://api.astspaceapi.com/v1/accounts/'' @ ac_account_id creds @ ''/messages/batch'';
                         (r, g) = breaker_post
                           (PostBatch url (ac_account_id creds) (ac_api_key creds) (map (uplink_item_of (go_ext X)) ms)) g
                     in tally_result r g)
        in if tc_enabled (gw_telemetry g)
           then (case ms of first # _ \<Rightarrow> send_telemetry_ping X first g | [] \<Rightarrow> g)
           else g)"

section \<open>Handlers\<close>

text \<open>\<open>reconciler.reconcile(device_id, message.t_event)\<close> with the hash of the payload as device.\<close>

definition reconcile_message :: "message \<Rightarrow> ('q, 't, 'f) gateway \<Rightarrow> message \<times> ('q, 't, 'f) gateway" where
  "reconcile_message m g =
     (let (t, g) = read_clock g in
      case reconcile (r_wall t) (gw_clock g) (djb2_hash (m_data m)) (m_t_event m) of
        Some corrected \<Rightarrow> (m\<lparr>m_t_event := corrected\<rparr>, g)
      | None \<Rightarrow> (m, g))"

text \<open>\<open>translate_sync\<close>, which does not use the translator it is called on.\<close>

definition gateway_translate :: "('q, 't, 'f) gateway_ops \<Rightarrow> message \<Rightarrow> ('q, 't, 'f) gateway \<Rightarrow>
    ((translate_error + message) \<times> ('q, 't, 'f) gateway) exec" where
  "gateway_translate X m g = do {
     let (t, g) = read_clock g;
     r \<leftarrow> translate_sync (go_ext X) (r_wall t) m;
     ret (r, g) }"

text \<open>The emergency path: first the message is stored, pushed and snapshotted, then it is sent.\<close>

definition emergency_record :: "('q, 't, 'f) gateway_ops \<Rightarrow> message \<Rightarrow> ('q, 't, 'f) gateway \<Rightarrow>
    message \<times> ('q, 't, 'f) gateway" where
  "emergency_record X m g =
     (let device_id = djb2_hash (m_data m);
          (m, g) = reconcile_message m g;
          g = g\<lparr>gw_bitemporal := bitemporal_store_one (gw_bitemporal g) m\<rparr>;
          g = tally (\<lambda>c. record_protocol c (m_protocol m)) g;
          g = g\<lparr>gw_shards := snd (push_deadzone (go_chan X) (gw_shards g) m)\<rparr>;
          (t, g) = read_clock g
      in (m, g\<lparr>gw_snapshots := snd (create_snapshot (r_wall t) (gw_snapshots g) [m] (m_protocol m) device_id)\<rparr>))"

definition emergency_emit :: "('q, 't, 'f) gateway_ops \<Rightarrow> message \<Rightarrow> reading \<Rightarrow> ('q, 't, 'f) handler" where
  "emergency_emit X m start g = do {
     (r, g) \<leftarrow> gateway_translate X m g;
     let g = (case r of
                Inr translated \<Rightarrow>
                  let (t, g) = read_clock g
                  in send_to_asts X translated
                       (g\<lparr>gw_cache := cache_set (r_inst t) (gw_cache g) (m_protocol m) (m_data m) translated\<rparr>)
              | Inl _ \<Rightarrow> tally record_error g);
     let (stop, g) = read_clock g;
     ret (tally (\<lambda>c. record_latency c (r_inst stop - r_inst start)) g) }"

definition process_emergency :: "('q, 't, 'f) gateway_ops \<Rightarrow> message \<Rightarrow> ('q, 't, 'f) handler" where
  "process_emergency X m g =
     (let (start, g) = read_clock g;
          (m, g) = emergency_record X m g
      in emergency_emit X m start g)"

text \<open>Step 1 of \<open>process_incoming_batch\<close>: reconcile every message and count its protocol.\<close>

fun reconcile_batch :: "message list \<Rightarrow> ('q, 't, 'f) gateway \<Rightarrow> message list \<times> ('q, 't, 'f) gateway" where
  "reconcile_batch [] g = ([], g)"
| "reconcile_batch (m # ms) g =
     (let (m, g) = reconcile_message m g;
          g = tally (\<lambda>c. record_protocol c (m_protocol m)) g;
          (ms, g) = reconcile_batch ms g
      in (m # ms, g))"

text \<open>
  Step 3 for one message: the messages it contributes to the spread list and to the normal
  list. The message is kept, dropped or duplicated by the cadence rules when it is an
  Iridium message.
\<close>

definition route_message :: "('q, 't, 'f) gateway_ops \<Rightarrow> message \<Rightarrow> ('q, 't, 'f) gateway \<Rightarrow>
    (message list \<times> message list \<times> ('q, 't, 'f) gateway) exec" where
  "route_message X m g =
     (let F = go_float X;
          ewma = (case map_of (gw_ewma g) (m_protocol m) of Some st \<Rightarrow> st | None \<Rightarrow> ewma_new F);
          ewma = ewma_update F ewma (spread_ms m);
          g = g\<lparr>gw_ewma := hm_insert (m_protocol m) ewma (gw_ewma g)\<rparr>;
          threshold = adaptive_threshold_ms F ewma (spread_burst_threshold_ms (m_protocol m))
      in if sint (spread_ms m) > sint threshold then ret ([m], [], g)
         else if m_protocol m = IridiumSBD \<and> m_priority m \<noteq> Emergency
         then do {
           let (t1, g) = read_clock g;
           let (t2, g) = read_clock g;
           (action, ct) \<leftarrow> cadence_translate F (r_inst t1) (r_inst t2) (gw_cadence g) ''telemetry'' IridiumSBD (m_priority m);
           let g = g\<lparr>gw_cadence := ct\<rparr>;
           ret (case action of
                  Drop \<Rightarrow> ([], [], g)
                | DuplicateN n \<Rightarrow> ([], replicate n m, g)
                | Send \<Rightarrow> ([], [m], g)
                | Buffer _ \<Rightarrow> ([], [m], g)) }
         else ret ([], [m], g))"

fun partition_batch :: "('q, 't, 'f) gateway_ops \<Rightarrow> message list \<Rightarrow> ('q, 't, 'f) gateway \<Rightarrow>
    (message list \<times> message list \<times> ('q, 't, 'f) gateway) exec" where
  "partition_batch X [] g = ret ([], [], g)"
| "partition_batch X (m # ms) g = do {
     (s1, n1, g) \<leftarrow> route_message X m g;
     (s2, n2, g) \<leftarrow> partition_batch X ms g;
     ret (s1 @ s2, n1 @ n2, g) }"

fun push_spread_msgs :: "('q, 't, 'f) gateway_ops \<Rightarrow> message list \<Rightarrow> ('q, 't, 'f) gateway \<Rightarrow> ('q, 't, 'f) gateway" where
  "push_spread_msgs X [] g = g"
| "push_spread_msgs X (m # ms) g =
     (let g = tally record_spread_shard g;
          g = g\<lparr>gw_shards := snd (push_spread (go_chan X) (gw_shards g) m)\<rparr>
      in push_spread_msgs X ms g)"

text \<open>Step 5: a cache hit is sent at once, a miss is pushed to a shard.\<close>

fun route_normal :: "('q, 't, 'f) gateway_ops \<Rightarrow> (message \<times> message option) list \<Rightarrow> ('q, 't, 'f) handler" where
  "route_normal X [] g = ret g"
| "route_normal X ((m, Some translated) # rest) g =
     route_normal X rest (send_to_asts X translated (tally record_cache_hit g))"
| "route_normal X ((m, None) # rest) g = do {
     let g = tally record_cache_miss g;
     (r, sh) \<leftarrow> shard_manager_push (go_chan X) (gw_shards g) m;
     let g = g\<lparr>gw_shards := sh\<rparr>;
     let g = (case r of Inl _ \<Rightarrow> tally record_error g | Inr _ \<Rightarrow> g);
     route_normal X rest g }"

definition process_incoming_batch :: "('q, 't, 'f) gateway_ops \<Rightarrow> message list \<Rightarrow> ('q, 't, 'f) handler" where
  "process_incoming_batch X batch g =
     (if batch = [] then ret g
      else do {
        let (reconciled, g) = reconcile_batch batch g;
        let g = g\<lparr>gw_bitemporal := store_batch (gw_bitemporal g) reconciled\<rparr>;
        (spread_msgs, normal_msgs, g) \<leftarrow> partition_batch X reconciled g;
        let g = push_spread_msgs X spread_msgs g;
        if normal_msgs = [] then ret g
        else do {
          let (t, g) = read_clock g;
          let cache_results = cache_get_batch (r_inst t) (gw_cache g) (map (\<lambda>m. (m_protocol m, m_data m)) normal_msgs);
          route_normal X (zip normal_msgs cache_results) g } })"

text \<open>
  The translation loop of a shard worker: borrow a translator of the protocol's pool and
  return it afterwards, or fall back to the gateway's own translator when there is none.
\<close>

definition pool_translate :: "('q, 't, 'f) gateway_ops \<Rightarrow> message \<Rightarrow> ('q, 't, 'f) gateway \<Rightarrow>
    ((message \<times> message) list \<times> ('q, 't, 'f) gateway) exec" where
  "pool_translate X m g =
     (case pool_borrow (go_pool_chan X) (gw_translator_pool g) (m_protocol m) of
        (Some tr, pools) \<Rightarrow> do {
          (r, g) \<leftarrow> gateway_translate X m (g\<lparr>gw_translator_pool := pools\<rparr>);
          let (pairs, g) = (case r of Inr translated \<Rightarrow> ([(m, translated)], g) | Inl _ \<Rightarrow> ([], tally record_error g));
          ret (pairs, g\<lparr>gw_translator_pool := return_translator (go_pool_chan X) (gw_translator_pool g) (m_protocol m) tr\<rparr>) }
      | (None, pools) \<Rightarrow> do {
          (r, g) \<leftarrow> gateway_translate X m (g\<lparr>gw_translator_pool := pools\<rparr>);
          ret (case r of Inr translated \<Rightarrow> ([(m, translated)], g) | Inl _ \<Rightarrow> ([], tally record_error g)) })"

definition own_translate :: "('q, 't, 'f) gateway_ops \<Rightarrow> message \<Rightarrow> ('q, 't, 'f) gateway \<Rightarrow>
    ((message \<times> message) list \<times> ('q, 't, 'f) gateway) exec" where
  "own_translate X m g = do {
     (r, g) \<leftarrow> gateway_translate X m g;
     ret (case r of Inr translated \<Rightarrow> ([(m, translated)], g) | Inl _ \<Rightarrow> ([], tally record_error g)) }"

fun translate_all :: "(message \<Rightarrow> ('q, 't, 'f) gateway \<Rightarrow> ((message \<times> message) list \<times> ('q, 't, 'f) gateway) exec) \<Rightarrow>
    message list \<Rightarrow> ('q, 't, 'f) gateway \<Rightarrow> ((message \<times> message) list \<times> ('q, 't, 'f) gateway) exec" where
  "translate_all f [] g = ret ([], g)"
| "translate_all f (m # ms) g = do {
     (p1, g) \<leftarrow> f m g;
     (p2, g) \<leftarrow> translate_all f ms g;
     ret (p1 @ p2, g) }"

text \<open>The entries of \<open>cache.set_batch\<close>, each with the clock read when it is inserted.\<close>

fun cache_entries :: "(message \<times> message) list \<Rightarrow> ('q, 't, 'f) gateway \<Rightarrow>
    (nat \<times> protocol \<times> bytes \<times> message) list \<times> ('q, 't, 'f) gateway" where
  "cache_entries [] g = ([], g)"
| "cache_entries ((orig, tr) # pairs) g =
     (let (t, g) = read_clock g; (es, g) = cache_entries pairs g
      in ((r_inst t, m_protocol orig, m_data orig, tr) # es, g))"

text \<open>The common tail of the two batch paths: cache, snapshot.\<close>

definition cache_and_snapshot :: "(message \<times> message) list \<Rightarrow> ('q, 't, 'f) gateway \<Rightarrow> ('q, 't, 'f) gateway" where
  "cache_and_snapshot pairs g =
     (let (es, g) = cache_entries pairs g;
          g = g\<lparr>gw_cache := cache_set_batch (gw_cache g) es\<rparr>;
          device_id = djb2_hash (m_data (fst (hd pairs)));
          (t, g) = read_clock g
      in g\<lparr>gw_snapshots := snd (create_batch_snapshot (r_wall t) (gw_snapshots g) (map snd pairs) ASTSpaceMobile device_id)\<rparr>)"

definition transmission_enqueue :: "message \<Rightarrow> ('q, 't, 'f) gateway \<Rightarrow> ('q, 't, 'f) gateway" where
  "transmission_enqueue m g = g\<lparr>gw_transmission_in := gw_transmission_in g @ [m]\<rparr>"

definition process_translated_batch :: "('q, 't, 'f) gateway_ops \<Rightarrow> message list \<Rightarrow> ('q, 't, 'f) handler" where
  "process_translated_batch X ms g =
     (if ms = [] then ret g
      else do {
        let (start, g) = read_clock g;
        (pairs, g) \<leftarrow> translate_all (pool_translate X) ms g;
        if pairs = [] then ret g
        else do {
          let g = cache_and_snapshot pairs g;
          let g = foldl (\<lambda>g m. transmission_enqueue m g) g (map snd pairs);
          let (stop, g) = read_clock g;
          ret (tally (\<lambda>c. record_latency c (r_inst stop - r_inst start)) g) } })"

definition drain_spread_shard_once :: "('q, 't, 'f) gateway_ops \<Rightarrow> ('q, 't, 'f) handler" where
  "drain_spread_shard_once X g = do {
     (ms, sh) \<leftarrow> drain_shard (go_chan X) (gw_shards g) (sg_spread_shard_id (gw_shards g));
     let g = g\<lparr>gw_shards := sh\<rparr>;
     if ms = [] then ret g
     else do {
       (pairs, g) \<leftarrow> translate_all (own_translate X) ms g;
       if pairs = [] then ret g
       else do {
         let g = cache_and_snapshot pairs g;
         ret (foldl (\<lambda>g m. tally increment_translated (transmission_enqueue m g)) g (map snd pairs)) } } }"

definition gateway_send :: "('q, 't, 'f) gateway_ops \<Rightarrow> message \<Rightarrow> ('q, 't, 'f) handler" where
  "gateway_send X m g =
     (let g = tally increment_translated g in
      if is_emergency m then process_emergency X m g
      else ret (g\<lparr>gw_batcher_in := gw_batcher_in g @ [m]\<rparr>))"

section \<open>Construction\<close>

text \<open>The receivers of the regular shards, taken out for the workers.\<close>

fun take_receivers :: "nat list \<Rightarrow> 'q shard_manager \<Rightarrow> nat list \<times> 'q shard_manager" where
  "take_receivers [] sh = ([], sh)"
| "take_receivers (i # is) sh =
     (case get_receiver sh (word_of_nat i) of
        (Some k, sh) \<Rightarrow> (case take_receivers is sh of (ks, sh) \<Rightarrow> (k # ks, sh))
      | (None, sh) \<Rightarrow> take_receivers is sh)"

definition async_batcher_config :: batcher_config where
  "async_batcher_config =
     \<lparr>bc_max_batch_size = 10, bc_batch_timeout = 25000000, bc_spread_threshold_ms = default_spread_flush_threshold_ms\<rparr>"

definition transmission_batcher_config :: batcher_config where
  "transmission_batcher_config =
     \<lparr>bc_max_batch_size = 20, bc_batch_timeout = 50000000, bc_spread_threshold_ms = 0\<rparr>"

definition gateway_cadence :: "'f cadence_translator" where
  "gateway_cadence = foldl add_rule cadence_new default_iridium_to_asts_rules"

text \<open>
  \<open>None\<close> is a panic: the channels of the batchers have \<open>buffer_size\<close> places, and their
  constructor panics on zero.
\<close>

definition gateway_new :: "('q, 't, 'f) gateway_ops \<Rightarrow> nat \<Rightarrow> nat \<Rightarrow> asts_credentials option \<Rightarrow> telemetry_config \<Rightarrow>
    (nat \<Rightarrow> reading) \<Rightarrow> (nat \<Rightarrow> string + u16) \<Rightarrow> ('q, 't, 'f) gateway option" where
  "gateway_new X buffer_size cache_ttl creds telemetry readings http = do {
     pools \<leftarrow> (if buffer_size = 0 then None else translator_pool_new (go_pool_chan X) 8);
     let now = r_inst (readings 0);
     let (workers, shards) = take_receivers [1..<8] (shard_manager_new (go_chan X) now 8 1000);
     Some \<lparr>gw_translator = new_without_task 100, gw_translator_pool = pools,
           gw_batcher_in = [], gw_batcher = batcher_start now, gw_batch_rx = [],
           gw_cache = cache_new 1000 cache_ttl,
           gw_breaker = circuit_breaker_new 5 30000000000,
           gw_retry_policy = retry_policy_new (go_float X) 3 100000000,
           gw_metrics = metrics_new, gw_shards = shards, gw_workers = workers,
           gw_snapshots = snapshot_manager_new 100 300000,
           gw_bitemporal = bitemporal_new 10000, gw_cadence = gateway_cadence,
           gw_clock = clock_new 1000 300000 LocalClock, gw_ewma = [],
           gw_credentials = creds, gw_telemetry = telemetry,
           gw_transmission_in = [], gw_transmission = batcher_start now, gw_transmission_rx = [],
           gw_readings = readings, gw_reads = 1, gw_http = http, gw_sent = []\<rparr> }"

definition health_check :: "('q, 't, 'f) gateway \<Rightarrow> bool" where
  "health_check g \<longleftrightarrow> cb_state (gw_breaker g) = Closed"

definition update_asts_credentials :: "asts_credentials \<Rightarrow> ('q, 't, 'f) gateway \<Rightarrow> ('q, 't, 'f) gateway" where
  "update_asts_credentials creds g = g\<lparr>gw_credentials := Some creds\<rparr>"

definition update_telemetry_config :: "telemetry_config \<Rightarrow> ('q, 't, 'f) gateway \<Rightarrow> ('q, 't, 'f) gateway" where
  "update_telemetry_config config g = g\<lparr>gw_telemetry := config\<rparr>"

definition gateway_query_valid_time :: "('q, 't, 'f) gateway \<Rightarrow> u64 \<Rightarrow> u64 \<Rightarrow> message list" where
  "gateway_query_valid_time g a b = query_valid_time (gw_bitemporal g) a b"

definition gateway_query_transaction_time :: "('q, 't, 'f) gateway \<Rightarrow> u64 \<Rightarrow> u64 \<Rightarrow> message list" where
  "gateway_query_transaction_time g a b = query_transaction_time (gw_bitemporal g) a b"

definition gateway_spread_stats :: "('q, 't, 'f) gateway_ops \<Rightarrow> ('q, 't, 'f) gateway \<Rightarrow> u64 \<Rightarrow> u64 \<Rightarrow> spread_stats" where
  "gateway_spread_stats X g a b = bitemporal_spread_stats (go_float X) (gw_bitemporal g) a b"

definition gateway_system_belief_at :: "('q, 't, 'f) gateway \<Rightarrow> u64 \<Rightarrow> message list" where
  "gateway_system_belief_at g t = system_belief_at (gw_bitemporal g) t"

definition gateway_actual_state_at :: "('q, 't, 'f) gateway \<Rightarrow> u64 \<Rightarrow> message list" where
  "gateway_actual_state_at g t = actual_state_at (gw_bitemporal g) t"

section \<open>Tasks\<close>

text \<open>
  One round of each spawned task. The batcher tasks take a message from their input channel,
  or wake at their deadline; their consumers take a finished batch.
\<close>

definition batcher_task :: "nat \<Rightarrow> nat \<Rightarrow> ('q, 't, 'f) gateway \<Rightarrow> ('q, 't, 'f) gateway" where
  "batcher_task now after g =
     (case gw_batcher_in g of
        [] \<Rightarrow> g
      | m # rest \<Rightarrow>
          let (st, out) = async_batcher_step async_batcher_config (gw_batcher g) (Recv m now after)
          in g\<lparr>gw_batcher_in := rest, gw_batcher := st, gw_batch_rx := gw_batch_rx g @ out\<rparr>)"

definition batcher_timer :: "nat \<Rightarrow> nat \<Rightarrow> ('q, 't, 'f) gateway \<Rightarrow> ('q, 't, 'f) gateway" where
  "batcher_timer now after g =
     (let (st, out) = async_batcher_step async_batcher_config (gw_batcher g) (Timer now after)
      in g\<lparr>gw_batcher := st, gw_batch_rx := gw_batch_rx g @ out\<rparr>)"

definition batch_consumer :: "('q, 't, 'f) gateway_ops \<Rightarrow> ('q, 't, 'f) handler" where
  "batch_consumer X g =
     (case gw_batch_rx g of
        [] \<Rightarrow> ret g
      | b # rest \<Rightarrow> process_incoming_batch X b (g\<lparr>gw_batch_rx := rest\<rparr>))"

definition worker_task :: "('q, 't, 'f) gateway_ops \<Rightarrow> nat \<Rightarrow> ('q, 't, 'f) handler" where
  "worker_task X k g =
     (case worker_round (go_chan X) 20 k (gw_shards g) of
        None \<Rightarrow> ret g
      | Some (ms, sh) \<Rightarrow> process_translated_batch X ms (g\<lparr>gw_shards := sh\<rparr>))"

definition transmission_task :: "nat \<Rightarrow> nat \<Rightarrow> ('q, 't, 'f) gateway \<Rightarrow> ('q, 't, 'f) gateway" where
  "transmission_task now after g =
     (case gw_transmission_in g of
        [] \<Rightarrow> g
      | m # rest \<Rightarrow>
          let (st, out) = transmission_batcher_step transmission_batcher_config (gw_transmission g) (Recv m now after)
          in g\<lparr>gw_transmission_in := rest, gw_transmission := st, gw_transmission_rx := gw_transmission_rx g @ out\<rparr>)"

definition transmission_timer :: "nat \<Rightarrow> nat \<Rightarrow> ('q, 't, 'f) gateway \<Rightarrow> ('q, 't, 'f) gateway" where
  "transmission_timer now after g =
     (let (st, out) = transmission_batcher_step transmission_batcher_config (gw_transmission g) (Timer now after)
      in g\<lparr>gw_transmission := st, gw_transmission_rx := gw_transmission_rx g @ out\<rparr>)"

definition transmission_consumer :: "('q, 't, 'f) gateway_ops \<Rightarrow> ('q, 't, 'f) gateway \<Rightarrow> ('q, 't, 'f) gateway" where
  "transmission_consumer X g =
     (case gw_transmission_rx g of
        [] \<Rightarrow> g
      | b # rest \<Rightarrow> send_batch_to_asts X b (g\<lparr>gw_transmission_rx := rest\<rparr>))"

inductive gateway_step :: "('q, 't, 'f) gateway_ops \<Rightarrow> ('q, 't, 'f) gateway \<Rightarrow> ('q, 't, 'f) gateway \<Rightarrow> bool"
  for X :: "('q, 't, 'f) gateway_ops" where
  send: "gateway_send X m g = ret g' \<Longrightarrow> gateway_step X g g'"
| batcher: "gateway_step X g (batcher_task now after g)"
| batcher_wake: "event_enabled async_batcher_config (gw_batcher g) (Timer now after) \<Longrightarrow>
     gateway_step X g (batcher_timer now after g)"
| incoming: "batch_consumer X g = ret g' \<Longrightarrow> gateway_step X g g'"
| worker: "k \<in> set (gw_workers g) \<Longrightarrow> worker_task X k g = ret g' \<Longrightarrow> gateway_step X g g'"
| spread: "drain_spread_shard_once X g = ret g' \<Longrightarrow> gateway_step X g g'"
| transmission: "gateway_step X g (transmission_task now after g)"
| transmission_wake: "event_enabled transmission_batcher_config (gw_transmission g) (Timer now after) \<Longrightarrow>
     gateway_step X g (transmission_timer now after g)"
| uplink: "gateway_step X g (transmission_consumer X g)"

end
