(* ===== verification/Gateway_Invariant.thy ===== *)
theory Gateway_Invariant
  imports Gateway
begin

text \<open>
  The invariant of the gateway: every component is in a state it can reach by its own
  operations, and everything queued for the uplink is in the target format. Every handler
  keeps it and returns, so that no message makes the gateway panic.
\<close>

section \<open>Invariant\<close>

fun request_items :: "'f request \<Rightarrow> uplink_item list" where
  "request_items (PostMessage url account key item) = [item]"
| "request_items (PostBatch url account key items) = items"
| "request_items (PostPing url p te ts rate latency errors) = []"

definition in_target_format :: "message \<Rightarrow> bool" where
  "in_target_format m \<longleftrightarrow> m_protocol m = ASTSpaceMobile"

definition request_ok :: "'f request \<Rightarrow> bool" where
  "request_ok r \<longleftrightarrow> list_all (\<lambda>i. ui_protocol i = ''ASTSpaceMobile'') (request_items r)"

definition uplink_ok :: "('q, 't, 'f) gateway \<Rightarrow> bool" where
  "uplink_ok g \<longleftrightarrow>
     list_all (\<lambda>(k, e). in_target_format (ce_message e)) (c_entries (gw_cache g)) \<and>
     list_all in_target_format (gw_transmission_in g) \<and>
     list_all in_target_format (b_buffer (gw_transmission g)) \<and>
     list_all (list_all in_target_format) (gw_transmission_rx g) \<and>
     list_all request_ok (gw_sent g)"

definition components_ok :: "('q, 't, 'f) gateway_ops \<Rightarrow> nat \<Rightarrow> ('q, 't, 'f) gateway \<Rightarrow> bool" where
  "components_ok X ttl g \<longleftrightarrow>
     (\<exists>now. (shard_step (go_chan X))\<^sup>*\<^sup>* (shard_manager_new (go_chan X) now 8 1000) (gw_shards g)) \<and>
     cache_step\<^sup>*\<^sup>* (cache_new 1000 ttl) (gw_cache g) \<and>
     snapshot_step\<^sup>*\<^sup>* (snapshot_manager_new 100 300000) (gw_snapshots g) \<and>
     (\<exists>pools. translator_pool_new (go_pool_chan X) 8 = Some pools \<and>
        (pool_step (go_pool_chan X))\<^sup>*\<^sup>* (pools, \<lambda>_. 0) (gw_translator_pool g, \<lambda>_. 0)) \<and>
     breaker_step\<^sup>*\<^sup>* (circuit_breaker_new 5 30000000000, {#}) (gw_breaker g, {#}) \<and>
     (\<exists>ms. gw_bitemporal g = foldl bitemporal_store_one (bitemporal_new 10000) ms) \<and>
     gw_clock g = clock_new 1000 300000 LocalClock \<and>
     gw_cadence g = gateway_cadence"

definition gateway_inv :: "('q, 't, 'f) gateway_ops \<Rightarrow> nat \<Rightarrow> ('q, 't, 'f) gateway \<Rightarrow> bool" where
  "gateway_inv X ttl g \<longleftrightarrow> components_ok X ttl g \<and> uplink_ok g"

text \<open>What a message becomes in the target format, at the time \<open>now\<close>.\<close>

definition translated :: "ext \<Rightarrow> u64 \<Rightarrow> message \<Rightarrow> message option" where
  "translated e now m =
     map_option (\<lambda>d. \<lparr>m_protocol = ASTSpaceMobile, m_data = take 120000000 d, m_priority = m_priority m,
                     m_timestamp = now, m_t_event = m_t_event m, m_t_system = m_t_system m\<rparr>)
       (translated_bytes e (m_protocol m) (m_data m))"

section \<open>Lemmas\<close>

named_theorems gateway_frames \<open>updates that do not touch the invariant\<close>

lemma inv_frames [gateway_frames, simp]:
  "gateway_inv X ttl (gw_reads_update f1 g) = gateway_inv X ttl g"
  "gateway_inv X ttl (gw_metrics_update f2 g) = gateway_inv X ttl g"
  "gateway_inv X ttl (gw_ewma_update f3 g) = gateway_inv X ttl g"
  "gateway_inv X ttl (gw_batcher_in_update f4 g) = gateway_inv X ttl g"
  "gateway_inv X ttl (gw_batcher_update f5 g) = gateway_inv X ttl g"
  "gateway_inv X ttl (gw_batch_rx_update f6 g) = gateway_inv X ttl g"
  by (simp_all add: gateway_inv_def components_ok_def uplink_ok_def)

lemma tally_inv [gateway_frames, simp]: "gateway_inv X ttl (tally f g) = gateway_inv X ttl g"
  by (simp add: tally_def)

lemma in_target_format_translated: "translated e now m = Some t \<Longrightarrow> in_target_format t"
  by (auto simp: translated_def in_target_format_def)

lemma uplink_item_target: "in_target_format m \<Longrightarrow> ui_protocol (uplink_item_of e m) = ''ASTSpaceMobile''"
  by (simp add: uplink_item_of_def in_target_format_def)

lemma call_end_outcome: "\<exists>out :: unit + unit. snd (call_end t s resp cb) = snd (call_end t s out cb)"
  by (cases resp) (auto simp: call_end_def Let_def intro: exI [of _ "Inl ()"] exI [of _ "Inr ()"])

lemma breaker_post_cases:
  assumes "breaker_post req g = (r, g')"
  shows "breaker_step\<^sup>*\<^sup>* (gw_breaker g, {#}) (gw_breaker g', {#}) \<and>
    (\<exists>cb n reqs. g' = g\<lparr>gw_breaker := cb, gw_reads := n, gw_sent := gw_sent g @ reqs\<rparr> \<and> set reqs \<subseteq> {req})"
proof -
  let ?t1 = "r_uptime (gw_readings g (gw_reads g))"
  obtain s cb where b: "call_begin ?t1 (gw_breaker g) = (s, cb)" by fastforce
  show ?thesis
  proof (cases s)
    case None
    with assms b have g': "g' = g\<lparr>gw_reads := gw_reads g + 1, gw_breaker := cb\<rparr>"
      by (simp add: breaker_post_def read_clock_def)
    have "breaker_step (gw_breaker g, {#}) (cb, {#})" by (rule breaker_step.reject) (use b None in simp)
    then show ?thesis unfolding g'
      by (intro conjI exI [of _ cb] exI [of _ "gw_reads g + 1"] exI [of _ "[]"]) simp_all
  next
    case (Some st)
    let ?resp = "gw_http g (length (gw_sent g))" and ?t2 = "r_uptime (gw_readings g (Suc (gw_reads g)))"
    obtain r2 cb2 where e: "call_end ?t2 st ?resp cb = (r2, cb2)" by fastforce
    have g': "g' = g\<lparr>gw_reads := gw_reads g + 2, gw_breaker := cb2, gw_sent := gw_sent g @ [req]\<rparr>"
      using assms b e Some by (auto simp: breaker_post_def read_clock_def http_post_def)
    have "breaker_step (gw_breaker g, {#}) (cb, add_mset st {#})"
      by (rule breaker_step.admit) (use b Some in simp)
    moreover obtain out :: "unit + unit" where "snd (call_end ?t2 st out cb) = cb2"
      using e call_end_outcome [of ?t2 st ?resp cb] by auto
    then have "breaker_step (cb, add_mset st {#}) (cb2, add_mset st {#} - {#st#})"
      by (intro breaker_step.complete [where outcome = out]) (auto intro: prod_eqI)
    ultimately have "breaker_step\<^sup>*\<^sup>* (gw_breaker g, {#}) (cb2, {#})" by (auto intro: converse_rtranclp_into_rtranclp)
    then show ?thesis unfolding g'
      by (intro conjI exI [of _ cb2] exI [of _ "gw_reads g + 2"] exI [of _ "[req]"]) simp_all
  qed
qed

lemma breaker_post_inv:
  assumes "gateway_inv X ttl g" and "request_ok req" and "breaker_post req g = (r, g')"
  shows "gateway_inv X ttl g'"
proof -
  from breaker_post_cases [OF assms(3)] obtain cb n reqs where
    b: "breaker_step\<^sup>*\<^sup>* (gw_breaker g, {#}) (cb, {#})" and
    g': "g' = g\<lparr>gw_breaker := cb, gw_reads := n, gw_sent := gw_sent g @ reqs\<rparr>" and "set reqs \<subseteq> {req}"
    by auto
  moreover from this(3) assms(2) have "list_all request_ok reqs" by (auto simp: list_all_iff)
  ultimately show ?thesis using assms(1)
    by (auto simp: gateway_inv_def components_ok_def uplink_ok_def)
qed

lemma tally_result_inv [simp]: "gateway_inv X ttl (tally_result r g) = gateway_inv X ttl g"
  by (auto simp: tally_result_def split: sum.splits circuit_breaker_error.splits)

lemma http_post_inv:
  "gateway_inv X ttl g \<Longrightarrow> request_ok req \<Longrightarrow> gateway_inv X ttl (snd (http_post req g))"
  by (simp add: http_post_def gateway_inv_def components_ok_def uplink_ok_def)

lemma ping_inv: "gateway_inv X ttl g \<Longrightarrow> gateway_inv X ttl (send_telemetry_ping X m g)"
  by (auto simp: send_telemetry_ping_def Let_def request_ok_def intro: http_post_inv split: option.splits)

lemma send_to_asts_inv:
  assumes "gateway_inv X ttl g" and "in_target_format m"
  shows "gateway_inv X ttl (send_to_asts X m g)"
proof (cases "gw_credentials g")
  case None
  with assms show ?thesis by (simp add: send_to_asts_def ping_inv)
next
  case (Some c)
  let ?req = "PostMessage (''https://api.astspaceapi.com/v1/accounts/'' @ ac_account_id c @ ''/messages'')
      (ac_account_id c) (ac_api_key c) (uplink_item_of (go_ext X) m)"
  obtain r g1 where b: "breaker_post ?req g = (r, g1)" by fastforce
  have "request_ok ?req" using assms(2) by (simp add: request_ok_def uplink_item_target)
  from breaker_post_inv [OF assms(1) this b] Some b show ?thesis
    by (simp add: send_to_asts_def Let_def ping_inv)
qed

lemma send_batch_inv:
  assumes "gateway_inv X ttl g" and "list_all in_target_format ms"
  shows "gateway_inv X ttl (send_batch_to_asts X ms g)"
proof (cases ms)
  case Nil
  with assms show ?thesis by (simp add: send_batch_to_asts_def)
next
  case (Cons m rest)
  let ?g = "tally (\<lambda>c. record_transmission_batch c (word_of_nat (length ms))) g"
  have inv: "gateway_inv X ttl ?g" using assms(1) by simp
  show ?thesis
  proof (cases "gw_credentials g")
    case None
    with inv Cons show ?thesis by (simp add: send_batch_to_asts_def Let_def ping_inv tally_def)
  next
    case (Some c)
    let ?req = "PostBatch (''https://api.astspaceapi.com/v1/accounts/'' @ ac_account_id c @ ''/messages/batch'')
        (ac_account_id c) (ac_api_key c) (map (uplink_item_of (go_ext X)) ms)"
    obtain r g1 where b: "breaker_post ?req ?g = (r, g1)" by fastforce
    have "request_ok ?req" using assms(2) by (simp add: request_ok_def list_all_iff uplink_item_target)
    from breaker_post_inv [OF inv this b] Some b Cons show ?thesis
      by (simp add: send_batch_to_asts_def Let_def ping_inv tally_def)
  qed
qed

lemma shard_update_inv:
  assumes "gateway_inv X ttl g" and "shard_step (go_chan X) (gw_shards g) sh"
  shows "gateway_inv X ttl (g\<lparr>gw_shards := sh\<rparr>)"
  using assms unfolding gateway_inv_def components_ok_def uplink_ok_def
  by (auto intro: rtranclp.rtrancl_into_rtrancl)

lemma snapshot_update_inv:
  assumes "gateway_inv X ttl g" and "snapshot_step (gw_snapshots g) sn"
  shows "gateway_inv X ttl (g\<lparr>gw_snapshots := sn\<rparr>)"
  using assms unfolding gateway_inv_def components_ok_def uplink_ok_def
  by (auto intro: rtranclp.rtrancl_into_rtrancl)

lemma bitemporal_update_inv:
  assumes "gateway_inv X ttl g"
  shows "gateway_inv X ttl (g\<lparr>gw_bitemporal := store_batch (gw_bitemporal g) ms\<rparr>)"
    and "gateway_inv X ttl (g\<lparr>gw_bitemporal := bitemporal_store_one (gw_bitemporal g) m\<rparr>)"
  using assms unfolding gateway_inv_def components_ok_def uplink_ok_def
  by (auto simp: store_batch_foldl simp flip: foldl_append intro: exI [of _ "_ @ [m]"])
     (metis foldl_Cons foldl_Nil foldl_append)

lemma cache_set_formats:
  assumes "list_all (\<lambda>(k, e). in_target_format (ce_message e)) (c_entries c)" and "in_target_format t"
  shows "list_all (\<lambda>(k, e). in_target_format (ce_message e)) (c_entries (cache_set now c p d t))"
proof -
  have "set (c_entries (cache_make_room c)) \<subseteq> set (c_entries c)"
    by (auto simp: cache_make_room_def dest: subsetD [OF set_hm_remove_sub] split: list.splits)
  with assms show ?thesis
    by (fastforce simp: cache_set_def Let_def list_all_iff dest!: subsetD [OF set_hm_insert_sub])
qed

lemma cache_batch_formats:
  assumes "list_all (\<lambda>(k, e). in_target_format (ce_message e)) (c_entries c)"
    and "list_all (\<lambda>(now, p, d, t). in_target_format t) es"
  shows "list_all (\<lambda>(k, e). in_target_format (ce_message e)) (c_entries (cache_set_batch c es))"
  using assms unfolding cache_set_batch_foldl
  by (induction es arbitrary: c) (auto intro: cache_set_formats)

lemma cache_update_inv:
  assumes "gateway_inv X ttl g"
  shows "in_target_format t \<Longrightarrow> gateway_inv X ttl (g\<lparr>gw_cache := cache_set now (gw_cache g) p d t\<rparr>)"
    and "list_all (\<lambda>(now, p, d, t). in_target_format t) es \<Longrightarrow>
      gateway_inv X ttl (g\<lparr>gw_cache := cache_set_batch (gw_cache g) es\<rparr>)"
  using assms unfolding gateway_inv_def components_ok_def uplink_ok_def
  by (auto intro: cache_set_formats cache_batch_formats rtranclp.rtrancl_into_rtrancl cache_step.intros)

lemma enqueue_inv:
  "gateway_inv X ttl g \<Longrightarrow> in_target_format t \<Longrightarrow> gateway_inv X ttl (transmission_enqueue t g)"
  by (simp add: transmission_enqueue_def gateway_inv_def components_ok_def uplink_ok_def)

lemma enqueue_all_inv:
  assumes "\<And>h. gateway_inv X ttl (f h) = gateway_inv X ttl h"
  shows "gateway_inv X ttl g \<Longrightarrow> list_all in_target_format ts \<Longrightarrow>
    gateway_inv X ttl (foldl (\<lambda>g t. f (transmission_enqueue t g)) g ts)"
  by (induction ts arbitrary: g) (simp_all add: assms enqueue_inv)

lemma reconcile_message_eq:
  "gateway_inv X ttl g \<Longrightarrow> reconcile_message m g = (m, g\<lparr>gw_reads := gw_reads g + 1\<rparr>)"
  by (simp add: reconcile_message_def read_clock_def gateway_inv_def components_ok_def clock_new_def
      reconcile_def get_offset_def)

lemma reconcile_batch_eq:
  assumes "gateway_inv X ttl g"
  shows "\<exists>g'. reconcile_batch ms g = (ms, g') \<and> gateway_inv X ttl g' \<and>
    (\<exists>n c. g' = g\<lparr>gw_reads := n, gw_metrics := c\<rparr>)"
  using assms
proof (induction ms arbitrary: g)
  case Nil
  show ?case using Nil.prems by (auto intro!: exI [of _ "gw_reads g"] exI [of _ "gw_metrics g"])
next
  case (Cons m ms)
  let ?g = "tally (\<lambda>c. record_protocol c (m_protocol m)) (g\<lparr>gw_reads := gw_reads g + 1\<rparr>)"
  have "gateway_inv X ttl ?g" using Cons.prems by simp
  from Cons.IH [OF this] obtain g' n c where "reconcile_batch ms ?g = (ms, g')" "gateway_inv X ttl g'"
    "g' = ?g\<lparr>gw_reads := n, gw_metrics := c\<rparr>" by blast
  then show ?case
    by (auto simp: reconcile_message_eq [OF Cons.prems] Let_def tally_def intro!: exI [of _ n] exI [of _ c])
qed

lemma gateway_cadence_telemetry:
  "cadence_translate F t1 t2 gateway_cadence ''telemetry'' IridiumSBD pr =
     ret (if pr = Emergency then Send else DuplicateN 60, gateway_cadence)"
  by (simp add: cadence_translate_def gateway_cadence_def default_iridium_to_asts_rules_def add_rule_def
      cadence_new_def find_rule_def)

end
