(* ===== verification/Gateway_Properties.thy ===== *)
theory Gateway_Properties
  imports Gateway_Invariant
begin

text \<open>
  What the composed gateway guarantees: every handler returns and keeps the invariant, only
  messages in the target format leave, the batch paths lose and invent nothing, and what
  happens to a message on the emergency path and behind an open circuit breaker.
\<close>

section \<open>Accounting\<close>

text \<open>How many copies of a message that is not part of a burst go on to the cache lookup.\<close>

definition copies :: "message \<Rightarrow> nat" where
  "copies m = (if m_protocol m = IridiumSBD \<and> m_priority m \<noteq> Emergency then 60 else 1)"

definition spread_part :: "message list \<Rightarrow> bool list \<Rightarrow> message list" where
  "spread_part ms bs = map fst (filter snd (zip ms bs))"

definition normal_part :: "message list \<Rightarrow> bool list \<Rightarrow> message list" where
  "normal_part ms bs = concat (map (\<lambda>(m, b). if b then [] else replicate (copies m) m) (zip ms bs))"

text \<open>
  The messages of a batch that belong to a burst: the spread is above the adaptive threshold of the
  protocol, whose tracker has taken in the message before.
\<close>

definition tracker_after :: "'f f64_ops \<Rightarrow> (protocol \<times> 'f ewma_spread_state) list \<Rightarrow> message \<Rightarrow> 'f ewma_spread_state" where
  "tracker_after F W m = ewma_update F (case map_of W (m_protocol m) of Some st \<Rightarrow> st | None \<Rightarrow> ewma_new F) (spread_ms m)"

fun burst_bits :: "'f f64_ops \<Rightarrow> (protocol \<times> 'f ewma_spread_state) list \<Rightarrow> message list \<Rightarrow> bool list" where
  "burst_bits F W [] = []"
| "burst_bits F W (m # ms) =
     (sint (spread_ms m) > sint (adaptive_threshold_ms F (tracker_after F W m) (spread_burst_threshold_ms (m_protocol m)))) #
     burst_bits F (hm_insert (m_protocol m) (tracker_after F W m) W) ms"

text \<open>The counters of cache lookups and of messages routed to the spread shard.\<close>

definition lookups :: "('q, 't, 'f) gateway \<Rightarrow> u64" where
  "lookups g = me_cache_hits (gw_metrics g) + me_cache_misses (gw_metrics g)"

definition spread_count :: "('q, 't, 'f) gateway \<Rightarrow> u64" where
  "spread_count g = me_spread_sharded_messages (gw_metrics g)"

text \<open>
  The reference for the translation loops: the messages that can be translated, each with its
  translation, the clock being read once per message.
\<close>

fun translated_pairs :: "ext \<Rightarrow> (nat \<Rightarrow> reading) \<Rightarrow> nat \<Rightarrow> message list \<Rightarrow> (message \<times> message) list" where
  "translated_pairs e rd n [] = []"
| "translated_pairs e rd n (m # ms) =
     (case translated e (r_wall (rd n)) m of
        Some t \<Rightarrow> (m, t) # translated_pairs e rd (n + 1) ms
      | None \<Rightarrow> translated_pairs e rd (n + 1) ms)"

definition translatable :: "ext \<Rightarrow> message \<Rightarrow> bool" where
  "translatable e m \<longleftrightarrow> translated_bytes e (m_protocol m) (m_data m) \<noteq> None"

text \<open>The gateway over the reference channels, the reference externals and exact arithmetic.\<close>

definition list_ops :: "(nat \<times> message list, nat \<times> translator list, rat) gateway_ops" where
  "list_ops = \<lparr>go_ext = ref_ext, go_float = exact_ops, go_chan = list_chan, go_pool_chan = list_chan\<rparr>"

fun record_errors :: "nat \<Rightarrow> metrics \<Rightarrow> metrics" where
  "record_errors 0 c = c"
| "record_errors (Suc n) c = record_errors n (record_error c)"

section \<open>Handlers keep the invariant and return\<close>

lemma parts_Cons [simp]:
  "spread_part (m # ms) (b # bs) = (if b then [m] else []) @ spread_part ms bs"
  "normal_part (m # ms) (b # bs) = (if b then [] else replicate (copies m) m) @ normal_part ms bs"
  "spread_part [] bs = []" "normal_part [] bs = []"
  by (simp_all add: spread_part_def normal_part_def)

lemma length_parts:
  "length bs = length ms \<Longrightarrow> length (spread_part ms bs) = length (filter id bs)"
  "length (normal_part ms bs) = sum_list (map (\<lambda>(m, b). if b then 0 else copies m) (zip ms bs))"
proof -
  show "length (normal_part ms bs) = sum_list (map (\<lambda>(m, b). if b then 0 else copies m) (zip ms bs))"
    by (auto simp: normal_part_def length_concat comp_def intro!: arg_cong [where f = sum_list] split: prod.splits)
  show "length bs = length ms \<Longrightarrow> length (spread_part ms bs) = length (filter id bs)"
    by (induction bs ms rule: list_induct2) simp_all
qed

lemma length_burst_bits [simp]: "length (burst_bits F W ms) = length ms"
  by (induction ms arbitrary: W) simp_all

lemma route_message_spec:
  assumes "gateway_inv X ttl g" and "burst_bits (go_float X) (gw_ewma g) [m] = [b]"
  shows "\<exists>n. route_message X m g = ret (spread_part [m] [b], normal_part [m] [b],
    g\<lparr>gw_ewma := hm_insert (m_protocol m) (tracker_after (go_float X) (gw_ewma g) m) (gw_ewma g), gw_reads := n\<rparr>)"
proof -
  have cad: "gw_cadence g = gateway_cadence" using assms by (simp add: gateway_inv_def components_ok_def)
  have b: "b \<longleftrightarrow> sint (spread_ms m) > sint (adaptive_threshold_ms (go_float X) (tracker_after (go_float X) (gw_ewma g) m)
      (spread_burst_threshold_ms (m_protocol m)))" using assms(2) by simp
  show ?thesis
    unfolding route_message_def Let_def tracker_after_def [symmetric] b [symmetric]
    by (intro exI [of _ "if \<not> b \<and> m_protocol m = IridiumSBD \<and> m_priority m \<noteq> Emergency then gw_reads g + 2 else gw_reads g"])
      (simp add: copies_def read_clock_def cad gateway_cadence_telemetry)
qed

lemma partition_spec:
  assumes "gateway_inv X ttl g" and "bs = burst_bits (go_float X) (gw_ewma g) ms"
  shows "\<exists>w n. partition_batch X ms g = ret (spread_part ms bs, normal_part ms bs, g\<lparr>gw_ewma := w, gw_reads := n\<rparr>)"
  using assms
proof (induction ms arbitrary: g bs)
  case Nil
  then show ?case by (auto intro!: exI [of _ "gw_ewma g"] exI [of _ "gw_reads g"])
next
  case (Cons m ms)
  obtain b cs where bs: "bs = b # cs" "burst_bits (go_float X) (gw_ewma g) [m] = [b]"
      "cs = burst_bits (go_float X) (hm_insert (m_protocol m) (tracker_after (go_float X) (gw_ewma g) m) (gw_ewma g)) ms"
    using Cons.prems(2) by simp
  from route_message_spec [OF Cons.prems(1) bs(2)] obtain n where
    r: "route_message X m g = ret (spread_part [m] [b], normal_part [m] [b],
      g\<lparr>gw_ewma := hm_insert (m_protocol m) (tracker_after (go_float X) (gw_ewma g) m) (gw_ewma g), gw_reads := n\<rparr>)"
      (is "_ = ret (_, _, ?g)") by blast
  have "gateway_inv X ttl ?g" "cs = burst_bits (go_float X) (gw_ewma ?g) ms" using Cons.prems(1) bs(3) by simp_all
  from Cons.IH [OF this] obtain w k where
    "partition_batch X ms ?g = ret (spread_part ms cs, normal_part ms cs, g\<lparr>gw_ewma := w, gw_reads := k\<rparr>)" by auto
  then have "partition_batch X (m # ms) g = ret (spread_part (m # ms) bs, normal_part (m # ms) bs, g\<lparr>gw_ewma := w, gw_reads := k\<rparr>)"
    by (simp add: r bs(1))
  then show ?case by blast
qed

lemma push_spread_msgs_inv:
  "gateway_inv X ttl g \<Longrightarrow> gateway_inv X ttl (push_spread_msgs X ms g)"
proof (induction ms arbitrary: g)
  case (Cons m ms)
  let ?g = "tally record_spread_shard g"
  have "shard_step (go_chan X) (gw_shards ?g) (snd (push_spread (go_chan X) (gw_shards ?g) m))"
    by (rule shard_step.spread) (rule prod.collapse [symmetric])
  with Cons show ?case by (simp add: Let_def shard_update_inv)
qed simp

lemma route_normal_inv:
  assumes "gateway_inv X ttl g" and "list_all (\<lambda>(m, c). \<forall>t. c = Some t \<longrightarrow> in_target_format t) l"
  shows "\<exists>g'. route_normal X l g = ret g' \<and> gateway_inv X ttl g'"
  using assms
proof (induction l arbitrary: g)
  case (Cons x l)
  obtain m c where x: "x = (m, c)" by fastforce
  show ?case
  proof (cases c)
    case (Some t)
    with Cons x show ?thesis by (simp add: send_to_asts_inv)
  next
    case None
    let ?g = "tally record_cache_miss g"
    have inv: "gateway_inv X ttl ?g" using Cons.prems by simp
    then obtain now where "(shard_step (go_chan X))\<^sup>*\<^sup>* (shard_manager_new (go_chan X) now 8 1000) (gw_shards ?g)"
      by (auto simp: gateway_inv_def components_ok_def)
    from shard_step_frames [OF this] have "sg_num_shards (gw_shards ?g) = 8" by simp
    then obtain r sh where push: "shard_manager_push (go_chan X) (gw_shards ?g) m = ret (r, sh)"
      using shard_manager_push_total [of "gw_shards ?g"] by fastforce
    have "gateway_inv X ttl (?g\<lparr>gw_shards := sh\<rparr>)" by (rule shard_update_inv [OF inv shard_step.push [OF push]])
    with Cons.prems Cons.IH show ?thesis by (auto simp: x None push Let_def split: sum.splits)
  qed
qed simp

lemma cache_results_format:
  assumes "gateway_inv X ttl g"
  shows "list_all (\<lambda>(m, c). \<forall>t. c = Some t \<longrightarrow> in_target_format t) (zip ms (cache_get_batch now (gw_cache g) qs))"
proof -
  have "list_all (\<lambda>(k, e). in_target_format (ce_message e)) (c_entries (gw_cache g))"
    using assms by (simp add: gateway_inv_def uplink_ok_def)
  then have "\<forall>t. c = Some t \<longrightarrow> in_target_format t" if "c \<in> set (cache_get_batch now (gw_cache g) qs)" for c
    using that by (auto simp: cache_get_batch_def Let_def list_all_iff dest!: map_of_SomeD split: option.splits if_splits)
  then show ?thesis by (auto simp: list_all_iff dest: set_zip_rightD)
qed

lemma incoming_inv:
  assumes "gateway_inv X ttl g"
  shows "\<exists>g'. process_incoming_batch X batch g = ret g' \<and> gateway_inv X ttl g'"
proof (cases "batch = []")
  case False
  from reconcile_batch_eq [OF assms] obtain g1 where g1: "reconcile_batch batch g = (batch, g1)" "gateway_inv X ttl g1"
    by blast
  let ?g = "g1\<lparr>gw_bitemporal := store_batch (gw_bitemporal g1) batch\<rparr>"
  have inv: "gateway_inv X ttl ?g" by (rule bitemporal_update_inv(1) [OF g1(2)])
  from partition_spec [OF inv refl, of batch] obtain w n where
    p: "partition_batch X batch ?g = ret (spread_part batch (burst_bits (go_float X) (gw_ewma ?g) batch),
      normal_part batch (burst_bits (go_float X) (gw_ewma ?g) batch), ?g\<lparr>gw_ewma := w, gw_reads := n\<rparr>)" by blast
  define bs g2 where "bs = burst_bits (go_float X) (gw_ewma ?g) batch" and "g2 = ?g\<lparr>gw_ewma := w, gw_reads := n\<rparr>"
  have g2: "partition_batch X batch ?g = ret (spread_part batch bs, normal_part batch bs, g2)" "gateway_inv X ttl g2"
    using p inv by (simp_all add: bs_def g2_def)
  let ?h = "push_spread_msgs X (spread_part batch bs) g2"
  have h: "gateway_inv X ttl ?h" by (rule push_spread_msgs_inv [OF g2(2)])
  let ?k = "?h\<lparr>gw_reads := gw_reads ?h + 1\<rparr>"
  have k: "gateway_inv X ttl ?k" using h by simp
  show ?thesis
    using route_normal_inv [OF k cache_results_format [OF k]] h
    by (simp add: process_incoming_batch_def False g1(1) g2(1) read_clock_def Let_def)
qed (simp add: process_incoming_batch_def assms)

lemma cache_entries_spec:
  "\<exists>es n. cache_entries pairs g = (es, g\<lparr>gw_reads := n\<rparr>) \<and> map (\<lambda>(now, p, d, t). t) es = map snd pairs"
proof (induction pairs arbitrary: g)
  case Nil
  show ?case by (auto intro!: exI [of _ "gw_reads g"])
next
  case (Cons x pairs)
  obtain orig t where x: "x = (orig, t)" by fastforce
  from Cons.IH [of "g\<lparr>gw_reads := gw_reads g + 1\<rparr>"] obtain es n where
    "cache_entries pairs (g\<lparr>gw_reads := gw_reads g + 1\<rparr>) = (es, g\<lparr>gw_reads := n\<rparr>)"
    "map (\<lambda>(now, p, d, t). t) es = map snd pairs" by auto
  then show ?case by (auto simp: x read_clock_def Let_def)
qed

lemma cache_and_snapshot_inv:
  assumes "gateway_inv X ttl g" and "list_all in_target_format (map snd pairs)"
  shows "gateway_inv X ttl (cache_and_snapshot pairs g) \<and>
    (\<exists>n c sn. cache_and_snapshot pairs g = g\<lparr>gw_reads := n, gw_cache := c, gw_snapshots := sn\<rparr>)"
proof -
  from cache_entries_spec obtain es n where
    es: "cache_entries pairs g = (es, g\<lparr>gw_reads := n\<rparr>)" "map (\<lambda>(now, p, d, t). t) es = map snd pairs" by blast
  have "list_all (\<lambda>(now, p, d, t). in_target_format t) es"
    using assms(2) unfolding es(2) [symmetric] by (auto simp: list_all_iff)
  then have c: "gateway_inv X ttl (g\<lparr>gw_reads := Suc n, gw_cache := cache_set_batch (gw_cache g) es\<rparr>)" (is "gateway_inv X ttl ?g")
    using cache_update_inv(2) [of X ttl "g\<lparr>gw_reads := Suc n\<rparr>" es] assms(1) by simp
  obtain i sn where sn: "create_batch_snapshot (r_wall (gw_readings g n)) (gw_snapshots g) (map snd pairs) ASTSpaceMobile
      (djb2_hash (m_data (fst (hd pairs)))) = (i, sn)" by fastforce
  have "snapshot_step (gw_snapshots ?g) sn"
    using sn by (auto simp: create_batch_snapshot_def intro: snapshot_step.create)
  from snapshot_update_inv [OF c this] have inv: "gateway_inv X ttl (?g\<lparr>gw_snapshots := sn\<rparr>)" .
  have eq: "cache_and_snapshot pairs g = ?g\<lparr>gw_snapshots := sn\<rparr>"
    by (simp add: cache_and_snapshot_def es read_clock_def Let_def sn)
  show ?thesis unfolding eq using inv by blast
qed

lemma translated_None_iff: "translated e now m = None \<longleftrightarrow> \<not> translatable e m"
  by (simp add: translated_def translatable_def)

lemma translated_pairs_format: "list_all in_target_format (map snd (translated_pairs e rd n ms))"
  by (induction ms arbitrary: n) (auto split: option.splits dest: in_target_format_translated)

lemma translated_pairs_originals: "map fst (translated_pairs e rd n ms) = filter (translatable e) ms"
  by (induction ms arbitrary: n) (auto split: option.splits simp: translated_def translatable_def)

lemma translated_pairs_sound: "\<forall>(m, t)\<in>set (translated_pairs e rd n ms). \<exists>now. translated e now m = Some t"
  by (induction ms arbitrary: n) (auto split: option.splits)

lemma record_errors_count: "me_errors (record_errors n c) = me_errors c + word_of_nat n"
  by (induction n arbitrary: c) (simp_all add: record_error_def)

lemma pool_update_inv:
  assumes "gateway_inv X ttl g"
    and "(pool_step (go_pool_chan X))\<^sup>*\<^sup>* (gw_translator_pool g, \<lambda>_. 0) (pool, \<lambda>_. 0)"
  shows "gateway_inv X ttl (g\<lparr>gw_translator_pool := pool\<rparr>)"
  using assms unfolding gateway_inv_def components_ok_def uplink_ok_def by (auto intro: rtranclp_trans)

lemma borrow_and_return:
  assumes "pool_borrow C pools p = (Some tr, pools')"
  shows "(pool_step C)\<^sup>*\<^sup>* (pools, \<lambda>_. 0) (return_translator C pools' p tr, \<lambda>_. 0)"
proof -
  have "pool_step C (pools, \<lambda>_. 0) (pools', (\<lambda>_. 0)(p := 0 + 1))" by (rule pool_step.borrow [OF assms])
  moreover have "pool_step C (pools', (\<lambda>_. 0)(p := 1)) (return_translator C pools' p tr, \<lambda>_. 0)"
    using pool_step.return [of "(\<lambda>_. 0)(p := 1)" p C pools' tr] by (simp add: fun_upd_idem)
  ultimately show ?thesis by (auto intro: converse_rtranclp_into_rtranclp simp: fun_upd_idem)
qed

locale gateway_env =
  sh: shard_channels "go_chan X" contq capq + tp: translator_channel "go_pool_chan X" contt capt
  for X :: "('q, 't, 'f) gateway_ops" and contq capq contt capt +
  assumes hex: "hex_decode_law (go_ext X)" and nom: "nom_law (go_ext X)"
begin

lemma gateway_translate_eq:
  "gateway_translate X m g =
     ret (ok_or (translated (go_ext X) (r_wall (gw_readings g (gw_reads g))) m) InvalidProtocol,
          g\<lparr>gw_reads := gw_reads g + 1\<rparr>)"
  by (simp add: gateway_translate_def read_clock_def translate_sync_eq [OF hex nom] translated_def
      split: option.splits)

lemma own_translate_spec:
  assumes "gateway_inv X ttl g"
  shows "\<exists>g' pool. own_translate X m g = ret (translated_pairs (go_ext X) (gw_readings g) (gw_reads g) [m], g') \<and>
    gateway_inv X ttl g' \<and> g' = g\<lparr>gw_translator_pool := pool, gw_reads := gw_reads g + 1,
      gw_metrics := record_errors (if translatable (go_ext X) m then 0 else 1) (gw_metrics g)\<rparr>"
proof -
  let ?g = "g\<lparr>gw_reads := gw_reads g + 1,
      gw_metrics := record_errors (if translatable (go_ext X) m then 0 else 1) (gw_metrics g)\<rparr>"
  have "own_translate X m g = ret (translated_pairs (go_ext X) (gw_readings g) (gw_reads g) [m], ?g)"
    by (cases "translated (go_ext X) (r_wall (gw_readings g (gw_reads g))) m")
      (auto simp: own_translate_def gateway_translate_eq tally_def translated_def translatable_def)
  then show ?thesis using assms by (intro exI [of _ ?g] exI [of _ "gw_translator_pool g"]) simp
qed

lemma pool_translate_spec:
  assumes "gateway_inv X ttl g"
  shows "\<exists>g' pool. pool_translate X m g = ret (translated_pairs (go_ext X) (gw_readings g) (gw_reads g) [m], g') \<and>
    gateway_inv X ttl g' \<and> g' = g\<lparr>gw_translator_pool := pool, gw_reads := gw_reads g + 1,
      gw_metrics := record_errors (if translatable (go_ext X) m then 0 else 1) (gw_metrics g)\<rparr>"
proof -
  obtain tr pools where b: "pool_borrow (go_pool_chan X) (gw_translator_pool g) (m_protocol m) = (tr, pools)"
    by fastforce
  define pool where "pool = (case tr of None \<Rightarrow> pools | Some t \<Rightarrow> return_translator (go_pool_chan X) pools (m_protocol m) t)"
  let ?g = "g\<lparr>gw_translator_pool := pool, gw_reads := gw_reads g + 1,
      gw_metrics := record_errors (if translatable (go_ext X) m then 0 else 1) (gw_metrics g)\<rparr>"
  have "pool_translate X m g = ret (translated_pairs (go_ext X) (gw_readings g) (gw_reads g) [m], ?g)"
    by (cases "translated (go_ext X) (r_wall (gw_readings g (gw_reads g))) m"; cases tr)
      (auto simp: pool_translate_def b gateway_translate_eq tally_def pool_def translated_def translatable_def)
  moreover have "(pool_step (go_pool_chan X))\<^sup>*\<^sup>* (gw_translator_pool g, \<lambda>_. 0) (pool, \<lambda>_. 0)"
    using b borrow_and_return pool_step.borrow_none by (cases tr) (fastforce simp: pool_def)+
  from pool_update_inv [OF assms this] have "gateway_inv X ttl ?g" by simp
  ultimately show ?thesis by blast
qed

lemma record_errors_add: "record_errors a (record_errors b c) = record_errors (b + a) c"
  by (induction b arbitrary: c) auto

lemma translate_all_spec:
  assumes f: "\<And>m g. gateway_inv X ttl g \<Longrightarrow>
    \<exists>g' pool. f m g = ret (translated_pairs (go_ext X) (gw_readings g) (gw_reads g) [m], g') \<and>
      gateway_inv X ttl g' \<and> g' = g\<lparr>gw_translator_pool := pool, gw_reads := gw_reads g + 1,
        gw_metrics := record_errors (if translatable (go_ext X) m then 0 else 1) (gw_metrics g)\<rparr>"
    and "gateway_inv X ttl g"
  shows "\<exists>g' pool. translate_all f ms g = ret (translated_pairs (go_ext X) (gw_readings g) (gw_reads g) ms, g') \<and>
    gateway_inv X ttl g' \<and> g' = g\<lparr>gw_translator_pool := pool, gw_reads := gw_reads g + length ms,
      gw_metrics := record_errors (length (filter (Not \<circ> translatable (go_ext X)) ms)) (gw_metrics g)\<rparr>"
  using assms(2)
proof (induction ms arbitrary: g)
  case Nil
  then show ?case by (intro exI [of _ g] exI [of _ "gw_translator_pool g"]) simp
next
  case (Cons m ms)
  let ?tp = "translated_pairs (go_ext X)"
  from f [OF Cons.prems, of m] obtain g1 pool1 where
    g1: "f m g = ret (?tp (gw_readings g) (gw_reads g) [m], g1)" "gateway_inv X ttl g1"
      "g1 = g\<lparr>gw_translator_pool := pool1, gw_reads := gw_reads g + 1,
        gw_metrics := record_errors (if translatable (go_ext X) m then 0 else 1) (gw_metrics g)\<rparr>" by blast
  from Cons.IH [OF g1(2)] obtain g2 pool2 where
    g2: "translate_all f ms g1 = ret (?tp (gw_readings g1) (gw_reads g1) ms, g2)" "gateway_inv X ttl g2"
      "g2 = g1\<lparr>gw_translator_pool := pool2, gw_reads := gw_reads g1 + length ms,
        gw_metrics := record_errors (length (filter (Not \<circ> translatable (go_ext X)) ms)) (gw_metrics g1)\<rparr>" by blast
  have rd: "gw_readings g1 = gw_readings g" "gw_reads g1 = gw_reads g + 1" unfolding g1(3) by simp_all
  have "translate_all f (m # ms) g = ret (?tp (gw_readings g) (gw_reads g) (m # ms), g2)"
    by (simp add: g1(1) g2(1) rd split: option.splits)
  moreover have "g2 = g\<lparr>gw_translator_pool := pool2, gw_reads := gw_reads g + length (m # ms),
      gw_metrics := record_errors (length (filter (Not \<circ> translatable (go_ext X)) (m # ms))) (gw_metrics g)\<rparr>"
    unfolding g2(3) g1(3) by (simp add: record_errors_add)
  ultimately show ?case using g2(2) by blast
qed

lemma enqueue_fold:
  "foldl (\<lambda>g t. transmission_enqueue t g) g ts = g\<lparr>gw_transmission_in := gw_transmission_in g @ ts\<rparr>"
  by (induction ts arbitrary: g) (simp_all add: transmission_enqueue_def)

lemma translated_batch_spec:
  assumes "gateway_inv X ttl g" and "ms \<noteq> []"
  shows "\<exists>g'. process_translated_batch X ms g = ret g' \<and> gateway_inv X ttl g' \<and>
    gw_transmission_in g' = gw_transmission_in g @ map snd (translated_pairs (go_ext X) (gw_readings g) (gw_reads g + 1) ms) \<and>
    me_errors (gw_metrics g') = me_errors (record_errors (length (filter (Not \<circ> translatable (go_ext X)) ms)) (gw_metrics g))"
proof -
  let ?g0 = "g\<lparr>gw_reads := gw_reads g + 1\<rparr>"
  define ps where "ps = translated_pairs (go_ext X) (gw_readings g) (gw_reads g + 1) ms"
  have "gateway_inv X ttl ?g0" using assms(1) by simp
  from translate_all_spec [OF pool_translate_spec this] obtain g1 pool where
    g1: "translate_all (pool_translate X) ms ?g0 = ret (ps, g1)" "gateway_inv X ttl g1"
      "gw_transmission_in g1 = gw_transmission_in g"
      "gw_metrics g1 = record_errors (length (filter (Not \<circ> translatable (go_ext X)) ms)) (gw_metrics g)"
    unfolding ps_def by fastforce
  show ?thesis
  proof (cases "ps = []")
    case True
    with g1 assms(2) ps_def show ?thesis by (simp add: process_translated_batch_def read_clock_def)
  next
    case False
    from cache_and_snapshot_inv [OF g1(2) translated_pairs_format, of "go_ext X" "gw_readings g" "gw_reads g + 1" ms, folded ps_def] obtain n c sn where
      cs: "gateway_inv X ttl (cache_and_snapshot ps g1)"
        "cache_and_snapshot ps g1 = g1\<lparr>gw_reads := n, gw_cache := c, gw_snapshots := sn\<rparr>" by blast
    have "gateway_inv X ttl (foldl (\<lambda>g m. transmission_enqueue m g) (cache_and_snapshot ps g1) (map snd ps))"
      using enqueue_all_inv [of X ttl "\<lambda>g. g", OF refl cs(1)] translated_pairs_format unfolding ps_def by blast
    with g1 assms(2) False show ?thesis unfolding ps_def [symmetric]
      by (simp add: process_translated_batch_def read_clock_def Let_def enqueue_fold cs(2) tally_def record_latency_def
          gateway_inv_def components_ok_def uplink_ok_def)
  qed
qed

lemma drain_spread_inv:
  assumes "gateway_inv X ttl g"
  shows "\<exists>g'. drain_spread_shard_once X g = ret g' \<and> gateway_inv X ttl g'"
proof -
  obtain ms sh where d: "drain_shard (go_chan X) (gw_shards g) (sg_spread_shard_id (gw_shards g)) = Some (ms, sh)"
    using sh.drain_shard_total by blast
  let ?g = "g\<lparr>gw_shards := sh\<rparr>"
  have inv: "gateway_inv X ttl ?g" by (rule shard_update_inv [OF assms shard_step.drain [OF d]])
  define ps where "ps = translated_pairs (go_ext X) (gw_readings ?g) (gw_reads ?g) ms"
  from translate_all_spec [OF own_translate_spec inv] obtain g1 where
    g1: "translate_all (own_translate X) ms ?g = ret (ps, g1)" "gateway_inv X ttl g1" unfolding ps_def by blast
  have fmt: "list_all in_target_format (map snd ps)" unfolding ps_def by (rule translated_pairs_format)
  from cache_and_snapshot_inv [OF g1(2) fmt]
  have "gateway_inv X ttl (foldl (\<lambda>g m. tally increment_translated (transmission_enqueue m g))
      (cache_and_snapshot ps g1) (map snd ps))" using fmt by (intro enqueue_all_inv) simp_all
  with inv g1 show ?thesis by (simp add: drain_spread_shard_once_def d Let_def)
qed

lemma emergency_record_spec:
  assumes "gateway_inv X ttl g"
  shows "\<exists>h. emergency_record X m g = (m, h) \<and> gateway_inv X ttl h \<and>
    gw_bitemporal h = bitemporal_store_one (gw_bitemporal g) m \<and>
    gw_shards h = snd (push_deadzone (go_chan X) (gw_shards g) m) \<and> gw_reads h = gw_reads g + 2 \<and>
    gw_breaker h = gw_breaker g \<and> gw_sent h = gw_sent g \<and> gw_credentials h = gw_credentials g \<and>
    gw_telemetry h = gw_telemetry g \<and> gw_readings h = gw_readings g \<and> gw_batcher_in h = gw_batcher_in g \<and>
    gw_transmission_in h = gw_transmission_in g"
proof -
  define g1 where "g1 = tally (\<lambda>c. record_protocol c (m_protocol m))
    (g\<lparr>gw_reads := gw_reads g + 2, gw_bitemporal := bitemporal_store_one (gw_bitemporal g) m\<rparr>)"
  have i1: "gateway_inv X ttl g1"
    using bitemporal_update_inv(2) [of X ttl "g\<lparr>gw_reads := gw_reads g + 2\<rparr>" m] assms by (simp add: g1_def)
  define g2 where "g2 = g1\<lparr>gw_shards := snd (push_deadzone (go_chan X) (gw_shards g1) m)\<rparr>"
  have i2: "gateway_inv X ttl g2" unfolding g2_def
    by (rule shard_update_inv [OF i1], rule shard_step.deadzone) (rule prod.collapse [symmetric])
  define h where "h = g2\<lparr>gw_snapshots := snd (create_snapshot (r_wall (gw_readings g (gw_reads g + 1)))
    (gw_snapshots g2) [m] (m_protocol m) (djb2_hash (m_data m)))\<rparr>"
  have "gateway_inv X ttl h" unfolding h_def
    by (rule snapshot_update_inv [OF i2], rule snapshot_step.create) (rule prod.collapse [symmetric])
  moreover have "emergency_record X m g = (m, h)"
    by (simp add: emergency_record_def reconcile_message_eq [OF assms] read_clock_def h_def g2_def g1_def tally_def)
  ultimately show ?thesis by (simp add: h_def g2_def g1_def tally_def)
qed

text \<open>What is left after an emergency message was translated at the time \<open>n\<close> and emitted.\<close>

lemma emergency_emit_spec:
  assumes "gateway_inv X ttl h"
  shows "\<exists>k c. emergency_emit X m start h = ret (tally c
      (case translated (go_ext X) (r_wall (gw_readings h (gw_reads h))) m of
         Some t \<Rightarrow> (\<lambda>u. u\<lparr>gw_reads := gw_reads u + 1\<rparr>) (send_to_asts X t k)
       | None \<Rightarrow> h\<lparr>gw_reads := gw_reads h + 2\<rparr>)) \<and> gateway_inv X ttl k \<and>
    gw_bitemporal k = gw_bitemporal h \<and> gw_shards k = gw_shards h \<and> gw_breaker k = gw_breaker h \<and>
    gw_sent k = gw_sent h \<and> gw_credentials k = gw_credentials h \<and> gw_telemetry k = gw_telemetry h \<and>
    gw_readings k = gw_readings h \<and> gw_reads k = gw_reads h + 2 \<and> gw_batcher_in k = gw_batcher_in h \<and>
    gw_transmission_in k = gw_transmission_in h"
proof -
  let ?n = "r_wall (gw_readings h (gw_reads h))"
  show ?thesis
  proof (cases "translated (go_ext X) ?n m")
    case None
    then have "emergency_emit X m start h = ret (tally (\<lambda>c. record_latency (record_error c)
        (r_inst (gw_readings h (gw_reads h + 1)) - r_inst start)) (h\<lparr>gw_reads := gw_reads h + 2\<rparr>))"
      by (simp add: emergency_emit_def gateway_translate_eq read_clock_def tally_def)
    then show ?thesis using None assms
      by (intro exI [of _ "h\<lparr>gw_reads := gw_reads h + 2\<rparr>"] exI) (auto intro: refl)
  next
    case (Some t)
    let ?k = "h\<lparr>gw_reads := gw_reads h + 2, gw_cache := cache_set (r_inst (gw_readings h (gw_reads h + 1)))
        (gw_cache h) (m_protocol m) (m_data m) t\<rparr>"
    let ?u = "send_to_asts X t ?k"
    have "emergency_emit X m start h = ret (tally (\<lambda>c. record_latency c
        (r_inst (gw_readings ?u (gw_reads ?u)) - r_inst start)) (?u\<lparr>gw_reads := gw_reads ?u + 1\<rparr>))"
      using Some by (simp add: emergency_emit_def gateway_translate_eq read_clock_def Let_def)
    moreover have "gateway_inv X ttl ?k"
      using cache_update_inv(1) [of X ttl "h\<lparr>gw_reads := gw_reads h + 2\<rparr>"] assms in_target_format_translated [OF Some]
      by simp
    ultimately show ?thesis using Some by (intro exI [of _ ?k] exI) (auto intro: refl)
  qed
qed

lemma emergency_inv:
  assumes "gateway_inv X ttl g"
  shows "\<exists>g'. process_emergency X m g = ret g' \<and> gateway_inv X ttl g'"
proof -
  let ?g = "g\<lparr>gw_reads := gw_reads g + 1\<rparr>"
  have "gateway_inv X ttl ?g" using assms by simp
  from emergency_record_spec [OF this] obtain h where h: "emergency_record X m ?g = (m, h)" "gateway_inv X ttl h"
    by blast
  from emergency_emit_spec [OF h(2), of m "gw_readings g (gw_reads g)"] obtain k c where
    e: "emergency_emit X m (gw_readings g (gw_reads g)) h = ret (tally c
      (case translated (go_ext X) (r_wall (gw_readings h (gw_reads h))) m of
         Some t \<Rightarrow> (\<lambda>u. u\<lparr>gw_reads := gw_reads u + 1\<rparr>) (send_to_asts X t k)
       | None \<Rightarrow> h\<lparr>gw_reads := gw_reads h + 2\<rparr>))" and k: "gateway_inv X ttl k" by blast
  have "gateway_inv X ttl (case translated (go_ext X) (r_wall (gw_readings h (gw_reads h))) m of
         Some t \<Rightarrow> (\<lambda>u. u\<lparr>gw_reads := gw_reads u + 1\<rparr>) (send_to_asts X t k)
       | None \<Rightarrow> h\<lparr>gw_reads := gw_reads h + 2\<rparr>)"
    using h(2) k send_to_asts_inv in_target_format_translated by (fastforce split: option.splits)
  with e h(1) show ?thesis by (simp add: process_emergency_def read_clock_def)
qed

lemma send_inv:
  assumes "gateway_inv X ttl g"
  shows "\<exists>g'. gateway_send X m g = ret g' \<and> gateway_inv X ttl g'"
  using assms emergency_inv [of ttl "tally increment_translated g" m] by (simp add: gateway_send_def Let_def)

lemma worker_inv:
  assumes "gateway_inv X ttl g"
  shows "\<exists>g'. worker_task X k g = ret g' \<and> gateway_inv X ttl g'"
proof (cases "worker_round (go_chan X) 20 k (gw_shards g)")
  case None
  with assms show ?thesis by (simp add: worker_task_def)
next
  case (Some r)
  obtain ms sh where r: "r = (ms, sh)" by fastforce
  have inv: "gateway_inv X ttl (g\<lparr>gw_shards := sh\<rparr>)"
    by (rule shard_update_inv [OF assms shard_step.worker]) (use Some r in simp)
  moreover have "ms \<noteq> []" using Some r by (auto simp: worker_round_def split: option.splits prod.splits)
  ultimately show ?thesis using translated_batch_spec [OF inv] Some r by (auto simp: worker_task_def)
qed

lemma batch_consumer_inv:
  assumes "gateway_inv X ttl g"
  shows "\<exists>g'. batch_consumer X g = ret g' \<and> gateway_inv X ttl g'"
proof (cases "gw_batch_rx g")
  case (Cons b rest)
  with incoming_inv [of X ttl "g\<lparr>gw_batch_rx := rest\<rparr>" b] assms show ?thesis by (simp add: batch_consumer_def)
qed (simp add: batch_consumer_def assms)

lemma transmission_step_format:
  assumes "transmission_batcher_step cfg st e = (st', out)" and "list_all in_target_format (b_buffer st)"
    and "list_all in_target_format (received e)"
  shows "list_all in_target_format (b_buffer st') \<and> list_all (list_all in_target_format) out"
  using assms by (cases e) (auto simp: Let_def split: if_splits)

lemma transmission_inv:
  assumes "gateway_inv X ttl g"
  shows "gateway_inv X ttl (transmission_task now after g)"
    and "gateway_inv X ttl (transmission_timer now after g)"
    and "gateway_inv X ttl (transmission_consumer X g)"
proof -
  have up: "uplink_ok g" using assms by (simp add: gateway_inv_def)
  show "gateway_inv X ttl (transmission_timer now after g)"
  proof -
    obtain st out where s: "transmission_batcher_step transmission_batcher_config (gw_transmission g) (Timer now after) = (st, out)"
      by fastforce
    from transmission_step_format [OF this] up assms show ?thesis unfolding transmission_timer_def s
      by (simp add: gateway_inv_def components_ok_def uplink_ok_def)
  qed
  show "gateway_inv X ttl (transmission_task now after g)"
  proof (cases "gw_transmission_in g")
    case (Cons m rest)
    obtain st out where s: "transmission_batcher_step transmission_batcher_config (gw_transmission g) (Recv m now after) = (st, out)"
      by fastforce
    from transmission_step_format [OF this] up assms show ?thesis unfolding transmission_task_def Cons list.case s
      by (simp add: gateway_inv_def components_ok_def uplink_ok_def Cons)
  qed (simp add: transmission_task_def assms)
  show "gateway_inv X ttl (transmission_consumer X g)"
  proof (cases "gw_transmission_rx g")
    case (Cons b rest)
    have "gateway_inv X ttl (g\<lparr>gw_transmission_rx := rest\<rparr>)" "list_all in_target_format b"
      using assms up Cons by (simp_all add: gateway_inv_def components_ok_def uplink_ok_def)
    then show ?thesis by (simp add: transmission_consumer_def Cons send_batch_inv)
  qed (simp add: transmission_consumer_def assms)
qed

lemma step_inv:
  assumes "gateway_step X g g'" and "gateway_inv X ttl g"
  shows "gateway_inv X ttl g'"
  using assms
proof (induction rule: gateway_step.induct)
  case (send m g g')
  then show ?case using send_inv [of ttl g m] by auto
next
  case (batcher g now after)
  then show ?case by (auto simp: batcher_task_def Let_def split: list.splits prod.splits)
next
  case (batcher_wake g now after)
  then show ?case by (auto simp: batcher_timer_def Let_def split: prod.splits)
next
  case (incoming g g')
  then show ?case using batch_consumer_inv [of ttl g] by auto
next
  case (worker k g g')
  then show ?case using worker_inv [of ttl g k] by auto
next
  case (spread g g')
  then show ?case using drain_spread_inv [of ttl g] by auto
qed (simp_all add: transmission_inv)

lemma take_receivers_steps:
  "take_receivers is sh = (ks, sh') \<Longrightarrow> (shard_step C)\<^sup>*\<^sup>* sh sh'"
proof (induction "is" arbitrary: sh ks)
  case (Cons i "is")
  obtain k sh1 where g: "get_receiver sh (word_of_nat i) = (k, sh1)" by fastforce
  then have "shard_step C sh sh1" by (rule shard_step.take)
  moreover obtain ks' where "take_receivers is sh1 = (ks', sh')" using Cons.prems g by (cases k) (auto split: prod.splits)
  ultimately show ?case using Cons.IH by (blast intro: converse_rtranclp_into_rtranclp)
qed simp

lemma new_inv:
  assumes "gateway_new X bsz ttl creds tel rd http = Some g"
  shows "gateway_inv X ttl g"
proof -
  obtain ks sh where sh: "take_receivers [Suc 0..<8] (shard_manager_new (go_chan X) (r_inst (rd 0)) 8 1000) = (ks, sh)"
    by fastforce
  from assms obtain pools where pools: "translator_pool_new (go_pool_chan X) 8 = Some pools"
    by (cases "translator_pool_new (go_pool_chan X) 8") (simp_all add: gateway_new_def split: if_splits)
  have "\<exists>ms. bitemporal_new 10000 = foldl bitemporal_store_one (bitemporal_new 10000) ms"
    by (rule exI [of _ "[]"]) simp
  with assms take_receivers_steps [OF sh, of "go_chan X"] show ?thesis
    unfolding gateway_inv_def components_ok_def uplink_ok_def
    by (auto simp: gateway_new_def pools sh Let_def cache_new_def batcher_start_def split: if_splits)
qed

lemma reachable_inv:
  assumes "gateway_new X bsz ttl creds tel rd http = Some g0" and "(gateway_step X)\<^sup>*\<^sup>* g0 g"
  shows "gateway_inv X ttl g"
  using assms(2) by (induction rule: rtranclp_induct) (auto intro: new_inv [OF assms(1)] step_inv)

end

interpretation list_gateway: gateway_env list_ops snd fst snd fst
  by (rule gateway_env.intro)
    (simp_all add: list_ops_def ref_ext_laws gateway_env_axioms_def list_shards.shard_channels_axioms
      list_translators.translator_channel_axioms)

lemma gateway_envI:
  assumes "bounded_channel (go_chan X) contq capq" and "bounded_channel (go_pool_chan X) contt capt"
    and "hex_decode_law (go_ext X)" and "nom_law (go_ext X)"
  shows "gateway_env X contq capq contt capt"
  using assms by (intro gateway_env.intro shard_channels.intro translator_channel.intro gateway_env_axioms.intro)

text \<open>The hypotheses on the environment hold for the reference instance, whose gateway exists.\<close>

lemma list_ops_simps [simp]:
  "go_ext list_ops = ref_ext" "go_float list_ops = exact_ops" "go_chan list_ops = list_chan" "go_pool_chan list_ops = list_chan"
  by (simp_all add: list_ops_def)

lemma list_ops_laws:
  "bounded_channel (go_chan list_ops) snd fst" "bounded_channel (go_pool_chan list_ops) snd fst"
  "hex_decode_law (go_ext list_ops)" "nom_law (go_ext list_ops)"
  by (simp_all add: lc.bounded_channel_axioms ref_ext_laws)

lemma list_gateway_exists:
  "\<exists>g. gateway_new list_ops 1000 ttl creds tel rd http = Some g \<and> gw_credentials g = creds \<and> gw_telemetry g = tel \<and>
     gw_breaker g = circuit_breaker_new 5 30000000000 \<and> gw_sent g = [] \<and> gw_reads g = 1 \<and> gw_readings g = rd \<and>
     gw_transmission_in g = []"
proof -
  obtain pools :: "(nat \<times> translator list) translator_pool" where "translator_pool_new list_chan 8 = Some pools"
    using list_translators.pool_new_inv [of 8] by blast
  then show ?thesis by (auto simp: gateway_new_def Let_def split: prod.splits)
qed

lemma ping_spec:
  "\<exists>pings. send_telemetry_ping X m g = g\<lparr>gw_sent := gw_sent g @ pings\<rparr> \<and> list_all (\<lambda>r. request_items r = []) pings"
proof (cases "tc_endpoint (gw_telemetry g)")
  case None
  then show ?thesis by (intro exI [of _ "[]"]) (simp add: send_telemetry_ping_def)
next
  case (Some ep)
  let ?snap = "metrics_snapshot_of (go_float X) (gw_metrics g)"
  from Some show ?thesis
    by (intro exI [of _ "[PostPing ep (protocol_name (m_protocol m)) (m_t_event m) (m_t_system m)
          (mx_cache_hit_rate ?snap) (mx_avg_latency_ms ?snap) (mx_errors ?snap)]"])
      (simp add: send_telemetry_ping_def Let_def http_post_def)
qed

text \<open>When the circuit breaker lets a call through at the time \<open>t\<close>.\<close>

definition breaker_admits :: "u64 \<Rightarrow> circuit_breaker \<Rightarrow> bool" where
  "breaker_admits t cb \<longleftrightarrow>
     (case cb_state cb of
        Closed \<Rightarrow> True
      | Open \<Rightarrow> from_millis (t - cb_last_failure_time cb) > cb_recovery_timeout cb
      | HalfOpen \<Rightarrow> cb_half_open_calls cb = 0)"

lemma breaker_post_posts:
  "\<exists>cb n r. breaker_post req g = (r, g\<lparr>gw_breaker := cb, gw_reads := n,
     gw_sent := gw_sent g @ (if breaker_admits (r_uptime (gw_readings g (gw_reads g))) (gw_breaker g) then [req] else [])\<rparr>)"
proof -
  let ?t = "r_uptime (gw_readings g (gw_reads g))"
  obtain s cb where b: "call_begin ?t (gw_breaker g) = (s, cb)" by fastforce
  then have s: "s \<noteq> None \<longleftrightarrow> breaker_admits ?t (gw_breaker g)"
    by (auto simp: call_begin_cases breaker_admits_def word_gt_0 split: circuit_state.splits if_splits)
  show ?thesis
  proof (cases s)
    case None
    then have "breaker_post req g = (Inl OpenErr, g\<lparr>gw_reads := gw_reads g + 1, gw_breaker := cb\<rparr>)"
      by (simp add: breaker_post_def read_clock_def b)
    with None s show ?thesis
      by (cases g) (auto intro!: exI [of _ cb] exI [of _ "gw_reads g + 1"] exI [of _ "Inl OpenErr"])
  next
    case (Some x)
    obtain r cb2 where "call_end (r_uptime (gw_readings g (gw_reads g + 1))) x (gw_http g (length (gw_sent g))) cb = (r, cb2)" by fastforce
    then have "breaker_post req g = (r, g\<lparr>gw_breaker := cb2, gw_reads := gw_reads g + 2, gw_sent := gw_sent g @ [req]\<rparr>)"
      using Some by (simp add: breaker_post_def read_clock_def http_post_def b)
    with Some s show ?thesis by auto
  qed
qed

lemma open_breaker_post:
  assumes "cb_state (gw_breaker g) = Open"
    and "from_millis (r_uptime (gw_readings g (gw_reads g)) - cb_last_failure_time (gw_breaker g)) \<le> cb_recovery_timeout (gw_breaker g)"
  shows "breaker_post req g = (Inl OpenErr, g\<lparr>gw_reads := gw_reads g + 1\<rparr>)"
  using assms by (simp add: breaker_post_def read_clock_def call_begin_cases)

lemma tally_result_eq: "\<exists>c. tally_result r g = g\<lparr>gw_metrics := c\<rparr>"
  by (cases r) (auto simp: tally_result_def tally_def split: circuit_breaker_error.splits)

text \<open>What a single message posts: one request with its item, when there are credentials and the breaker admits it.\<close>

definition message_request :: "ext \<Rightarrow> asts_credentials \<Rightarrow> message \<Rightarrow> 'f request" where
  "message_request e c m = PostMessage (''https://api.astspaceapi.com/v1/accounts/'' @ ac_account_id c @ ''/messages'')
     (ac_account_id c) (ac_api_key c) (uplink_item_of e m)"

lemma send_to_asts_request:
  assumes "gw_credentials g = Some c" and "breaker_post (message_request (go_ext X) c m) g = (r, g1)" and "h = tally_result r g1"
  shows "send_to_asts X m g = (if tc_enabled (gw_telemetry h) then send_telemetry_ping X m h else h)"
  using assms(2) unfolding message_request_def by (simp only: send_to_asts_def assms(1,3) option.case Let_def prod.case)

lemma send_to_asts_posts:
  "\<exists>cb n me pings. list_all (\<lambda>r. request_items r = []) pings \<and>
    send_to_asts X m g = g\<lparr>gw_breaker := cb, gw_reads := n, gw_metrics := me, gw_sent := gw_sent g @
      (case gw_credentials g of
         Some c \<Rightarrow> if breaker_admits (r_uptime (gw_readings g (gw_reads g))) (gw_breaker g) then [message_request (go_ext X) c m] else []
       | None \<Rightarrow> []) @ pings\<rparr>" (is "\<exists>cb n me pings. _ \<and> _ = g\<lparr>gw_breaker := cb, gw_reads := n, gw_metrics := me, gw_sent := gw_sent g @ ?posted @ pings\<rparr>")
proof -
  obtain h cb n me where h: "send_to_asts X m g = (if tc_enabled (gw_telemetry h) then send_telemetry_ping X m h else h)"
    "h = g\<lparr>gw_breaker := cb, gw_reads := n, gw_metrics := me, gw_sent := gw_sent g @ ?posted\<rparr>"
  proof (cases "gw_credentials g")
    case None
    show thesis
      by (rule that [where h = g and cb = "gw_breaker g" and n = "gw_reads g" and me = "gw_metrics g"]) (simp_all add: send_to_asts_def None)
  next
    case (Some c)
    from breaker_post_posts [of "message_request (go_ext X) c m" g] obtain cb n r where
      b: "breaker_post (message_request (go_ext X) c m) g = (r, g\<lparr>gw_breaker := cb, gw_reads := n, gw_sent := gw_sent g @ ?posted\<rparr>)"
      by (auto simp: Some)
    from tally_result_eq [of r] obtain me where
      me: "tally_result r (g\<lparr>gw_breaker := cb, gw_reads := n, gw_sent := gw_sent g @ ?posted\<rparr>) =
        g\<lparr>gw_breaker := cb, gw_reads := n, gw_sent := gw_sent g @ ?posted\<rparr>\<lparr>gw_metrics := me\<rparr>" by blast
    show thesis
      by (rule that [where cb = cb and n = n and me = me], rule send_to_asts_request [OF Some b]) (simp_all add: me)
  qed
  from ping_spec [of X m h] obtain pings where
    p: "send_telemetry_ping X m h = h\<lparr>gw_sent := gw_sent h @ pings\<rparr>" "list_all (\<lambda>r. request_items r = []) pings" by blast
  show ?thesis
  proof (cases "tc_enabled (gw_telemetry h)")
    case True
    then have "send_to_asts X m g = g\<lparr>gw_breaker := cb, gw_reads := n, gw_metrics := me, gw_sent := gw_sent g @ ?posted @ pings\<rparr>"
      using h(1) p(1) by (simp add: h(2))
    with p(2) show ?thesis by blast
  next
    case False
    then have "send_to_asts X m g = g\<lparr>gw_breaker := cb, gw_reads := n, gw_metrics := me, gw_sent := gw_sent g @ ?posted @ []\<rparr>"
      using h(1) by (simp add: h(2))
    then show ?thesis by (intro exI [of _ cb] exI [of _ n] exI [of _ me] exI [of _ "[]"]) simp
  qed
qed

text \<open>How the incoming path moves the counters and the bi-temporal store.\<close>

named_theorems accounting \<open>how operations move the counters\<close>

lemma record_protocol_accounting [accounting]:
  "me_cache_hits (record_protocol c p) = me_cache_hits c" "me_cache_misses (record_protocol c p) = me_cache_misses c"
  "me_spread_sharded_messages (record_protocol c p) = me_spread_sharded_messages c"
  by (cases p; simp)+

lemma counts_update [accounting]:
  "lookups (g\<lparr>gw_reads := n\<rparr>) = lookups g" "spread_count (g\<lparr>gw_reads := n\<rparr>) = spread_count g"
  "lookups (g\<lparr>gw_shards := sh\<rparr>) = lookups g" "spread_count (g\<lparr>gw_shards := sh\<rparr>) = spread_count g"
  "lookups (tally (\<lambda>c. record_protocol c p) g) = lookups g" "spread_count (tally (\<lambda>c. record_protocol c p) g) = spread_count g"
  "lookups (tally record_error g) = lookups g" "spread_count (tally record_error g) = spread_count g"
  "lookups (tally record_cache_hit g) = lookups g + 1" "spread_count (tally record_cache_hit g) = spread_count g"
  "lookups (tally record_cache_miss g) = lookups g + 1" "spread_count (tally record_cache_miss g) = spread_count g"
  "lookups (tally record_spread_shard g) = lookups g" "spread_count (tally record_spread_shard g) = spread_count g + 1"
  "gw_bitemporal (tally f g) = gw_bitemporal g"
  by (simp_all add: lookups_def spread_count_def tally_def record_protocol_accounting record_error_def
      record_cache_hit_def record_cache_miss_def record_spread_shard_def)

lemma breaker_post_accounting [accounting]:
  assumes "breaker_post req g = (r, g')"
  shows "lookups g' = lookups g" "spread_count g' = spread_count g" "gw_bitemporal g' = gw_bitemporal g"
proof -
  from breaker_post_cases [OF assms] obtain cb n reqs where
    "g' = g\<lparr>gw_breaker := cb, gw_reads := n, gw_sent := gw_sent g @ reqs\<rparr>" by blast
  then show "lookups g' = lookups g" "spread_count g' = spread_count g" "gw_bitemporal g' = gw_bitemporal g"
    by (simp_all add: lookups_def spread_count_def)
qed

lemma tally_result_accounting [accounting]:
  "lookups (tally_result r g) = lookups g" "spread_count (tally_result r g) = spread_count g"
  "gw_bitemporal (tally_result r g) = gw_bitemporal g"
  by (auto simp: tally_result_def accounting simp del: record_protocol.simps split: sum.splits circuit_breaker_error.splits)

lemma ping_accounting [accounting]:
  "lookups (send_telemetry_ping X m g) = lookups g" "spread_count (send_telemetry_ping X m g) = spread_count g"
  "gw_bitemporal (send_telemetry_ping X m g) = gw_bitemporal g"
  by (simp_all add: send_telemetry_ping_def Let_def http_post_def lookups_def spread_count_def split: option.splits)

lemma send_to_asts_accounting [accounting]:
  "lookups (send_to_asts X m g) = lookups g" "spread_count (send_to_asts X m g) = spread_count g"
  "gw_bitemporal (send_to_asts X m g) = gw_bitemporal g"
  by (auto simp: send_to_asts_def Let_def accounting split: option.splits prod.splits dest: breaker_post_accounting)

lemma push_spread_msgs_accounting:
  "lookups (push_spread_msgs X ms g) = lookups g \<and>
   spread_count (push_spread_msgs X ms g) = spread_count g + word_of_nat (length ms) \<and>
   gw_bitemporal (push_spread_msgs X ms g) = gw_bitemporal g"
  by (induction ms arbitrary: g) (simp_all add: Let_def accounting)

lemma route_normal_accounting:
  "route_normal X l g = ret g' \<Longrightarrow> lookups g' = lookups g + word_of_nat (length l) \<and>
   spread_count g' = spread_count g \<and> gw_bitemporal g' = gw_bitemporal g"
proof (induction X l g rule: route_normal.induct)
  case (2 X m t rest g)
  then show ?case by (simp add: accounting)
next
  case (3 X m rest g)
  obtain r sh where p: "shard_manager_push (go_chan X) (gw_shards (tally record_cache_miss g)) m = ret (r, sh)"
    using "3.prems" by (cases "shard_manager_push (go_chan X) (gw_shards (tally record_cache_miss g)) m") auto
  define h where "h = (case r of Inl _ \<Rightarrow> tally record_error ((tally record_cache_miss g)\<lparr>gw_shards := sh\<rparr>)
    | Inr _ \<Rightarrow> (tally record_cache_miss g)\<lparr>gw_shards := sh\<rparr>)"
  have "route_normal X rest h = ret g'" using "3.prems" by (simp add: p h_def Let_def)
  with "3.IH" [OF refl p refl refl refl] have "lookups g' = lookups h + word_of_nat (length rest) \<and>
      spread_count g' = spread_count h \<and> gw_bitemporal g' = gw_bitemporal h" by (simp add: h_def)
  then show ?case by (auto simp: h_def accounting split: sum.splits)
qed simp

lemma reconcile_batch_accounting:
  "reconcile_batch ms g = (ms', g') \<Longrightarrow> lookups g' = lookups g \<and> spread_count g' = spread_count g \<and>
   gw_bitemporal g' = gw_bitemporal g"
proof (induction ms arbitrary: g ms')
  case (Cons m ms)
  obtain m1 g1 where r: "reconcile_message m g = (m1, g1)" by fastforce
  then have g1: "g1 = g\<lparr>gw_reads := gw_reads g + 1\<rparr>"
    by (auto simp: reconcile_message_def read_clock_def split: option.splits)
  obtain ms1 where "reconcile_batch ms (tally (\<lambda>c. record_protocol c (m_protocol m1)) g1) = (ms1, g')"
    using Cons.prems by (auto simp: r split: prod.splits)
  from Cons.IH [OF this] show ?case by (simp add: accounting g1 del: record_protocol.simps)
qed simp

text \<open>The capacities of the cache and of the snapshot store never change.\<close>

lemma cache_capacity: "cache_step\<^sup>*\<^sup>* c c' \<Longrightarrow> c_max_entries c' = c_max_entries c"
proof (induction rule: rtranclp_induct)
  case (step y z)
  have "c_max_entries (foldl (\<lambda>c (now, p, d, m). cache_set now c p d m) c batch) = c_max_entries c" for c batch
    by (induction batch arbitrary: c) (auto split: prod.splits)
  with step show ?case
    by (auto elim!: cache_step.cases simp: cache_set_batch_foldl invalidate_protocol_time_range_def
        invalidate_protocol_def cache_retain_def cache_clear_def)
qed simp

lemma snapshot_capacity: "snapshot_step\<^sup>*\<^sup>* s s' \<Longrightarrow> sm_max_snapshots s' = sm_max_snapshots s"
proof (induction rule: rtranclp_induct)
  case (step y z)
  from step.hyps(2) have "sm_max_snapshots z = sm_max_snapshots y"
    by (auto elim!: snapshot_step.cases simp: create_snapshot_def drain_for_uplink_def delete_snapshot_def clear_expired_def Let_def)
  with step.IH show ?case by simp
qed simp

section \<open>Properties\<close>

text \<open>
  C1. Panic freedom of the whole gateway: in every state it can reach, with any clocks and
  any HTTP answers, every handler and every task round returns, whatever message is sent.
\<close>

theorem gateway_never_panics:
  assumes "bounded_channel (go_chan X) contq capq" and "bounded_channel (go_pool_chan X) contt capt"
    and "hex_decode_law (go_ext X)" and "nom_law (go_ext X)"
    and "gateway_new X bsz ttl creds tel rd http = Some g0" and "(gateway_step X)\<^sup>*\<^sup>* g0 g"
  shows "gateway_send X m g \<noteq> panic \<and> batch_consumer X g \<noteq> panic \<and> worker_task X k g \<noteq> panic \<and>
    drain_spread_shard_once X g \<noteq> panic"
proof -
  note env = gateway_envI [OF assms(1-4)]
  have inv: "gateway_inv X ttl g" by (rule gateway_env.reachable_inv [OF env assms(5,6)])
  show ?thesis
    using gateway_env.send_inv [OF env inv, of m] gateway_env.batch_consumer_inv [OF env inv]
      gateway_env.worker_inv [OF env inv, of k] gateway_env.drain_spread_inv [OF env inv] by auto
qed

theorem gateway_never_panics_witness:
  "\<exists>g. gateway_new list_ops 1000 60 None \<lparr>tc_enabled = False, tc_endpoint = None, tc_ping_interval_ms = 5000\<rparr>
      (\<lambda>n. \<lparr>r_wall = word_of_nat n, r_inst = n, r_uptime = 0\<rparr>) (\<lambda>n. Inr 200) = Some g \<and>
    gateway_send list_ops \<lparr>m_protocol = VSAT, m_data = [], m_priority = Emergency, m_timestamp = 0, m_t_event = 0, m_t_system = 0\<rparr> g \<noteq> panic"
  using list_gateway_exists [of 60 None "\<lparr>tc_enabled = False, tc_endpoint = None, tc_ping_interval_ms = 5000\<rparr>"
      "\<lambda>n. \<lparr>r_wall = word_of_nat n, r_inst = n, r_uptime = 0\<rparr>" "\<lambda>n. Inr 200"]
    gateway_never_panics [OF list_ops_laws _ rtranclp.rtrancl_refl] by blast

text \<open>
  C3. Only translated messages leave the gateway: every item of every request posted to the
  uplink in a reachable state carries the target protocol, and so does everything cached or
  queued for transmission.
\<close>

theorem only_translated_leaves:
  assumes "bounded_channel (go_chan X) contq capq" and "bounded_channel (go_pool_chan X) contt capt"
    and "hex_decode_law (go_ext X)" and "nom_law (go_ext X)"
    and "gateway_new X bsz ttl creds tel rd http = Some g0" and "(gateway_step X)\<^sup>*\<^sup>* g0 g"
  shows "(\<forall>req\<in>set (gw_sent g). \<forall>i\<in>set (request_items req). ui_protocol i = ''ASTSpaceMobile'') \<and>
    (\<forall>m\<in>set (gw_transmission_in g) \<union> set (b_buffer (gw_transmission g)) \<union> \<Union> (set ` set (gw_transmission_rx g)).
       m_protocol m = ASTSpaceMobile) \<and>
    (\<forall>(k, e)\<in>set (c_entries (gw_cache g)). m_protocol (ce_message e) = ASTSpaceMobile)"
proof -
  note env = gateway_envI [OF assms(1-4)]
  have "uplink_ok g" using gateway_env.reachable_inv [OF env assms(5,6)] by (simp add: gateway_inv_def)
  then show ?thesis
    by (auto simp: uplink_ok_def request_ok_def in_target_format_def list_all_iff)
qed

theorem only_translated_leaves_witness:
  "\<exists>g. gateway_new list_ops 1000 60 None \<lparr>tc_enabled = False, tc_endpoint = None, tc_ping_interval_ms = 5000\<rparr>
      (\<lambda>n. \<lparr>r_wall = word_of_nat n, r_inst = n, r_uptime = 0\<rparr>) (\<lambda>n. Inr 200) = Some g \<and>
    (\<forall>req\<in>set (gw_sent g). \<forall>i\<in>set (request_items req). ui_protocol i = ''ASTSpaceMobile'')"
  using list_gateway_exists [of 60 None "\<lparr>tc_enabled = False, tc_endpoint = None, tc_ping_interval_ms = 5000\<rparr>"
      "\<lambda>n. \<lparr>r_wall = word_of_nat n, r_inst = n, r_uptime = 0\<rparr>" "\<lambda>n. Inr 200"]
    only_translated_leaves [OF list_ops_laws _ rtranclp.rtrancl_refl] by blast

text \<open>
  C2. The bounds and invariants of all components hold together in every reachable state of
  the gateway: the cache, the snapshots and the bi-temporal store stay within their
  capacities and consistent, every shard queue within its size, the half-open counter of the
  breaker is zero between uplinks, and no worker has kept a translator, so that every
  pooled protocol can be translated in parallel.
\<close>

theorem gateway_components_ok:
  assumes "bounded_channel (go_chan X) contq capq" and "bounded_channel (go_pool_chan X) contt capt"
    and "hex_decode_law (go_ext X)" and "nom_law (go_ext X)"
    and "gateway_new X bsz ttl creds tel rd http = Some g0" and "(gateway_step X)\<^sup>*\<^sup>* g0 g"
  shows "cache_inv (gw_cache g) \<and> snapshot_inv (gw_snapshots g) \<and> shard_inv contq capq (gw_shards g) \<and>
    length (c_entries (gw_cache g)) \<le> 1000 \<and> length (sm_map (gw_snapshots g)) \<le> 100 \<and>
    length (bs_messages (gw_bitemporal g)) \<le> 10000 \<and> sg_shard_size (gw_shards g) = 1000 \<and>
    cb_half_open_calls (gw_breaker g) = 0 \<and>
    (\<forall>p\<in>set pooled_protocols. fst (pool_borrow (go_pool_chan X) (gw_translator_pool g) p) \<noteq> None)"
proof -
  note env = gateway_envI [OF assms(1-4)]
  have tc: "translator_channel (go_pool_chan X) contt capt" using assms(2) by (rule translator_channel.intro)
  have sc: "shard_channels (go_chan X) contq capq" using assms(1) by (rule shard_channels.intro)
  have "components_ok X ttl g" using gateway_env.reachable_inv [OF env assms(5,6)] by (simp add: gateway_inv_def)
  then obtain now pools ms where
    sh: "(shard_step (go_chan X))\<^sup>*\<^sup>* (shard_manager_new (go_chan X) now 8 1000) (gw_shards g)" and
    ca: "cache_step\<^sup>*\<^sup>* (cache_new 1000 ttl) (gw_cache g)" and
    sn: "snapshot_step\<^sup>*\<^sup>* (snapshot_manager_new 100 300000) (gw_snapshots g)" and
    po: "translator_pool_new (go_pool_chan X) 8 = Some pools"
        "(pool_step (go_pool_chan X))\<^sup>*\<^sup>* (pools, \<lambda>_. 0) (gw_translator_pool g, \<lambda>_. 0)" and
    br: "breaker_step\<^sup>*\<^sup>* (circuit_breaker_new 5 30000000000, {#}) (gw_breaker g, {#})" and
    bi: "gw_bitemporal g = foldl bitemporal_store_one (bitemporal_new 10000) ms"
    unfolding components_ok_def by blast
  have "\<forall>p\<in>set pooled_protocols. fst (pool_borrow (go_pool_chan X) (gw_translator_pool g) p) \<noteq> None"
    using translator_channel.borrow_succeeds_iff [OF tc translator_channel.pool_reachable_inv [OF tc po]] by simp
  moreover have "shard_inv contq capq (gw_shards g)" by (rule shard_channels.reachable_inv [OF sc sh])
  moreover have "sg_shard_size (gw_shards g) = 1000" using shard_step_frames [OF sh] by simp
  moreover have "cb_half_open_calls (gw_breaker g) = 0" using breaker_reachable_inv [OF br] by simp
  moreover have "length (bs_messages (gw_bitemporal g)) \<le> 10000"
    using bitemporal_fifo.fold_items [of "bitemporal_new 10000" ms] by (simp add: bi bitemporal_new_def)
  moreover have "cache_inv (gw_cache g)" "length (c_entries (gw_cache g)) \<le> 1000"
    using cache_reachable_inv [OF ca] cache_capacity [OF ca] by (auto simp: cache_inv_def cache_new_def)
  moreover have "snapshot_inv (gw_snapshots g)" "length (sm_map (gw_snapshots g)) \<le> 100"
    using snapshot_reachable_inv [OF sn] snapshot_capacity [OF sn] by (auto simp: snapshot_inv_def snapshot_manager_new_def)
  ultimately show ?thesis by blast
qed

theorem gateway_components_ok_witness:
  "\<exists>g. gateway_new list_ops 1000 60 None \<lparr>tc_enabled = False, tc_endpoint = None, tc_ping_interval_ms = 5000\<rparr>
      (\<lambda>n. \<lparr>r_wall = word_of_nat n, r_inst = n, r_uptime = 0\<rparr>) (\<lambda>n. Inr 200) = Some g \<and>
    fst (pool_borrow (go_pool_chan list_ops) (gw_translator_pool g) Samsara) \<noteq> None"
proof -
  obtain g :: "(nat \<times> message list, nat \<times> translator list, rat) gateway" where
    g: "gateway_new list_ops 1000 60 None \<lparr>tc_enabled = False, tc_endpoint = None, tc_ping_interval_ms = 5000\<rparr>
      (\<lambda>n. \<lparr>r_wall = word_of_nat n, r_inst = n, r_uptime = 0\<rparr>) (\<lambda>n. Inr 200) = Some g"
    using list_gateway_exists by blast
  from gateway_components_ok [OF list_ops_laws g rtranclp.rtrancl_refl]
  have "fst (pool_borrow (go_pool_chan list_ops) (gw_translator_pool g) Samsara) \<noteq> None"
    by (auto simp: pooled_protocols_def)
  with g show ?thesis by blast
qed

text \<open>
  C5. A shard worker's batch: in a reachable state the translation of every translatable
  message of the batch is appended to the transmission queue, once and in order, with the
  original's timestamps and priority; the others are counted as errors, and nothing else is
  sent on.
\<close>

theorem translated_batch_exact:
  assumes "bounded_channel (go_chan X) contq capq" and "bounded_channel (go_pool_chan X) contt capt"
    and "hex_decode_law (go_ext X)" and "nom_law (go_ext X)"
    and "gateway_new X bsz ttl creds tel rd http = Some g0" and "(gateway_step X)\<^sup>*\<^sup>* g0 g"
  shows "\<exists>g' pairs. process_translated_batch X ms g = ret g' \<and>
    gw_transmission_in g' = gw_transmission_in g @ map snd pairs \<and>
    map fst pairs = filter (translatable (go_ext X)) ms \<and>
    (\<forall>(m, t)\<in>set pairs. \<exists>now. translated (go_ext X) now m = Some t) \<and>
    me_errors (gw_metrics g') = me_errors (gw_metrics g) + word_of_nat (length (filter (Not \<circ> translatable (go_ext X)) ms))"
proof (cases "ms = []")
  case True
  then show ?thesis by (simp add: process_translated_batch_def)
next
  case False
  note env = gateway_envI [OF assms(1-4)]
  let ?ps = "translated_pairs (go_ext X) (gw_readings g) (gw_reads g + 1) ms"
  from gateway_env.translated_batch_spec [OF env gateway_env.reachable_inv [OF env assms(5,6)] False] obtain g' where
    "process_translated_batch X ms g = ret g'" "gw_transmission_in g' = gw_transmission_in g @ map snd ?ps"
    "me_errors (gw_metrics g') = me_errors (record_errors (length (filter (Not \<circ> translatable (go_ext X)) ms)) (gw_metrics g))"
    by blast
  moreover have "map fst ?ps = filter (translatable (go_ext X)) ms" by (rule translated_pairs_originals)
  moreover have "\<forall>(m, t)\<in>set ?ps. \<exists>now. translated (go_ext X) now m = Some t" by (rule translated_pairs_sound)
  ultimately show ?thesis by (auto simp: record_errors_count)
qed

theorem translated_batch_exact_witness:
  "\<exists>g g' m t. m = \<lparr>m_protocol = NIDD, m_data = [1, 2], m_priority = Operational, m_timestamp = 0, m_t_event = 7, m_t_system = 9\<rparr> \<and>
     gateway_new list_ops 1000 60 None \<lparr>tc_enabled = False, tc_endpoint = None, tc_ping_interval_ms = 5000\<rparr>
       (\<lambda>n. \<lparr>r_wall = word_of_nat n, r_inst = n, r_uptime = 0\<rparr>) (\<lambda>n. Inr 200) = Some g \<and>
     process_translated_batch list_ops [m] g = ret g' \<and> gw_transmission_in g' = [t] \<and> m_data t = [1, 2] \<and> m_t_event t = 7"
proof -
  let ?m = "\<lparr>m_protocol = NIDD, m_data = [1, 2], m_priority = Operational, m_timestamp = 0, m_t_event = 7, m_t_system = 9\<rparr>"
  obtain g :: "(nat \<times> message list, nat \<times> translator list, rat) gateway" where
    g: "gateway_new list_ops 1000 60 None \<lparr>tc_enabled = False, tc_endpoint = None, tc_ping_interval_ms = 5000\<rparr>
      (\<lambda>n. \<lparr>r_wall = word_of_nat n, r_inst = n, r_uptime = 0\<rparr>) (\<lambda>n. Inr 200) = Some g" "gw_transmission_in g = []"
    using list_gateway_exists by blast
  have tr: "translatable ref_ext ?m" by (simp add: translatable_def translated_bytes_def)
  from translated_batch_exact [OF list_ops_laws g(1) rtranclp.rtrancl_refl, of "[?m]"] obtain g' pairs where
    *: "process_translated_batch list_ops [?m] g = ret g'" "gw_transmission_in g' = gw_transmission_in g @ map snd pairs"
      "map fst pairs = filter (translatable (go_ext list_ops)) [?m]"
      "\<forall>(m, t)\<in>set pairs. \<exists>now. translated (go_ext list_ops) now m = Some t" by blast
  from *(3) tr obtain t where p: "pairs = [(?m, t)]" by (cases pairs) auto
  with *(4) obtain now where "translated ref_ext now ?m = Some t" by auto
  with p * g show ?thesis by (auto simp: translated_def translated_bytes_def)
qed



text \<open>
  C7. While the circuit breaker is open a transmission batch is lost: no uplink request is
  made, one error is counted, and the messages are not put back into any queue.
\<close>

theorem open_breaker_loses_batch:
  assumes "gw_transmission_rx g = b # rest" and "b \<noteq> []" and "gw_credentials g = Some c"
    and "cb_state (gw_breaker g) = Open"
    and "from_millis (r_uptime (gw_readings g (gw_reads g)) - cb_last_failure_time (gw_breaker g)) \<le> cb_recovery_timeout (gw_breaker g)"
  shows "\<exists>pings. transmission_consumer X g = g\<lparr>gw_transmission_rx := rest, gw_reads := gw_reads g + 1,
      gw_metrics := record_error (record_transmission_batch (gw_metrics g) (word_of_nat (length b))),
      gw_sent := gw_sent g @ pings\<rparr> \<and> list_all (\<lambda>r. request_items r = []) pings"
proof -
  let ?g = "g\<lparr>gw_transmission_rx := rest, gw_metrics := record_transmission_batch (gw_metrics g) (word_of_nat (length b))\<rparr>"
  let ?h = "?g\<lparr>gw_reads := gw_reads g + 1, gw_metrics := record_error (gw_metrics ?g)\<rparr>"
  obtain m ms where b: "b = m # ms" using assms(2) by (cases b) auto
  have post: "breaker_post req ?g = (Inl OpenErr, ?g\<lparr>gw_reads := gw_reads g + 1\<rparr>)" for req
    using open_breaker_post [of ?g req] assms(4,5) by simp
  have eq: "transmission_consumer X g = (if tc_enabled (gw_telemetry g) then send_telemetry_ping X m ?h else ?h)"
    using assms(1,3) post by (simp add: transmission_consumer_def send_batch_to_asts_def b tally_def Let_def tally_result_def)
  show ?thesis
  proof (cases "tc_enabled (gw_telemetry g)")
    case True
    then show ?thesis unfolding eq using ping_spec [of X m ?h] by auto
  next
    case False
    then show ?thesis unfolding eq by (intro exI [of _ "[]"]) simp
  qed
qed

theorem open_breaker_loses_batch_witness:
  "\<exists>g :: (nat \<times> message list, nat \<times> translator list, rat) gateway. gw_transmission_rx g = [[\<lparr>m_protocol = NIDD, m_data = [1, 2], m_priority = Operational, m_timestamp = 0, m_t_event = 7, m_t_system = 9\<rparr>]] \<and>
     gw_transmission_rx (transmission_consumer list_ops g) = [] \<and> gw_transmission_in (transmission_consumer list_ops g) = [] \<and>
     me_errors (gw_metrics (transmission_consumer list_ops g)) = me_errors (gw_metrics g) + 1"
proof -
  let ?c = "\<lparr>ac_account_id = ''acme'', ac_api_key = ''key'', ac_mno_partner_id = None\<rparr>"
  obtain g0 :: "(nat \<times> message list, nat \<times> translator list, rat) gateway" where
    g0: "gw_credentials g0 = Some ?c" "gw_transmission_in g0 = []" "gw_reads g0 = 1"
      "gw_readings g0 = (\<lambda>n. \<lparr>r_wall = word_of_nat n, r_inst = n, r_uptime = 0\<rparr>)" "gw_breaker g0 = circuit_breaker_new 5 30000000000"
    using list_gateway_exists [of 60 "Some ?c" "\<lparr>tc_enabled = False, tc_endpoint = None, tc_ping_interval_ms = 5000\<rparr>" "(\<lambda>n. \<lparr>r_wall = word_of_nat n, r_inst = n, r_uptime = 0\<rparr>)" "\<lambda>n. Inr 200"] by blast
  let ?g = "g0\<lparr>gw_transmission_rx := [[\<lparr>m_protocol = NIDD, m_data = [1, 2], m_priority = Operational, m_timestamp = 0, m_t_event = 7, m_t_system = 9\<rparr>]], gw_breaker := (gw_breaker g0)\<lparr>cb_state := Open\<rparr>\<rparr>"
  have "\<exists>pings. transmission_consumer list_ops ?g = ?g\<lparr>gw_transmission_rx := [], gw_reads := gw_reads ?g + 1,
      gw_metrics := record_error (record_transmission_batch (gw_metrics ?g) (word_of_nat (length [\<lparr>m_protocol = NIDD, m_data = [1, 2], m_priority = Operational, m_timestamp = 0, m_t_event = 7, m_t_system = 9\<rparr>]))),
      gw_sent := gw_sent ?g @ pings\<rparr> \<and> list_all (\<lambda>r. request_items r = []) pings"
    by (rule open_breaker_loses_batch [where c = ?c]) (simp_all add: g0 circuit_breaker_new_def from_millis_def)
  then obtain pings where "transmission_consumer list_ops ?g = ?g\<lparr>gw_transmission_rx := [], gw_reads := gw_reads ?g + 1,
      gw_metrics := record_error (record_transmission_batch (gw_metrics ?g) (word_of_nat (length [\<lparr>m_protocol = NIDD, m_data = [1, 2], m_priority = Operational, m_timestamp = 0, m_t_event = 7, m_t_system = 9\<rparr>]))),
      gw_sent := gw_sent ?g @ pings\<rparr>" by blast
  then show ?thesis using g0(2) by (intro exI [of _ ?g]) (simp add: record_error_def record_transmission_batch_def)
qed

end
