(* ===== verification/Gateway_Incoming.thy ===== *)
theory Gateway_Incoming
  imports Gateway_Properties "HOL-Library.Sublist"
begin

text \<open>
  The incoming path of the gateway, \<open>process_incoming_batch\<close> of \<open>src/src/gateway.rs\<close>: where
  every message of a batch goes. Bursts fill the spread shard, cache hits are posted to the uplink,
  cache misses are distributed over the regular shards.
\<close>

section \<open>Reference\<close>

text \<open>The results of the cache lookups for the messages that are not part of a burst.\<close>

definition lookup_results :: "nat \<Rightarrow> async_cache \<Rightarrow> message list \<Rightarrow> (message \<times> message option) list" where
  "lookup_results now c ms = zip ms (cache_get_batch now c (map (\<lambda>m. (m_protocol m, m_data m)) ms))"

definition misses :: "(message \<times> message option) list \<Rightarrow> message list" where
  "misses l = map fst (filter (\<lambda>(m, r). r = None) l)"

definition hits :: "(message \<times> message option) list \<Rightarrow> message list" where
  "hits l = concat (map (\<lambda>(m, r). case r of Some t \<Rightarrow> [t] | None \<Rightarrow> []) l)"

text \<open>What a shard receives when message \<open>i\<close> goes to the shard at position \<open>i\<close> of a list, if to any.\<close>

definition sent_to :: "shard_id \<Rightarrow> message list \<Rightarrow> shard_id option list \<Rightarrow> message list" where
  "sent_to j ms ds = map fst (filter (\<lambda>(m, d). d = Some j) (zip ms ds))"

text \<open>When the regular shards may refuse: the backpressure limit is reached, or one of them is full.\<close>

definition shards_busy :: "('q \<Rightarrow> message list) \<Rightarrow> 'q shard_manager \<Rightarrow> bool" where
  "shards_busy cont sh \<longleftrightarrow> sg_backpressure_limit sh \<le> sg_total_regular_messages sh \<or>
     (\<exists>i q. 1 \<le> unat i \<and> unat i < 8 \<and> shard_queue cont sh i = Some q \<and> 1000 \<le> length q)"

text \<open>The uplink takes every call: the credentials are there, the circuit breaker is closed and no request fails.\<close>

definition uplink_up :: "('q, 't, 'f) gateway \<Rightarrow> bool" where
  "uplink_up g \<longleftrightarrow> gw_credentials g \<noteq> None \<and> cb_state (gw_breaker g) = Closed \<and> (\<forall>n. \<exists>status. gw_http g n = Inr status)"

text \<open>Two gateway states that agree on what the incoming path changes, the clock and the burst trackers apart.\<close>

definition same_effects :: "('q, 't, 'f) gateway \<Rightarrow> ('q, 't, 'f) gateway \<Rightarrow> bool" where
  "same_effects g h \<longleftrightarrow> gw_bitemporal g = gw_bitemporal h \<and> gw_shards g = gw_shards h \<and> gw_sent g = gw_sent h \<and> gw_metrics g = gw_metrics h"

lemma lookup_parts [simp]:
  "misses [] = []" "misses ((m, None) # l) = m # misses l" "misses ((m, Some t) # l) = misses l"
  "hits [] = []" "hits ((m, None) # l) = hits l" "hits ((m, Some t) # l) = t # hits l"
  by (simp_all add: misses_def hits_def)

lemma sent_to_simps [simp]:
  "sent_to j [] ds = []" "sent_to j (m # ms) (d # ds) = (if d = Some j then [m] else []) @ sent_to j ms ds"
  by (simp_all add: sent_to_def)

lemma length_lookup_results [simp]: "length (lookup_results now c ms) = length ms"
  by (simp add: lookup_results_def cache_get_batch_def)

section \<open>Frames of the steps\<close>

lemma reconcile_batch_frame:
  "reconcile_batch ms g = (ms', g') \<Longrightarrow> \<exists>n c. g' = g\<lparr>gw_reads := n, gw_metrics := c\<rparr>"
proof (induction ms arbitrary: g ms')
  case Nil
  then show ?case by (auto intro!: exI [of _ "gw_reads g"] exI [of _ "gw_metrics g"])
next
  case (Cons m ms)
  obtain m1 g1 where r: "reconcile_message m g = (m1, g1)" by fastforce
  then have g1: "g1 = g\<lparr>gw_reads := gw_reads g + 1\<rparr>"
    by (auto simp: reconcile_message_def read_clock_def split: option.splits)
  obtain ms1 where "reconcile_batch ms (tally (\<lambda>c. record_protocol c (m_protocol m1)) g1) = (ms1, g')"
    using Cons.prems by (auto simp: r split: prod.splits)
  from Cons.IH [OF this] show ?case by (auto simp: g1 tally_def)
qed

lemma push_spread_msgs_eq:
  "\<exists>c. push_spread_msgs X ms g = g\<lparr>gw_metrics := c, gw_shards := foldl (\<lambda>sh m. snd (push_spread (go_chan X) sh m)) (gw_shards g) ms\<rparr>"
proof (induction ms arbitrary: g)
  case Nil
  show ?case by (auto intro!: exI [of _ "gw_metrics g"])
next
  case (Cons m ms)
  from Cons.IH [of "(tally record_spread_shard g)\<lparr>gw_shards := snd (push_spread (go_chan X) (gw_shards g) m)\<rparr>"]
  show ?case by (auto simp: tally_def Let_def)
qed

lemma request_items_simps:
  "request_items (message_request e c m) = [uplink_item_of e m]"
  "list_all (\<lambda>r. request_items r = []) pings \<Longrightarrow> concat (map request_items pings) = []"
  by (simp add: message_request_def) (auto simp: list_all_iff)

lemma send_to_asts_item:
  "\<exists>cb n me reqs. send_to_asts X t g = g\<lparr>gw_breaker := cb, gw_reads := n, gw_metrics := me, gw_sent := gw_sent g @ reqs\<rparr> \<and>
     subseq (concat (map request_items reqs)) [uplink_item_of (go_ext X) t]"
proof -
  from send_to_asts_posts [of X t g] obtain cb n me pings where
    p: "list_all (\<lambda>r. request_items r = []) pings"
      "send_to_asts X t g = g\<lparr>gw_breaker := cb, gw_reads := n, gw_metrics := me, gw_sent := gw_sent g @
        (case gw_credentials g of
           Some c \<Rightarrow> if breaker_admits (r_uptime (gw_readings g (gw_reads g))) (gw_breaker g) then [message_request (go_ext X) c t] else []
         | None \<Rightarrow> []) @ pings\<rparr>" by blast
  have "subseq (concat (map request_items
        ((case gw_credentials g of
           Some c \<Rightarrow> if breaker_admits (r_uptime (gw_readings g (gw_reads g))) (gw_breaker g) then [message_request (go_ext X) c t] else []
         | None \<Rightarrow> []) @ pings))) [uplink_item_of (go_ext X) t]"
    by (simp add: request_items_simps p(1) split: option.split)
  with p(2) show ?thesis by blast
qed

lemma uplink_up_update [simp]:
  "uplink_up (g\<lparr>gw_reads := n\<rparr>) = uplink_up g" "uplink_up (g\<lparr>gw_shards := sh\<rparr>) = uplink_up g" "uplink_up (tally f g) = uplink_up g"
  by (simp_all add: uplink_up_def tally_def)

lemma send_to_asts_up:
  assumes "uplink_up g"
  shows "uplink_up (send_to_asts X t g) \<and> (\<exists>reqs. gw_sent (send_to_asts X t g) = gw_sent g @ reqs \<and>
    concat (map request_items reqs) = [uplink_item_of (go_ext X) t])"
proof -
  obtain c where c: "gw_credentials g = Some c" using assms by (auto simp: uplink_up_def)
  have closed: "cb_state (gw_breaker g) = Closed" using assms by (simp add: uplink_up_def)
  obtain s where "gw_http g (length (gw_sent g)) = Inr s" using assms unfolding uplink_up_def by blast
  then have b: "breaker_post (message_request (go_ext X) c t) g = (Inr s, g\<lparr>gw_breaker := on_success (gw_breaker g),
      gw_reads := gw_reads g + 2, gw_sent := gw_sent g @ [message_request (go_ext X) c t]\<rparr>)"
    using closed by (simp add: breaker_post_def read_clock_def http_post_def call_begin_cases call_end_def)
  define h where "h = tally_result (Inr s) (g\<lparr>gw_breaker := on_success (gw_breaker g),
      gw_reads := gw_reads g + 2, gw_sent := gw_sent g @ [message_request (go_ext X) c t]\<rparr>)"
  have h: "uplink_up h" "gw_sent h = gw_sent g @ [message_request (go_ext X) c t]"
    using assms by (simp_all add: h_def tally_result_def tally_def uplink_up_def on_success_def)
  from ping_spec [of X t h] obtain pings where
    p: "send_telemetry_ping X t h = h\<lparr>gw_sent := gw_sent h @ pings\<rparr>" "list_all (\<lambda>r. request_items r = []) pings" by blast
  have "uplink_up (send_telemetry_ping X t h)" using h(1) by (simp add: p(1) uplink_up_def)
  then show ?thesis
    using h p send_to_asts_request [OF c b h_def] by (auto simp: request_items_simps)
qed

lemma route_normal_up:
  "route_normal X l g = ret g' \<Longrightarrow> uplink_up g \<Longrightarrow>
   \<exists>reqs. gw_sent g' = gw_sent g @ reqs \<and> concat (map request_items reqs) = map (uplink_item_of (go_ext X)) (hits l)"
proof (induction X l g rule: route_normal.induct)
  case (2 X m t rest g)
  let ?g = "tally record_cache_hit g"
  have "uplink_up ?g" using "2.prems"(2) by simp
  from send_to_asts_up [OF this, of X t] obtain r1 where
    s: "uplink_up (send_to_asts X t ?g)" "gw_sent (send_to_asts X t ?g) = gw_sent ?g @ r1"
      "concat (map request_items r1) = [uplink_item_of (go_ext X) t]" by blast
  from "2.IH" [OF _ s(1)] "2.prems"(1) obtain r2 where
    "gw_sent g' = gw_sent (send_to_asts X t ?g) @ r2" "concat (map request_items r2) = map (uplink_item_of (go_ext X)) (hits rest)" by auto
  with s(2,3) show ?case by (intro exI [of _ "r1 @ r2"]) (simp add: tally_def)
next
  case (3 X m rest g)
  obtain r sh where p: "shard_manager_push (go_chan X) (gw_shards (tally record_cache_miss g)) m = ret (r, sh)"
    using "3.prems" by (cases "shard_manager_push (go_chan X) (gw_shards (tally record_cache_miss g)) m") auto
  define h where "h = (case r of Inl _ \<Rightarrow> tally record_error ((tally record_cache_miss g)\<lparr>gw_shards := sh\<rparr>)
    | Inr _ \<Rightarrow> (tally record_cache_miss g)\<lparr>gw_shards := sh\<rparr>)"
  have h: "uplink_up h" "gw_sent h = gw_sent g" using "3.prems"(2) by (cases r; simp add: h_def tally_def uplink_up_def)+
  have "route_normal X rest h = ret g'" using "3.prems"(1) by (simp add: p h_def Let_def)
  from "3.IH" [OF refl p refl refl refl, folded h_def] this h show ?case by simp
qed simp

section \<open>Distribution\<close>

text \<open>The shards of a gateway in its invariant.\<close>

lemma inv_shards:
  assumes "gateway_inv X ttl g"
  obtains now where "(shard_step (go_chan X))\<^sup>*\<^sup>* (shard_manager_new (go_chan X) now 8 1000) (gw_shards g)"
  using assms by (auto simp: gateway_inv_def components_ok_def)

context gateway_env
begin

lemma spread_queue:
  assumes "gateway_inv X ttl g"
  obtains q where "shard_queue contq (gw_shards g) 8 = Some q"
    "\<And>j. shard_queue contq (foldl (\<lambda>sh m. snd (push_spread (go_chan X) sh m)) (gw_shards g) ms) j =
      (if j = 8 then Some (take 1000 (q @ ms)) else shard_queue contq (gw_shards g) j)"
proof -
  from inv_shards [OF assms] obtain now where st: "(shard_step (go_chan X))\<^sup>*\<^sup>* (shard_manager_new (go_chan X) now 8 1000) (gw_shards g)" .
  from shards_reachable_ok [OF sh.bounded_channel_axioms st, of 8] obtain q where
    q: "shard_queue contq (gw_shards g) 8 = Some q" "length q \<le> 1000" "shard_inv contq capq (gw_shards g)" by auto
  have "sg_spread_shard_id (gw_shards g) = 8" "sg_shard_size (gw_shards g) = 1000" using shard_step_frames [OF st] by simp_all
  with sh.push_spread_all [OF q(3), of q ms] q(1,2) show thesis by (intro that [OF q(1)]) simp
qed

lemma push_busy:
  assumes "(shard_step (go_chan X))\<^sup>*\<^sup>* (shard_manager_new (go_chan X) now 8 1000) sh"
    and "shard_manager_push (go_chan X) sh m = ret (r, sh')"
  shows "shards_busy contq sh \<or> (\<exists>e. r = Inl e) \<Longrightarrow> shards_busy contq sh'"
proof (cases "sg_total_regular_messages sh < backpressure_limit_of 8 1000")
  case True
  have below: "sg_total_regular_messages sh < sg_backpressure_limit sh" using True shard_step_frames [OF assms(1)] by simp
  obtain i ms where p: "unat i = 1 + unat (sg_round_robin sh) mod (8 - 1)" "unat i < 8" "shard_queue contq sh i = Some ms"
      "r = (if length ms < 1000 then Inr i else Inl Full)"
      "\<And>j. shard_queue contq sh' j = (if j = i \<and> length ms < 1000 then Some (ms @ [m]) else shard_queue contq sh j)"
    by (rule manager_push_below [OF sh.bounded_channel_axioms assms(1) _ _ True, of m]) (use assms(2) in auto)
  assume "shards_busy contq sh \<or> (\<exists>e. r = Inl e)"
  then consider k q where "1 \<le> unat k" "unat k < 8" "shard_queue contq sh k = Some q" "1000 \<le> length q" | "\<not> length ms < 1000"
    using p(4) below unfolding shards_busy_def by (auto split: if_splits)
  then show ?thesis
  proof cases
    case 1
    then have "\<exists>q'. shard_queue contq sh' k = Some q' \<and> 1000 \<le> length q'" using p(3,5) by auto
    with 1 show ?thesis unfolding shards_busy_def by blast
  next
    case 2
    then have "shard_queue contq sh' i = Some ms" "1000 \<le> length ms" "1 \<le> unat i" using p(1,3,5) by auto
    with p(2) show ?thesis unfolding shards_busy_def by blast
  qed
next
  case False
  then have "sh' = sh\<lparr>sg_messages_dropped := sg_messages_dropped sh + 1\<rparr>" "sg_backpressure_limit sh \<le> sg_total_regular_messages sh"
    using assms(2) shard_step_frames [OF assms(1)] by (simp_all add: shard_manager_push_def not_less)
  then show ?thesis by (simp add: shards_busy_def)
qed

lemma route_normal_spec:
  assumes "gateway_inv X ttl g" and "list_all (\<lambda>(m, c). \<forall>t. c = Some t \<longrightarrow> in_target_format t) l"
  shows "\<exists>g' ds reqs. route_normal X l g = ret g' \<and> length ds = length (misses l) \<and>
    (None \<in> set ds \<or> shards_busy contq (gw_shards g) \<longrightarrow> shards_busy contq (gw_shards g')) \<and> (\<forall>i. Some i \<in> set ds \<longrightarrow> 1 \<le> unat i \<and> unat i < 8) \<and>
    (\<forall>j. shard_queue contq (gw_shards g') j = map_option (\<lambda>q. q @ sent_to j (misses l) ds) (shard_queue contq (gw_shards g) j)) \<and>
    gw_sent g' = gw_sent g @ reqs \<and> subseq (concat (map request_items reqs)) (map (uplink_item_of (go_ext X)) (hits l))"
  using assms
proof (induction l arbitrary: g)
  case Nil
  then show ?case by (simp add: option.map_ident)
next
  case (Cons x l)
  obtain m c where x: "x = (m, c)" by fastforce
  show ?case
  proof (cases c)
    case (Some t)
    let ?g = "tally record_cache_hit g"
    from send_to_asts_item [of X t ?g] obtain cb n me r1 where
      s: "send_to_asts X t ?g = ?g\<lparr>gw_breaker := cb, gw_reads := n, gw_metrics := me, gw_sent := gw_sent ?g @ r1\<rparr>"
        "subseq (concat (map request_items r1)) [uplink_item_of (go_ext X) t]" by blast
    have "gateway_inv X ttl (send_to_asts X t ?g)" "list_all (\<lambda>(m, c). \<forall>t. c = Some t \<longrightarrow> in_target_format t) l"
      using Cons.prems x Some by (simp_all add: send_to_asts_inv)
    from Cons.IH [OF this] obtain g' ds r2 where
      r: "route_normal X l (send_to_asts X t ?g) = ret g'" "length ds = length (misses l)"
        "None \<in> set ds \<or> shards_busy contq (gw_shards (send_to_asts X t ?g)) \<longrightarrow> shards_busy contq (gw_shards g')" "\<forall>i. Some i \<in> set ds \<longrightarrow> 1 \<le> unat i \<and> unat i < 8"
        "\<forall>j. shard_queue contq (gw_shards g') j =
          map_option (\<lambda>q. q @ sent_to j (misses l) ds) (shard_queue contq (gw_shards (send_to_asts X t ?g)) j)"
        "gw_sent g' = gw_sent (send_to_asts X t ?g) @ r2" "subseq (concat (map request_items r2)) (map (uplink_item_of (go_ext X)) (hits l))"
      by blast
    have "subseq (concat (map request_items (r1 @ r2))) ([uplink_item_of (go_ext X) t] @ map (uplink_item_of (go_ext X)) (hits l))"
      using list_emb_append_mono [OF s(2) r(7)] by simp
    with r s(1) show ?thesis
      by (intro exI [of _ g'] exI [of _ ds] exI [of _ "r1 @ r2"]) (simp add: x Some tally_def)
  next
    case None
    let ?g = "tally record_cache_miss g"
    have inv: "gateway_inv X ttl ?g" using Cons.prems by simp
    from inv_shards [OF inv] obtain now where
      st: "(shard_step (go_chan X))\<^sup>*\<^sup>* (shard_manager_new (go_chan X) now 8 1000) (gw_shards ?g)" .
    obtain r sh where push: "shard_manager_push (go_chan X) (gw_shards ?g) m = ret (r, sh)"
        "\<And>i. r = Inr i \<Longrightarrow> 1 \<le> unat i \<and> unat i < 8"
        "\<And>j. shard_queue contq sh j = map_option (\<lambda>q. q @ (if r = Inr j then [m] else [])) (shard_queue contq (gw_shards ?g) j)"
      by (rule manager_push_queues [OF sh.bounded_channel_axioms st, of m]) auto
    define h where "h = (case r of Inl _ \<Rightarrow> tally record_error (?g\<lparr>gw_shards := sh\<rparr>) | Inr _ \<Rightarrow> ?g\<lparr>gw_shards := sh\<rparr>)"
    have h: "gw_shards h = sh" "gw_sent h = gw_sent g" by (cases r; simp add: h_def tally_def)+
    have "gateway_inv X ttl (?g\<lparr>gw_shards := sh\<rparr>)" by (rule shard_update_inv [OF inv shard_step.push [OF push(1)]])
    then have "gateway_inv X ttl h" by (cases r) (simp_all add: h_def)
    moreover have "list_all (\<lambda>(m, c). \<forall>t. c = Some t \<longrightarrow> in_target_format t) l" using Cons.prems(2) by simp
    ultimately obtain g' ds r2 where
      r: "route_normal X l h = ret g'" "length ds = length (misses l)"
        "None \<in> set ds \<or> shards_busy contq (gw_shards h) \<longrightarrow> shards_busy contq (gw_shards g')" "\<forall>i. Some i \<in> set ds \<longrightarrow> 1 \<le> unat i \<and> unat i < 8"
        "\<forall>j. shard_queue contq (gw_shards g') j = map_option (\<lambda>q. q @ sent_to j (misses l) ds) (shard_queue contq (gw_shards h) j)"
        "gw_sent g' = gw_sent h @ r2" "subseq (concat (map request_items r2)) (map (uplink_item_of (go_ext X)) (hits l))"
      using Cons.IH by blast
    define d where "d = (case r of Inr i \<Rightarrow> Some i | Inl _ \<Rightarrow> None)"
    have d: "(d = Some j) = (r = Inr j)" for j by (cases r) (auto simp: d_def)
    have "route_normal X (x # l) g = ret g'" using r(1) by (simp add: x None push(1) h_def Let_def)
    moreover have "1 \<le> unat i \<and> unat i < 8" if "d = Some i" for i using that push(2) [of i] d [of i] by blast
    then have "\<forall>i. Some i \<in> set (d # ds) \<longrightarrow> 1 \<le> unat i \<and> unat i < 8" using r(4) by auto
    moreover have "None \<in> set (d # ds) \<or> shards_busy contq (gw_shards g) \<longrightarrow> shards_busy contq (gw_shards g')"
      using r(3) push_busy [OF st push(1)] h(1) by (cases r) (auto simp: d_def tally_def)
    moreover have "\<forall>j. shard_queue contq (gw_shards g') j =
        map_option (\<lambda>q. q @ sent_to j (misses (x # l)) (d # ds)) (shard_queue contq (gw_shards g) j)"
      using r(5) h(1) push(3) by (simp add: x None d option.map_comp comp_def tally_def)
    ultimately show ?thesis using r(2,6,7) h(2)
      by (intro exI [of _ g'] exI [of _ "d # ds"] exI [of _ r2]) (simp add: x None)
  qed
qed

text \<open>The incoming path up to the cache lookups, and what is left of it.\<close>

lemma incoming_prefix:
  assumes inv: "gateway_inv X ttl g" and bs: "bs = burst_bits (go_float X) (gw_ewma g) batch"
  shows "\<exists>h q. gateway_inv X ttl h \<and> gw_cache h = gw_cache g \<and> gw_readings h = gw_readings g \<and> gw_sent h = gw_sent g \<and>
    uplink_up h = uplink_up g \<and> gw_bitemporal h = store_batch (gw_bitemporal g) batch \<and> lookups h = lookups g \<and>
    spread_count h = spread_count g + word_of_nat (length (spread_part batch bs)) \<and> shard_queue contq (gw_shards g) 8 = Some q \<and>
    (\<forall>j. shard_queue contq (gw_shards h) j = (if j = 8 then Some (take 1000 (q @ spread_part batch bs)) else shard_queue contq (gw_shards g) j)) \<and>
    (\<forall>g'. route_normal X (lookup_results (r_inst (gw_readings h (gw_reads h))) (gw_cache h) (normal_part batch bs))
        (h\<lparr>gw_reads := gw_reads h + 1\<rparr>) = ret g' \<longrightarrow> (\<exists>g''. process_incoming_batch X batch g = ret g'' \<and> same_effects g'' g'))"
proof -
  from reconcile_batch_eq [OF inv, of batch] obtain g1 where g1: "reconcile_batch batch g = (batch, g1)" "gateway_inv X ttl g1" by blast
  from reconcile_batch_frame [OF g1(1)] obtain n1 c1 where g1': "g1 = g\<lparr>gw_reads := n1, gw_metrics := c1\<rparr>" by blast
  let ?g = "g1\<lparr>gw_bitemporal := store_batch (gw_bitemporal g1) batch\<rparr>"
  have inv1: "gateway_inv X ttl ?g" by (rule bitemporal_update_inv(1) [OF g1(2)])
  have "bs = burst_bits (go_float X) (gw_ewma ?g) batch" using bs by (simp add: g1')
  from partition_spec [OF inv1 this] obtain w n2 where
    p: "partition_batch X batch ?g = ret (spread_part batch bs, normal_part batch bs, ?g\<lparr>gw_ewma := w, gw_reads := n2\<rparr>)" by blast
  define g2 where "g2 = ?g\<lparr>gw_ewma := w, gw_reads := n2\<rparr>"
  have inv2: "gateway_inv X ttl g2" using inv1 by (simp add: g2_def)
  define h where "h = push_spread_msgs X (spread_part batch bs) g2"
  from push_spread_msgs_eq [of X "spread_part batch bs" g2] obtain c where
    h: "h = g2\<lparr>gw_metrics := c, gw_shards := foldl (\<lambda>sh m. snd (push_spread (go_chan X) sh m)) (gw_shards g2) (spread_part batch bs)\<rparr>"
    unfolding h_def by blast
  obtain q where q: "shard_queue contq (gw_shards g2) 8 = Some q"
      "\<And>j. shard_queue contq (gw_shards h) j = (if j = 8 then Some (take 1000 (q @ spread_part batch bs)) else shard_queue contq (gw_shards g2) j)"
    by (rule spread_queue [OF inv2, of "spread_part batch bs"]) (simp add: h)
  have f: "gw_shards g2 = gw_shards g" "gw_cache h = gw_cache g" "gw_readings h = gw_readings g" "gw_sent h = gw_sent g" "uplink_up h = uplink_up g"
    by (simp_all add: h g2_def g1' uplink_up_def)
  have c: "gw_bitemporal h = store_batch (gw_bitemporal g) batch" "lookups h = lookups g"
    "spread_count h = spread_count g + word_of_nat (length (spread_part batch bs))"
    using push_spread_msgs_accounting [of X "spread_part batch bs" g2, folded h_def] reconcile_batch_accounting [OF g1(1)]
    by (simp_all add: lookups_def spread_count_def g2_def)
  have "\<exists>g''. process_incoming_batch X batch g = ret g'' \<and> same_effects g'' g'"
    if r: "route_normal X (lookup_results (r_inst (gw_readings h (gw_reads h))) (gw_cache h) (normal_part batch bs))
        (h\<lparr>gw_reads := gw_reads h + 1\<rparr>) = ret g'" for g'
  proof -
    consider "batch = []" | "batch \<noteq> []" "normal_part batch bs = []" | "batch \<noteq> []" "normal_part batch bs \<noteq> []" by blast
    then show ?thesis
    proof cases
      case 1
      then have "same_effects g g'"
        using r g1(1) by (auto simp: same_effects_def lookup_results_def normal_part_def h_def g2_def store_batch_def spread_part_def)
      with 1 show ?thesis by (intro exI [of _ g]) (simp add: process_incoming_batch_def)
    next
      case 2
      then have "same_effects h g'" using r by (auto simp: same_effects_def lookup_results_def)
      with 2 show ?thesis
        by (intro exI [of _ h]) (simp add: process_incoming_batch_def g1(1) p g2_def [symmetric] h_def [symmetric])
    next
      case 3
      with r show ?thesis
        by (intro exI [of _ g']) (simp add: same_effects_def process_incoming_batch_def g1(1) p g2_def [symmetric] h_def [symmetric] read_clock_def lookup_results_def)
    qed
  qed
  with push_spread_msgs_inv [OF inv2, of "spread_part batch bs", folded h_def] f(2-5) c q show ?thesis unfolding f(1) by blast
qed

end

section \<open>Claim\<close>

text \<open>
  C6. The incoming path accounts for every message of a batch, in every reachable state. Each is
  stored in the bi-temporal store exactly as it came, its event time never being corrected, because
  the gateway registers no clock offsets. A message whose spread is above the adaptive threshold of
  its protocol is part of a burst: these are counted and appended in order to the spread shard, as
  far as its thousand places go. Every other message is looked up in the cache, once, or sixty times
  if it is an Iridium message that is not an emergency, which the default telemetry rule duplicates.
  Each miss is appended to one regular shard, the misses of one shard staying in order, or refused,
  which happens only when a regular shard is full or the backpressure limit is reached; no other
  queue changes. For a hit the cached translation is posted to the uplink, in order, and nothing else
  is posted but telemetry; all are when there are credentials, the breaker is closed and no request fails.
\<close>

theorem incoming_batch_accounted:
  assumes "bounded_channel (go_chan X) contq capq" and "bounded_channel (go_pool_chan X) contt capt"
    and "hex_decode_law (go_ext X)" and "nom_law (go_ext X)"
    and "gateway_new X bsz ttl creds tel rd http = Some g0" and "(gateway_step X)\<^sup>*\<^sup>* g0 g"
    and "bs = burst_bits (go_float X) (gw_ewma g) batch"
  shows "\<exists>g' q n l ds reqs. process_incoming_batch X batch g = ret g' \<and>
    gw_bitemporal g' = store_batch (gw_bitemporal g) batch \<and>
    l = lookup_results (r_inst (gw_readings g n)) (gw_cache g) (normal_part batch bs) \<and>
    shard_queue contq (gw_shards g) 8 = Some q \<and>
    shard_queue contq (gw_shards g') 8 = Some (take 1000 (q @ spread_part batch bs)) \<and>
    length ds = length (misses l) \<and> (\<forall>i. Some i \<in> set ds \<longrightarrow> 1 \<le> unat i \<and> unat i < 8) \<and>
    (None \<in> set ds \<longrightarrow> shards_busy contq (gw_shards g')) \<and>
    (\<forall>j. j \<noteq> 8 \<longrightarrow> shard_queue contq (gw_shards g') j =
      map_option (\<lambda>q. q @ sent_to j (misses l) ds) (shard_queue contq (gw_shards g) j)) \<and>
    gw_sent g' = gw_sent g @ reqs \<and> subseq (concat (map request_items reqs)) (map (uplink_item_of (go_ext X)) (hits l)) \<and>
    (uplink_up g \<longrightarrow> concat (map request_items reqs) = map (uplink_item_of (go_ext X)) (hits l)) \<and>
    spread_count g' = spread_count g + word_of_nat (length (spread_part batch bs)) \<and>
    lookups g' = lookups g + word_of_nat (length (normal_part batch bs))"
proof -
  note env = gateway_envI [OF assms(1-4)]
  have "gateway_inv X ttl g" by (rule gateway_env.reachable_inv [OF env assms(5,6)])
  from gateway_env.incoming_prefix [OF env this assms(7)] obtain h q where
    inv: "gateway_inv X ttl h" and f: "gw_cache h = gw_cache g" "gw_readings h = gw_readings g" "gw_sent h = gw_sent g" "uplink_up h = uplink_up g"
    and c: "gw_bitemporal h = store_batch (gw_bitemporal g) batch" "lookups h = lookups g"
      "spread_count h = spread_count g + word_of_nat (length (spread_part batch bs))"
    and q: "shard_queue contq (gw_shards g) 8 = Some q"
      "\<And>j. shard_queue contq (gw_shards h) j = (if j = 8 then Some (take 1000 (q @ spread_part batch bs)) else shard_queue contq (gw_shards g) j)"
    and process: "\<And>g'. route_normal X (lookup_results (r_inst (gw_readings h (gw_reads h))) (gw_cache h) (normal_part batch bs))
        (h\<lparr>gw_reads := gw_reads h + 1\<rparr>) = ret g' \<Longrightarrow> \<exists>g''. process_incoming_batch X batch g = ret g'' \<and> same_effects g'' g'"
    by blast
  let ?l = "lookup_results (r_inst (gw_readings h (gw_reads h))) (gw_cache h) (normal_part batch bs)"
  let ?h = "h\<lparr>gw_reads := gw_reads h + 1\<rparr>"
  have "list_all (\<lambda>(m, c). \<forall>t. c = Some t \<longrightarrow> in_target_format t) ?l"
    unfolding lookup_results_def by (rule cache_results_format [OF inv])
  moreover have "gateway_inv X ttl ?h" using inv by simp
  ultimately obtain g' ds reqs where
    r: "route_normal X ?l ?h = ret g'" "length ds = length (misses ?l)"
      "None \<in> set ds \<longrightarrow> shards_busy contq (gw_shards g')" "\<forall>i. Some i \<in> set ds \<longrightarrow> 1 \<le> unat i \<and> unat i < 8"
      "\<forall>j. shard_queue contq (gw_shards g') j = map_option (\<lambda>q. q @ sent_to j (misses ?l) ds) (shard_queue contq (gw_shards ?h) j)"
      "gw_sent g' = gw_sent ?h @ reqs" "subseq (concat (map request_items reqs)) (map (uplink_item_of (go_ext X)) (hits ?l))"
    using gateway_env.route_normal_spec [OF env] by blast
  from process [OF r(1)] obtain g'' where g'': "process_incoming_batch X batch g = ret g''" "gw_bitemporal g'' = gw_bitemporal g'"
      "gw_shards g'' = gw_shards g'" "gw_sent g'' = gw_sent g'" "gw_metrics g'' = gw_metrics g'" unfolding same_effects_def by blast
  have c': "gw_bitemporal g'' = store_batch (gw_bitemporal g) batch" "spread_count g'' = spread_count g + word_of_nat (length (spread_part batch bs))"
    "lookups g'' = lookups g + word_of_nat (length (normal_part batch bs))"
    using route_normal_accounting [OF r(1)] c g''(2,5) by (simp_all add: lookups_def spread_count_def)
  have u: "uplink_up g \<longrightarrow> concat (map request_items reqs) = map (uplink_item_of (go_ext X)) (hits ?l)"
    using route_normal_up [OF r(1)] r(6) f(4) by auto
  have sent8: "sent_to 8 (misses ?l) ds = []" using r(4) by (auto simp: sent_to_def filter_empty_conv dest!: set_zip_rightD)
  have "shard_queue contq (gw_shards g'') 8 = Some (take 1000 (q @ spread_part batch bs))"
    using r(5) q(2) [of 8] by (simp add: g''(3) sent8)
  moreover have "\<forall>j. j \<noteq> 8 \<longrightarrow> shard_queue contq (gw_shards g'') j =
      map_option (\<lambda>q. q @ sent_to j (misses ?l) ds) (shard_queue contq (gw_shards g) j)"
    using r(5) q(2) by (simp add: g''(3))
  moreover have "gw_sent g'' = gw_sent g @ reqs" using r(6) f(3) by (simp add: g''(4))
  ultimately show ?thesis
    using g''(1) c' q(1) r(2,3,4,7) u unfolding f(1,2) g''(3) [symmetric] by blast
qed

theorem incoming_batch_accounted_witness:
  "\<exists>g g' q. gateway_new list_ops 1000 60 None \<lparr>tc_enabled = False, tc_endpoint = None, tc_ping_interval_ms = 5000\<rparr>
       (\<lambda>n. \<lparr>r_wall = word_of_nat n, r_inst = n, r_uptime = 0\<rparr>) (\<lambda>n. Inr 200) = Some g \<and>
     process_incoming_batch list_ops [\<lparr>m_protocol = NIDD, m_data = [1, 2], m_priority = Operational, m_timestamp = 0, m_t_event = 7, m_t_system = 9\<rparr>] g = ret g' \<and>
     gw_bitemporal g' = store_batch (gw_bitemporal g) [\<lparr>m_protocol = NIDD, m_data = [1, 2], m_priority = Operational, m_timestamp = 0, m_t_event = 7, m_t_system = 9\<rparr>] \<and>
     shard_queue snd (gw_shards g') 8 = Some (take 1000 (q @
       spread_part [\<lparr>m_protocol = NIDD, m_data = [1, 2], m_priority = Operational, m_timestamp = 0, m_t_event = 7, m_t_system = 9\<rparr>]
         (burst_bits exact_ops (gw_ewma g) [\<lparr>m_protocol = NIDD, m_data = [1, 2], m_priority = Operational, m_timestamp = 0, m_t_event = 7, m_t_system = 9\<rparr>])))"
proof -
  let ?m = "\<lparr>m_protocol = NIDD, m_data = [1, 2], m_priority = Operational, m_timestamp = 0, m_t_event = 7, m_t_system = 9\<rparr>"
  obtain g :: "(nat \<times> message list, nat \<times> translator list, rat) gateway" where
    g: "gateway_new list_ops 1000 60 None \<lparr>tc_enabled = False, tc_endpoint = None, tc_ping_interval_ms = 5000\<rparr>
       (\<lambda>n. \<lparr>r_wall = word_of_nat n, r_inst = n, r_uptime = 0\<rparr>) (\<lambda>n. Inr 200) = Some g" using list_gateway_exists by blast
  from incoming_batch_accounted [OF list_ops_laws g rtranclp.rtrancl_refl refl, of "[?m]"] obtain g' q where
    "process_incoming_batch list_ops [?m] g = ret g'" "gw_bitemporal g' = store_batch (gw_bitemporal g) [?m]"
    "shard_queue snd (gw_shards g') 8 = Some (take 1000 (q @ spread_part [?m] (burst_bits (go_float list_ops) (gw_ewma g) [?m])))" by blast
  with g show ?thesis by (auto simp: list_ops_def)
qed

end
