(* ===== verification/Wal.thy ===== *)
theory Wal
  imports Protocol Externals
begin

text \<open>
  \<open>src/src/storage/wal.rs\<close>: the write-ahead log. A file is its bytes and the position of
  its cursor. Calls to the operating system succeed; what fails is reading past the end of the
  file, which is an error value. The texts of errors are left out. Serialization is the
  \<open>bincode\<close> crate, a parameter of the model.
\<close>

section \<open>Files\<close>

record wal_file =
  wf_data :: bytes
  wf_pos :: nat

definition read_exact :: "nat \<Rightarrow> wal_file \<Rightarrow> bytes option \<times> wal_file" where
  "read_exact n f =
     (let rest = drop (wf_pos f) (wf_data f)
      in if n \<le> length rest then (Some (take n rest), f\<lparr>wf_pos := wf_pos f + n\<rparr>)
         else (None, f\<lparr>wf_pos := length (wf_data f)\<rparr>))"

definition write_all :: "bytes \<Rightarrow> wal_file \<Rightarrow> wal_file" where
  "write_all bs f =
     f\<lparr>wf_data := take (wf_pos f) (wf_data f) @ bs @ drop (wf_pos f + length bs) (wf_data f),
       wf_pos := wf_pos f + length bs\<rparr>"

definition seek_start :: "wal_file \<Rightarrow> wal_file" where
  "seek_start f = f\<lparr>wf_pos := 0\<rparr>"

definition seek_end :: "wal_file \<Rightarrow> wal_file" where
  "seek_end f = f\<lparr>wf_pos := length (wf_data f)\<rparr>"

section \<open>Header and entries\<close>

datatype wal_error = FileOpen | FileRead | FileWrite | FileSeek | Serialization | Deserialization
  | InvalidHeader | CrcMismatch

definition wal_magic :: bytes where
  "wal_magic = bytes_of ''FLOATWAL''"

definition wal_version :: u16 where
  "wal_version = 1"

definition wal_header_size :: nat where
  "wal_header_size = 16"

record wal_header =
  wh_magic :: bytes
  wh_version :: u16
  wh_sequence :: u64

definition wal_header_new :: "u64 \<Rightarrow> wal_header" where
  "wal_header_new sq = \<lparr>wh_magic = wal_magic, wh_version = wal_version, wh_sequence = sq\<rparr>"

definition wal_header_to_bytes :: "wal_header \<Rightarrow> bytes" where
  "wal_header_to_bytes h = wh_magic h @ u16_to_be (wh_version h) @ u64_to_be (wh_sequence h)"

definition wal_header_from_bytes :: "bytes \<Rightarrow> wal_header option exec" where
  "wal_header_from_bytes bs =
     (if length bs < wal_header_size then ret None
      else do {
        magic \<leftarrow> slice bs 0 8;
        if magic \<noteq> wal_magic then ret None
        else do {
          version \<leftarrow> u16_at bs 8;
          sq \<leftarrow> u64_at bs 10;
          ret (Some \<lparr>wh_magic = magic, wh_version = version, wh_sequence = sq\<rparr>) } })"

record wal_entry =
  we_sequence :: u64
  we_message :: message
  we_timestamp_ms :: u64

record bincode =
  bc_serialize :: "wal_entry \<Rightarrow> bytes option"
  bc_deserialize :: "bytes \<Rightarrow> wal_entry option"

text \<open>Deserializing what was serialized returns it.\<close>

definition bincode_law :: "bincode \<Rightarrow> bool" where
  "bincode_law B \<longleftrightarrow> (\<forall>x b. bc_serialize B x = Some b \<longrightarrow> bc_deserialize B b = Some x)"

definition wal_entry_new :: "u64 \<Rightarrow> u64 \<Rightarrow> message \<Rightarrow> wal_entry" where
  "wal_entry_new now sq m = \<lparr>we_sequence = sq, we_message = m, we_timestamp_ms = now\<rparr>"

section \<open>The log\<close>

record wal =
  w_file :: wal_file
  w_sequence :: u64

definition write_header :: "wal_file \<Rightarrow> wal_file" where
  "write_header f = write_all (wal_header_to_bytes (wal_header_new 0)) (seek_start f)"

text \<open>
  The entry loops, over the bytes from the cursor to the end of the file. A length field that
  cannot be read ends the loop; data or checksum that cannot be read is an error.
\<close>

function (sequential) load_entries :: "ext \<Rightarrow> bincode \<Rightarrow> u64 \<Rightarrow> bytes \<Rightarrow> wal_error + u64" where
  "load_entries e B sq rest =
     (if length rest < 4 then Inr sq
      else let len = unat (u32_from_be (take 4 rest)); rest = drop 4 rest in
        if length rest < len then Inl FileRead
        else let data = take len rest; rest = drop len rest in
          if length rest < 4 then Inl FileRead
          else if x_crc32 e data \<noteq> u32_from_be (take 4 rest) then Inl CrcMismatch
          else load_entries e B (case bc_deserialize B data of Some en \<Rightarrow> we_sequence en | None \<Rightarrow> sq) (drop 4 rest))"
  by pat_completeness auto
termination by (relation "measure (\<lambda>(e, B, sq, rest). length rest)") auto

function (sequential) replay_entries :: "ext \<Rightarrow> bincode \<Rightarrow> bytes \<Rightarrow> wal_error + message list" where
  "replay_entries e B rest =
     (if length rest < 4 then Inr []
      else let len = unat (u32_from_be (take 4 rest)); rest = drop 4 rest in
        if length rest < len then Inl FileRead
        else let data = take len rest; rest = drop len rest in
          if length rest < 4 then Inl FileRead
          else
            let here = (if x_crc32 e data \<noteq> u32_from_be (take 4 rest) then []
                        else case bc_deserialize B data of Some en \<Rightarrow> [we_message en] | None \<Rightarrow> [])
            in case replay_entries e B (drop 4 rest) of
                 Inl err \<Rightarrow> Inl err
               | Inr ms \<Rightarrow> Inr (here @ ms))"
  by pat_completeness auto
termination by (relation "measure (\<lambda>(e, B, rest). length rest)") auto

declare load_entries.simps [simp del] replay_entries.simps [simp del]

definition load_sequence :: "ext \<Rightarrow> bincode \<Rightarrow> wal \<Rightarrow> (wal_error + wal) exec" where
  "load_sequence e B w =
     (case read_exact wal_header_size (w_file w) of
        (None, _) \<Rightarrow> ret (Inl FileRead)
      | (Some hb, f) \<Rightarrow> do {
          r \<leftarrow> wal_header_from_bytes hb;
          ret (case r of
                 None \<Rightarrow> Inl InvalidHeader
               | Some h \<Rightarrow>
                   case load_entries e B (wh_sequence h) (drop (wf_pos f) (wf_data f)) of
                     Inl err \<Rightarrow> Inl err
                   | Inr sq \<Rightarrow> Inr \<lparr>w_file = seek_end f, w_sequence = sq\<rparr>) })"

definition wal_open :: "ext \<Rightarrow> bincode \<Rightarrow> bytes \<Rightarrow> (wal_error + wal) exec" where
  "wal_open e B contents =
     (let f = \<lparr>wf_data = contents, wf_pos = 0\<rparr>;
          f = (if wf_data f = [] then write_header f else f)
      in load_sequence e B \<lparr>w_file = f, w_sequence = 0\<rparr>)"

definition wal_append :: "ext \<Rightarrow> bincode \<Rightarrow> u64 \<Rightarrow> wal \<Rightarrow> message \<Rightarrow> (wal_error + u64) \<times> wal" where
  "wal_append e B now w m =
     (let w = w\<lparr>w_sequence := w_sequence w + 1\<rparr>;
          sq = w_sequence w
      in case bc_serialize B (wal_entry_new now sq m) of
           None \<Rightarrow> (Inl Serialization, w)
         | Some data \<Rightarrow>
             let crc = x_crc32 e data;
                 f = seek_end (w_file w);
                 f = write_all (u32_to_be (word_of_nat (length data))) f;
                 f = write_all data f;
                 f = write_all (u32_to_be crc) f
             in (Inr sq, w\<lparr>w_file := f\<rparr>))"

definition wal_replay :: "ext \<Rightarrow> bincode \<Rightarrow> wal \<Rightarrow> (wal_error + message list) \<times> wal" where
  "wal_replay e B w =
     (case read_exact wal_header_size (w_file w) of
        (None, f) \<Rightarrow> (Inl FileRead, w\<lparr>w_file := f\<rparr>)
      | (Some _, f) \<Rightarrow> (replay_entries e B (drop (wf_pos f) (wf_data f)), w\<lparr>w_file := seek_end f\<rparr>))"

text \<open>
  Compaction replays the log, keeps the recent messages as entries numbered from one, and rewrites
  the file. The field it compares, \<open>timestamp_ms\<close>, is one that messages do not have, so that the
  time of a message is an argument. The subtraction for the cutoff wraps.
\<close>

fun write_entries :: "ext \<Rightarrow> bincode \<Rightarrow> wal_entry list \<Rightarrow> wal_file \<Rightarrow> (wal_error + unit) \<times> wal_file" where
  "write_entries e B [] f = (Inr (), f)"
| "write_entries e B (x # xs) f =
     (case bc_serialize B x of
        None \<Rightarrow> (Inl Serialization, f)
      | Some data \<Rightarrow>
          let f = write_all (u32_to_be (word_of_nat (length data))) f;
              f = write_all data f;
              f = write_all (u32_to_be (x_crc32 e data)) f
          in write_entries e B xs f)"

definition retained_entries :: "u64 \<Rightarrow> u64 \<Rightarrow> (message \<Rightarrow> u64) \<Rightarrow> message list \<Rightarrow> wal_entry list" where
  "retained_entries now retain_ms time_of ms =
     map (\<lambda>(i, m). wal_entry_new now (word_of_nat i + 1) m)
       (List.enumerate 0 (filter (\<lambda>m. now - retain_ms \<le> time_of m) ms))"

definition wal_compact :: "ext \<Rightarrow> bincode \<Rightarrow> u64 \<Rightarrow> (message \<Rightarrow> u64) \<Rightarrow> u64 \<Rightarrow> wal \<Rightarrow> (wal_error + unit) \<times> wal" where
  "wal_compact e B now time_of retain_ms w =
     (case wal_replay e B w of
        (Inl err, w) \<Rightarrow> (Inl err, w)
      | (Inr ms, w) \<Rightarrow>
          let retained = retained_entries now retain_ms time_of ms;
              f = write_all (wal_header_to_bytes (wal_header_new (word_of_nat (length retained)))) \<lparr>wf_data = [], wf_pos = 0\<rparr>
          in case write_entries e B retained f of
               (Inl err, f) \<Rightarrow> (Inl err, w\<lparr>w_file := f\<rparr>)
             | (Inr _, f) \<Rightarrow> (Inr (), \<lparr>w_file = f, w_sequence = word_of_nat (length retained)\<rparr>))"

text \<open>The bytes one \<open>append\<close> adds, and the log of a sequence of entries.\<close>

definition wal_frame :: "ext \<Rightarrow> bytes \<Rightarrow> bytes" where
  "wal_frame e d = u32_to_be (word_of_nat (length d)) @ d @ u32_to_be (x_crc32 e d)"

definition entry_fits :: "bincode \<Rightarrow> wal_entry \<Rightarrow> bool" where
  "entry_fits B x \<longleftrightarrow> (case bc_serialize B x of None \<Rightarrow> False | Some d \<Rightarrow> length d < 2 ^ 32)"

definition entry_frame :: "ext \<Rightarrow> bincode \<Rightarrow> wal_entry \<Rightarrow> bytes" where
  "entry_frame e B x = (case bc_serialize B x of None \<Rightarrow> [] | Some d \<Rightarrow> wal_frame e d)"

definition log_of :: "ext \<Rightarrow> bincode \<Rightarrow> wal_entry list \<Rightarrow> bytes" where
  "log_of e B xs = concat (map (entry_frame e B) xs)"

section \<open>Reading back what was appended\<close>

lemma length_wal_frame [simp]: "length (wal_frame e d) = 8 + length d"
  by (simp add: wal_frame_def)

lemma frame_length_field: "length d < 2 ^ 32 \<Longrightarrow> unat (u32_from_be (take 4 (wal_frame e d))) = length d"
  by (simp add: wal_frame_def)

lemma replay_frame:
  assumes "length d < 2 ^ 32"
  shows "replay_entries e B (wal_frame e d @ rest) =
    (case replay_entries e B rest of
       Inl err \<Rightarrow> Inl err
     | Inr ms \<Rightarrow> Inr ((case bc_deserialize B d of Some en \<Rightarrow> [we_message en] | None \<Rightarrow> []) @ ms))"
  using assms by (subst replay_entries.simps) (simp add: wal_frame_def Let_def)

lemma load_frame:
  assumes "length d < 2 ^ 32"
  shows "load_entries e B sq (wal_frame e d @ rest) =
    load_entries e B (case bc_deserialize B d of Some en \<Rightarrow> we_sequence en | None \<Rightarrow> sq) rest"
  using assms by (subst load_entries.simps) (simp add: wal_frame_def Let_def)

lemma replay_torn_frame:
  assumes "length d < 2 ^ 32" "k < length (wal_frame e d)"
  shows "replay_entries e B (take k (wal_frame e d)) = (if k < 4 then Inr [] else Inl FileRead)"
proof (cases "k < 4")
  case False
  moreover have "k - (length d + 4) < 4" using assms(2) by simp
  ultimately show ?thesis using assms(2)
    by (subst replay_entries.simps) (simp add: frame_length_field [OF assms(1)] Let_def min_def)
qed (subst replay_entries.simps, simp)

lemma replay_log_append:
  assumes "bincode_law B" "list_all (entry_fits B) xs"
  shows "replay_entries e B (log_of e B xs @ rest) =
    (case replay_entries e B rest of Inl err \<Rightarrow> Inl err | Inr ms \<Rightarrow> Inr (map we_message xs @ ms))"
  using assms(2)
proof (induction xs)
  case (Cons x xs)
  then obtain d where d: "bc_serialize B x = Some d" "length d < 2 ^ 32"
    by (auto simp: entry_fits_def split: option.splits)
  with assms(1) have "bc_deserialize B d = Some x" by (simp add: bincode_law_def)
  with d Cons show ?case
    by (simp add: log_of_def entry_frame_def replay_frame split: sum.splits)
qed (simp add: log_of_def split: sum.splits)

lemma load_log_append:
  assumes "bincode_law B" "list_all (entry_fits B) xs"
  shows "load_entries e B sq (log_of e B xs @ rest) = load_entries e B (last (sq # map we_sequence xs)) rest"
  using assms(2)
proof (induction xs arbitrary: sq)
  case (Cons x xs)
  then obtain d where d: "bc_serialize B x = Some d" "length d < 2 ^ 32"
    by (auto simp: entry_fits_def split: option.splits)
  with assms(1) have "bc_deserialize B d = Some x" by (simp add: bincode_law_def)
  with d Cons show ?case by (simp add: log_of_def entry_frame_def load_frame)
qed (simp add: log_of_def)

lemma end_of_log [simp]: "replay_entries e B [] = Inr []" "load_entries e B sq [] = Inr sq"
  by (subst replay_entries.simps load_entries.simps, simp)+

lemma wal_append_data:
  assumes "bc_serialize B (wal_entry_new now (w_sequence w + 1) m) = Some d"
  shows "wal_append e B now w m =
    (Inr (w_sequence w + 1),
     \<lparr>w_file = \<lparr>wf_data = wf_data (w_file w) @ wal_frame e d, wf_pos = length (wf_data (w_file w)) + length (wal_frame e d)\<rparr>,
      w_sequence = w_sequence w + 1\<rparr>)"
  using assms
  by (cases w, cases "w_file w") (simp add: wal_append_def Let_def write_all_def seek_end_def wal_frame_def)

lemma replay_from_start:
  "16 \<le> length bs \<Longrightarrow>
   wal_replay e B \<lparr>w_file = \<lparr>wf_data = bs, wf_pos = 0\<rparr>, w_sequence = n\<rparr> =
     (replay_entries e B (drop 16 bs), \<lparr>w_file = \<lparr>wf_data = bs, wf_pos = length bs\<rparr>, w_sequence = n\<rparr>)"
  by (simp add: wal_replay_def read_exact_def wal_header_size_def seek_end_def)

lemma header_bytes:
  "length (wal_header_to_bytes (wal_header_new s)) = 18"
  "drop 16 (wal_header_to_bytes (wal_header_new s)) = be_digits 2 (unat s)"
  by (simp_all add: wal_header_to_bytes_def wal_header_new_def wal_magic_def u64_to_be_def be_digits_halves)

lemma replay_written_header:
  "wal_replay e B \<lparr>w_file = \<lparr>wf_data = wal_header_to_bytes (wal_header_new s) @ bs, wf_pos = 0\<rparr>, w_sequence = n\<rparr> =
     (replay_entries e B (be_digits 2 (unat s) @ bs),
      \<lparr>w_file = \<lparr>wf_data = wal_header_to_bytes (wal_header_new s) @ bs, wf_pos = 18 + length bs\<rparr>, w_sequence = n\<rparr>)"
  by (simp add: replay_from_start header_bytes)

text \<open>
  Two bytes before a log, the loop takes those bytes and the upper half of the first length field
  for a length.
\<close>

lemma early_length:
  assumes "length d < 2 ^ 32"
  shows "unat (u32_from_be (take 4 (be_digits 2 n @ wal_frame e d @ rest))) = n mod 65536 * 65536 + length d div 65536"
proof -
  have "take 4 (be_digits 2 n @ wal_frame e d @ rest) = be_digits 2 n @ be_digits 2 (length d div 65536)"
    using assms by (simp add: wal_frame_def u32_to_be_def unat_of_nat be_digits_halves)
  moreover have "be_value \<dots> = n mod 65536 * 65536 + length d div 65536"
    using assms by (simp add: be_value_append be_value_digits_mod)
  moreover have "unat (word_of_nat v :: u32) = v" if "v < 2 ^ 32" for v using that by (simp add: unat_of_nat)
  moreover have "be_value (be_digits 2 n @ be_digits 2 (length d div 65536)) < 2 ^ 32"
    using be_value_bound [of "be_digits 2 n @ be_digits 2 (length d div 65536)"] by simp
  ultimately show ?thesis by (metis u32_from_be_def)
qed

lemma replay_large_length:
  assumes "length d < 2 ^ 32" "n mod 65536 \<noteq> 0" "length (wal_frame e d @ rest) \<le> 65536"
  shows "replay_entries e B (be_digits 2 n @ wal_frame e d @ rest) = Inl FileRead"
proof -
  have "65536 \<le> n mod 65536 * 65536 + length d div 65536" using assms(2) by (cases "n mod 65536") auto
  then show ?thesis
    using assms(3) early_length [OF assms(1), of n e rest] by (subst replay_entries.simps) (simp add: Let_def)
qed

lemma replay_shifted:
  assumes "x_crc32 e [] = 0" "1 \<le> length d" "length d < 65536"
  shows "replay_entries e B (be_digits 2 0 @ wal_frame e d @ rest) = replay_entries e B (drop 6 (wal_frame e d @ rest))"
proof -
  let ?r = "drop 2 (wal_frame e d @ rest)"
  have four: "take 4 ?r = be_digits 2 (length d) @ take 2 (d @ u32_to_be (x_crc32 e d))"
    using assms(3) by (simp add: wal_frame_def u32_to_be_def unat_of_nat be_digits_halves)
  have "length (take 2 (d @ u32_to_be (x_crc32 e d))) = 2" by simp
  then have "0 < be_value (take 4 ?r)" unfolding four be_value_append using assms(2,3) by (cases d) (simp_all add: be_value_digits_mod)
  moreover have "be_value (take 4 ?r) < 2 ^ 32" using be_value_bound [of "take 4 ?r"] by simp
  ultimately have "u32_from_be (take 4 ?r) \<noteq> 0" by (simp add: u32_from_be_def word_of_nat_eq_0_iff nat_dvd_not_less)
  then show ?thesis
    using assms early_length [of d 0 e rest] by (subst replay_entries.simps) (simp add: Let_def split: sum.splits)
qed



lemma wal_open_fails:
  "wal_open e B contents \<noteq> ret (Inr w) \<and>
   (wal_open e B contents = panic \<longleftrightarrow> 16 \<le> length contents \<and> take 8 contents = wal_magic)"
proof (cases "contents = []")
  case True
  then show ?thesis
    by (simp add: wal_open_def load_sequence_def read_exact_def write_header_def write_all_def seek_start_def
        wal_header_size_def wal_header_to_bytes_def Let_def)
next
  case False
  then show ?thesis
    by (auto simp: wal_open_def load_sequence_def read_exact_def wal_header_size_def wal_header_from_bytes_def
        Let_def slice_def u16_at_def u64_at_def min_def)
qed

text \<open>
  The log can never be opened. The header that is written has eighteen bytes but sixteen are
  read back, and the reader indexes past them: a file with the right magic number panics. A new
  file fails too, because the header is read from behind the one just written, and so do files
  that are too short or start differently.
\<close>

lemma wal_open_never_succeeds:
  "wal_open e B contents \<noteq> ret (Inr w) \<and>
   (wal_open e B contents = panic \<longleftrightarrow> 16 \<le> length contents \<and> take 8 contents = wal_magic)"
  by (rule wal_open_fails)

section \<open>Compaction\<close>

lemma write_all_at_end:
  "wf_pos f = length (wf_data f) \<Longrightarrow>
   write_all bs f = \<lparr>wf_data = wf_data f @ bs, wf_pos = length (wf_data f) + length bs\<rparr>"
  by (cases f) (simp add: write_all_def)

lemma write_entries_log:
  "wf_pos f = length (wf_data f) \<Longrightarrow> list_all (\<lambda>x. bc_serialize B x \<noteq> None) xs \<Longrightarrow>
   write_entries e B xs f =
     (Inr (), \<lparr>wf_data = wf_data f @ log_of e B xs, wf_pos = length (wf_data f) + length (log_of e B xs)\<rparr>)"
proof (induction xs arbitrary: f)
  case (Cons x xs)
  then obtain d where d: "bc_serialize B x = Some d" by auto
  let ?f = "\<lparr>wf_data = wf_data f @ wal_frame e d, wf_pos = length (wf_data f) + length (wal_frame e d)\<rparr>"
  have "write_entries e B (x # xs) f = write_entries e B xs ?f"
    using Cons.prems(1) by (simp add: d write_all_at_end Let_def wal_frame_def ac_simps)
  with Cons.IH [of ?f] Cons.prems(2) d show ?case by (simp add: log_of_def entry_frame_def)
qed (cases f, simp add: log_of_def)

lemma retained_messages: "map we_message (retained_entries now retain_ms time_of ms) = filter (\<lambda>m. now - retain_ms \<le> time_of m) ms"
  by (simp add: retained_entries_def wal_entry_new_def comp_def case_prod_unfold)

lemma length_retained:
  "length (retained_entries now retain_ms time_of ms) = length (filter (\<lambda>m. now - retain_ms \<le> time_of m) ms)"
  by (simp add: retained_entries_def)

text \<open>
  Compaction of a log that can be replayed leaves a header and exactly the entries of the recent
  messages.
\<close>

lemma compact_replayable:
  assumes "bincode_law B" "wal_replay e B w = (Inr ms, w1)"
    and "list_all (entry_fits B) (retained_entries now retain_ms time_of ms)"
  shows "\<exists>w'. wal_compact e B now time_of retain_ms w = (Inr (), w') \<and>
      w_sequence w' = word_of_nat (length (filter (\<lambda>m. now - retain_ms \<le> time_of m) ms)) \<and>
      take 18 (wf_data (w_file w')) = wal_header_to_bytes (wal_header_new (w_sequence w')) \<and>
      replay_entries e B (drop 18 (wf_data (w_file w'))) = Inr (filter (\<lambda>m. now - retain_ms \<le> time_of m) ms)"
proof -
  let ?xs = "retained_entries now retain_ms time_of ms"
  let ?h = "wal_header_to_bytes (wal_header_new (word_of_nat (length ?xs)))"
  have "list_all (\<lambda>x. bc_serialize B x \<noteq> None) ?xs"
    using assms(3) by (auto simp: list_all_iff entry_fits_def split: option.splits)
  then have "wal_compact e B now time_of retain_ms w =
      (Inr (), \<lparr>w_file = \<lparr>wf_data = ?h @ log_of e B ?xs, wf_pos = 18 + length (log_of e B ?xs)\<rparr>, w_sequence = word_of_nat (length ?xs)\<rparr>)"
    by (simp add: wal_compact_def assms(2) write_all_at_end write_entries_log Let_def header_bytes)
  with replay_log_append [OF assms(1,3), of e "[]"] show ?thesis
    by (simp add: retained_messages length_retained header_bytes)
qed

section \<open>The cursor\<close>

text \<open>
  The operations on an open log that read or write its file, and with them the appends that fail
  before the file is touched.
\<close>

inductive file_op :: "ext \<Rightarrow> bincode \<Rightarrow> (message \<Rightarrow> u64) \<Rightarrow> wal \<Rightarrow> wal \<Rightarrow> bool"
  for e :: ext and B :: bincode and time_of :: "message \<Rightarrow> u64" where
  append: "wal_append e B now w m = (Inr sq, w') \<Longrightarrow> file_op e B time_of w w'"
| replay: "wal_replay e B w = (r, w') \<Longrightarrow> file_op e B time_of w w'"
| compact: "wal_compact e B now time_of retain_ms w = (c, w') \<Longrightarrow> file_op e B time_of w w'"

inductive wal_step :: "ext \<Rightarrow> bincode \<Rightarrow> (message \<Rightarrow> u64) \<Rightarrow> wal \<Rightarrow> wal \<Rightarrow> bool"
  for e :: ext and B :: bincode and time_of :: "message \<Rightarrow> u64" where
  touches: "file_op e B time_of w w' \<Longrightarrow> wal_step e B time_of w w'"
| refused: "wal_append e B now w m = (Inl err, w') \<Longrightarrow> wal_step e B time_of w w'"

definition at_end :: "wal \<Rightarrow> bool" where
  "at_end w \<longleftrightarrow> wf_pos (w_file w) = length (wf_data (w_file w))"

lemma at_end_fails:
  assumes "at_end w"
  shows "wal_replay e B w = (Inl FileRead, w)" and "wal_compact e B now time_of retain_ms w = (Inl FileRead, w)"
proof -
  have "w\<lparr>w_file := (w_file w)\<lparr>wf_pos := length (wf_data (w_file w))\<rparr>\<rparr> = w"
    using assms by (cases w, cases "w_file w") (simp add: at_end_def)
  then show "wal_replay e B w = (Inl FileRead, w)"
    using assms by (simp add: wal_replay_def read_exact_def wal_header_size_def at_end_def)
  then show "wal_compact e B now time_of retain_ms w = (Inl FileRead, w)" by (simp add: wal_compact_def)
qed

lemma replay_at_end: "wal_replay e B w = (r, w') \<Longrightarrow> at_end w'"
  by (auto simp: wal_replay_def read_exact_def seek_end_def at_end_def Let_def split: if_splits)

lemma write_entries_at_end:
  "write_entries e B xs f = (r, f') \<Longrightarrow> wf_pos f = length (wf_data f) \<Longrightarrow> wf_pos f' = length (wf_data f')"
  by (induction xs arbitrary: f) (auto simp: write_all_at_end Let_def split: option.splits)

lemma append_cases:
  "wal_append e B now w m = (r, w') \<Longrightarrow>
   (\<exists>d. r = Inr (w_sequence w + 1) \<and> bc_serialize B (wal_entry_new now (w_sequence w + 1) m) = Some d \<and>
     wf_data (w_file w') = wf_data (w_file w) @ wal_frame e d \<and> at_end w') \<or>
   (r = Inl Serialization \<and> bc_serialize B (wal_entry_new now (w_sequence w + 1) m) = None \<and> w_file w' = w_file w)"
  by (cases "bc_serialize B (wal_entry_new now (w_sequence w + 1) m)")
    (auto simp: wal_append_data at_end_def, auto simp: wal_append_def Let_def)

lemma file_op_at_end: "file_op e B time_of w w' \<Longrightarrow> at_end w'"
proof (induction rule: file_op.induct)
  case (append now w m sq w')
  then show ?case using append_cases by blast
next
  case (replay w r w')
  then show ?case by (rule replay_at_end)
next
  case (compact now retain_ms w c w')
  obtain r w1 where r: "wal_replay e B w = (r, w1)" by fastforce
  show ?case
  proof (cases r)
    case (Inl err)
    with compact r replay_at_end [OF r] show ?thesis by (simp add: wal_compact_def)
  next
    case (Inr ms)
    obtain q f where q: "write_entries e B (retained_entries now retain_ms time_of ms)
        (write_all (wal_header_to_bytes (wal_header_new (word_of_nat (length (retained_entries now retain_ms time_of ms)))))
          \<lparr>wf_data = [], wf_pos = 0\<rparr>) = (q, f)" by fastforce
    then have "wf_pos f = length (wf_data f)" by (rule write_entries_at_end) (simp add: write_all_at_end)
    with compact r Inr q show ?thesis by (auto simp: wal_compact_def at_end_def Let_def split: sum.splits)
  qed
qed

lemma step_from_end:
  assumes "wal_step e B time_of w w'" "at_end w"
  shows "at_end w' \<and> (\<exists>t. wf_data (w_file w') = wf_data (w_file w) @ t)"
  using assms(1)
proof cases
  case touches
  then show ?thesis
  proof cases
    case (append now m sq)
    then show ?thesis using append_cases [OF append] by auto
  qed (use assms(2) at_end_fails in auto)
next
  case (refused now m err)
  then show ?thesis using append_cases [OF refused] assms(2) by (auto simp: at_end_def)
qed

text \<open>
  C21. A log can be read at most once. After the first replay, compaction or successful append on
  an open log, whatever it was and however it ended, the cursor stays at the end of the file, to
  which nothing goes back: every later replay and every later compaction, after any number of
  further operations, fails with a read error and changes nothing. So no entry is ever removed
  again, and the file only grows.
\<close>

theorem wal_reads_once:
  assumes "file_op e B time_of w0 w1" "(wal_step e B time_of)\<^sup>*\<^sup>* w1 w2"
  shows "wal_replay e B w2 = (Inl FileRead, w2) \<and> wal_compact e B now time_of retain_ms w2 = (Inl FileRead, w2) \<and>
    (\<exists>t. wf_data (w_file w2) = wf_data (w_file w1) @ t)"
proof -
  from assms(2) have "at_end w2 \<and> (\<exists>t. wf_data (w_file w2) = wf_data (w_file w1) @ t)"
  proof (induction rule: rtranclp_induct)
    case base
    then show ?case using file_op_at_end [OF assms(1)] by simp
  next
    case (step y z)
    then show ?case using step_from_end [OF step.hyps(2)] by force
  qed
  then show ?thesis using at_end_fails by simp
qed

theorem wal_reads_once_witness:
  "\<exists>B w1 w2. wal_append ref_ext B 9 \<lparr>w_file = write_header \<lparr>wf_data = [], wf_pos = 0\<rparr>, w_sequence = 0\<rparr>
       (message_new 5 VSAT [1] Operational) = (Inr 1, w1) \<and>
     wal_append ref_ext B 9 w1 (message_new 6 VSAT [2] Operational) = (Inl Serialization, w2) \<and>
     wal_replay ref_ext B w2 = (Inl FileRead, w2) \<and> wal_compact ref_ext B 9 m_timestamp 4 w2 = (Inl FileRead, w2)"
proof -
  let ?m = "message_new 5 VSAT [1] Operational"
  let ?x = "wal_entry_new 9 1 (message_new 5 VSAT [1] Operational)"
  let ?w = "\<lparr>w_file = write_header \<lparr>wf_data = [], wf_pos = 0\<rparr>, w_sequence = 0\<rparr>"
  define B where "B = \<lparr>bc_serialize = (\<lambda>x. if x = ?x then Some [7] else None), bc_deserialize = (\<lambda>d. if d = [7] then Some ?x else None)\<rparr>"
  obtain w1 where w1: "wal_append ref_ext B 9 ?w ?m = (Inr 1, w1)" "w_sequence w1 = 1"
    by (simp add: wal_append_data [where d = "[7]"] B_def)
  obtain w2 where w2: "wal_append ref_ext B 9 w1 (message_new 6 VSAT [2] Operational) = (Inl Serialization, w2)"
    by (simp add: wal_append_def Let_def B_def w1(2) wal_entry_new_def)
  have "(wal_step ref_ext B m_timestamp)\<^sup>*\<^sup>* w1 w2" using w2 by (blast intro: wal_step.refused)
  from wal_reads_once [OF file_op.append [OF w1(1)] this, of 9 4] w1 w2 show ?thesis by blast
qed

end
