(* ===== verification/Encrypted_Store.thy ===== *)
theory Encrypted_Store
  imports Wal Bitemporal Snapshot
begin

text \<open>
  \<open>src/src/storage/encrypted_store.rs\<close>: the persistent store, a write-ahead log next to an
  in-memory bi-temporal store, on a volume that is opened and mounted by external commands. The
  outcomes of the commands, the existence of paths and the contents of the files are the
  environment.
\<close>

section \<open>The environment\<close>

record system =
  sy_exists :: "string \<Rightarrow> bool"
  sy_run :: "string list \<Rightarrow> cmd_outcome"
  sy_create_dir :: "string \<Rightarrow> string option"
  sy_wal_file :: bytes

datatype store_error =
  CryptSetup string | MountPoint string | Mount string | Unmount string
| StoreFileRead string | StoreFileWrite string | StoreSerialization string | StoreDeserialization string
| StoreSync string | StoreWal wal_error

record snapshot_format =
  sf_serialize :: "snapshot \<Rightarrow> bytes option"
  sf_deserialize :: "bytes \<Rightarrow> snapshot option"

definition snapshot_format_law :: "snapshot_format \<Rightarrow> bool" where
  "snapshot_format_law S \<longleftrightarrow> (\<forall>x b. sf_serialize S x = Some b \<longrightarrow> sf_deserialize S b = Some x)"

section \<open>Operations\<close>

record encrypted_store =
  es_wal :: wal
  es_bitemporal :: bitemporal_store
  es_mount_point :: string
  es_files :: "(string \<times> bytes) list"

definition crypt_mapper :: string where
  "crypt_mapper = ''encrypted_storage''"

definition nvme_device :: string where
  "nvme_device = ''/dev/nvme0n1''"

definition storage_mount :: string where
  "storage_mount = ''/mnt/encrypted_storage''"

definition open_crypt_volume :: "system \<Rightarrow> store_error + unit" where
  "open_crypt_volume sy =
     (if sy_exists sy (''/dev/mapper/'' @ crypt_mapper) then Inr ()
      else case sy_run sy [''cryptsetup'', ''luksOpen'', nvme_device, crypt_mapper] of
        NotRun err \<Rightarrow> Inl (CryptSetup err)
      | Exited ok stderr \<Rightarrow> if \<not> ok then Inl (CryptSetup stderr) else Inr ())"

definition ensure_mount_point :: "system \<Rightarrow> store_error + unit" where
  "ensure_mount_point sy =
     (if \<not> sy_exists sy storage_mount
      then case sy_create_dir sy storage_mount of Some err \<Rightarrow> Inl (MountPoint err) | None \<Rightarrow> Inr ()
      else Inr ())"

definition mount_volume :: "system \<Rightarrow> store_error + unit" where
  "mount_volume sy =
     (case sy_run sy [''mount'', ''--show'', ''/dev/mapper/'' @ crypt_mapper] of
        NotRun err \<Rightarrow> Inl (Mount err)
      | Exited ok _ \<Rightarrow>
          if ok then Inr ()
          else case sy_run sy [''mount'', ''/dev/mapper/'' @ crypt_mapper, storage_mount] of
            NotRun err \<Rightarrow> Inl (Mount err)
          | Exited ok stderr \<Rightarrow> if \<not> ok then Inl (Mount stderr) else Inr ())"

definition store_open :: "ext \<Rightarrow> bincode \<Rightarrow> system \<Rightarrow> (store_error + encrypted_store) exec" where
  "store_open e B sy =
     try_bind (ret (open_crypt_volume sy)) (\<lambda>_.
     try_bind (ret (ensure_mount_point sy)) (\<lambda>_.
     try_bind (ret (mount_volume sy)) (\<lambda>_. do {
     r \<leftarrow> wal_open e B (sy_wal_file sy);
     case r of
       Inl err \<Rightarrow> ret (Inl (StoreWal err))
     | Inr w \<Rightarrow>
         (case wal_replay e B w of
            (Inl err, _) \<Rightarrow> ret (Inl (StoreWal err))
          | (Inr ms, w) \<Rightarrow>
              ret (Inr \<lparr>es_wal = w, es_bitemporal = foldl bitemporal_store_one (bitemporal_new 10000) ms,
                        es_mount_point = storage_mount, es_files = []\<rparr>)) })))"

definition es_store :: "ext \<Rightarrow> bincode \<Rightarrow> u64 \<Rightarrow> encrypted_store \<Rightarrow> message \<Rightarrow> (store_error + unit) \<times> encrypted_store" where
  "es_store e B now st m =
     (case wal_append e B now (es_wal st) m of
        (Inl err, w) \<Rightarrow> (Inl (StoreWal err), st\<lparr>es_wal := w\<rparr>)
      | (Inr _, w) \<Rightarrow> (Inr (), st\<lparr>es_wal := w, es_bitemporal := bitemporal_store_one (es_bitemporal st) m\<rparr>))"

text \<open>The messages of a batch with the time each is stored at; the first error ends the batch.\<close>

fun es_store_batch :: "ext \<Rightarrow> bincode \<Rightarrow> encrypted_store \<Rightarrow> (u64 \<times> message) list \<Rightarrow> (store_error + unit) \<times> encrypted_store" where
  "es_store_batch e B st [] = (Inr (), st)"
| "es_store_batch e B st ((now, m) # rest) =
     (case es_store e B now st m of
        (Inl err, st) \<Rightarrow> (Inl err, st)
      | (Inr _, st) \<Rightarrow> es_store_batch e B st rest)"

definition snapshot_path :: "encrypted_store \<Rightarrow> string \<Rightarrow> string" where
  "snapshot_path st i = es_mount_point st @ ''/snapshots/'' @ i @ ''.bin''"

text \<open>The directory is created when it is missing; \<open>sync\<close> fails only when it cannot be run.\<close>

definition persist_snapshot :: "snapshot_format \<Rightarrow> system \<Rightarrow> encrypted_store \<Rightarrow> snapshot \<Rightarrow> (store_error + unit) \<times> encrypted_store" where
  "persist_snapshot S sy st x =
     (let dir = es_mount_point st @ ''/snapshots'' in
      case (if \<not> sy_exists sy dir then sy_create_dir sy dir else None) of
        Some err \<Rightarrow> (Inl (StoreFileWrite err), st)
      | None \<Rightarrow>
          case sf_serialize S x of
            None \<Rightarrow> (Inl (StoreSerialization []), st)
          | Some data \<Rightarrow>
              let st = st\<lparr>es_files := hm_insert (snapshot_path st (sn_id x)) data (es_files st)\<rparr>
              in case sy_run sy [''sync''] of NotRun err \<Rightarrow> (Inl (StoreSync err), st) | Exited _ _ \<Rightarrow> (Inr (), st))"

definition load_snapshot :: "snapshot_format \<Rightarrow> encrypted_store \<Rightarrow> string \<Rightarrow> store_error + snapshot option" where
  "load_snapshot S st i =
     (case map_of (es_files st) (snapshot_path st i) of
        None \<Rightarrow> Inr None
      | Some data \<Rightarrow> (case sf_deserialize S data of None \<Rightarrow> Inl (StoreDeserialization []) | Some x \<Rightarrow> Inr (Some x)))"

definition es_compact_wal :: "ext \<Rightarrow> bincode \<Rightarrow> u64 \<Rightarrow> (message \<Rightarrow> u64) \<Rightarrow> encrypted_store \<Rightarrow> u64 \<Rightarrow> (store_error + unit) \<times> encrypted_store" where
  "es_compact_wal e B now time_of st retain_ms =
     (case wal_compact e B now time_of retain_ms (es_wal st) of
        (Inl err, w) \<Rightarrow> (Inl (StoreWal err), st\<lparr>es_wal := w\<rparr>)
      | (Inr _, w) \<Rightarrow> (Inr (), st\<lparr>es_wal := w\<rparr>))"

definition es_close :: "system \<Rightarrow> store_error + unit" where
  "es_close sy =
     (case sy_run sy [''umount'', storage_mount] of
        NotRun err \<Rightarrow> Inl (Unmount err)
      | Exited _ _ \<Rightarrow>
          case sy_run sy [''cryptsetup'', ''luksClose'', crypt_mapper] of
            NotRun err \<Rightarrow> Inl (CryptSetup err)
          | Exited ok stderr \<Rightarrow> if \<not> ok then Inl (CryptSetup stderr) else Inr ())"

text \<open>
  The configuration partition: the passphrase is written to the started process, with the error
  of that write as an argument, and the exit status of the process is never looked at.
\<close>

definition config_mapper :: string where
  "config_mapper = ''encrypted_config''"

definition open_config_partition :: "system \<Rightarrow> string option \<Rightarrow> store_error + unit" where
  "open_config_partition sy pipe =
     (if sy_exists sy (''/dev/mapper/'' @ config_mapper) then Inr ()
      else case sy_run sy [''cryptsetup'', ''open'', ''--type'', ''plain'', ''--key-file'', ''-'', nvme_device, config_mapper,
                           ''--offset=488384000''] of
        NotRun err \<Rightarrow> Inl (CryptSetup err)
      | Exited _ _ \<Rightarrow> (case pipe of Some err \<Rightarrow> Inl (CryptSetup err) | None \<Rightarrow> Inr ()))"

text \<open>
  The log entries of messages stored one after the other, each with the time it is stored at: every
  attempt uses up a sequence number, also when the entry cannot be serialized.
\<close>

fun numbered_entries :: "u64 \<Rightarrow> (u64 \<times> message) list \<Rightarrow> wal_entry list" where
  "numbered_entries sq [] = []"
| "numbered_entries sq ((now, m) # rest) = wal_entry_new now (sq + 1) m # numbered_entries (sq + 1) rest"

definition serializable :: "bincode \<Rightarrow> wal_entry \<Rightarrow> bool" where
  "serializable B x \<longleftrightarrow> bc_serialize B x \<noteq> None"

section \<open>Properties\<close>

text \<open>As the log cannot be opened, neither can the store, whatever the commands answer.\<close>

lemma store_open_never_succeeds: "store_open e B sy \<noteq> ret (Inr st)"
proof -
  have "wal_open e B c \<noteq> ret (Inr w)" for c w using wal_open_fails by blast
  then show ?thesis
    by (auto simp: store_open_def try_bind_Inr_iff bind_eq_Some_conv split: sum.splits)
qed

lemma config_partition_unchecked:
  "sy_run sy = (\<lambda>c. Exited False err) \<Longrightarrow> open_config_partition sy None = Inr ()"
  by (simp add: open_config_partition_def)

lemma persist_load:
  assumes "snapshot_format_law S" and "persist_snapshot S sy st x = (Inr (), st')"
  shows "load_snapshot S st' (sn_id x) = Inr (Some x)"
    and "i \<noteq> sn_id x \<Longrightarrow> load_snapshot S st' i = load_snapshot S st i"
  using assms
  by (auto simp: persist_snapshot_def load_snapshot_def snapshot_path_def snapshot_format_law_def Let_def
      split: option.splits cmd_outcome.splits if_splits)

text \<open>Storing one message: the log grows by its entry, or nothing but the sequence number changes.\<close>

lemma es_store_step:
  assumes "es_store e B now st m = (r, st')" and "x = wal_entry_new now (w_sequence (es_wal st) + 1) m"
  shows "w_sequence (es_wal st') = w_sequence (es_wal st) + 1"
    and "wf_data (w_file (es_wal st')) = wf_data (w_file (es_wal st)) @ (if serializable B x then entry_frame e B x else [])"
    and "es_bitemporal st' = (if serializable B x then bitemporal_store_one (es_bitemporal st) m else es_bitemporal st)"
    and "r = (if serializable B x then Inr () else Inl (StoreWal Serialization))"
    and "serializable B x \<Longrightarrow> at_end (es_wal st')" and "at_end (es_wal st) \<Longrightarrow> at_end (es_wal st')"
proof -
  have "w_sequence (es_wal st') = w_sequence (es_wal st) + 1 \<and>
    wf_data (w_file (es_wal st')) = wf_data (w_file (es_wal st)) @ (if serializable B x then entry_frame e B x else []) \<and>
    es_bitemporal st' = (if serializable B x then bitemporal_store_one (es_bitemporal st) m else es_bitemporal st) \<and>
    r = (if serializable B x then Inr () else Inl (StoreWal Serialization)) \<and>
    (serializable B x \<or> at_end (es_wal st) \<longrightarrow> at_end (es_wal st'))"
  proof (cases "bc_serialize B x")
    case None
    then show ?thesis using assms by (auto simp: es_store_def wal_append_def serializable_def at_end_def Let_def)
  next
    case (Some d)
    then show ?thesis using assms by (auto simp: es_store_def wal_append_data serializable_def entry_frame_def at_end_def)
  qed
  then show "w_sequence (es_wal st') = w_sequence (es_wal st) + 1"
    "wf_data (w_file (es_wal st')) = wf_data (w_file (es_wal st)) @ (if serializable B x then entry_frame e B x else [])"
    "es_bitemporal st' = (if serializable B x then bitemporal_store_one (es_bitemporal st) m else es_bitemporal st)"
    "r = (if serializable B x then Inr () else Inl (StoreWal Serialization))"
    "serializable B x \<Longrightarrow> at_end (es_wal st')" "at_end (es_wal st) \<Longrightarrow> at_end (es_wal st')" by blast+
qed

lemma store_batch_steps:
  "es_store_batch e B st batch = (r, st') \<Longrightarrow>
   stored = takeWhile (serializable B) (numbered_entries (w_sequence (es_wal st)) batch) \<Longrightarrow>
   wf_data (w_file (es_wal st')) = wf_data (w_file (es_wal st)) @ log_of e B stored \<and>
   es_bitemporal st' = foldl bitemporal_store_one (es_bitemporal st) (map we_message stored) \<and>
   r = (if length stored = length batch then Inr () else Inl (StoreWal Serialization)) \<and>
   (stored \<noteq> [] \<or> at_end (es_wal st) \<longrightarrow> at_end (es_wal st'))"
proof (induction batch arbitrary: st stored)
  case Nil
  then show ?case by (simp add: log_of_def)
next
  case (Cons p rest)
  obtain now m where p: "p = (now, m)" by fastforce
  let ?x = "wal_entry_new now (w_sequence (es_wal st) + 1) m"
  obtain r1 st1 where s1: "es_store e B now st m = (r1, st1)" by fastforce
  note one = es_store_step [OF s1 refl]
  show ?case
  proof (cases "serializable B ?x")
    case True
    let ?rest = "takeWhile (serializable B) (numbered_entries (w_sequence (es_wal st1)) rest)"
    have "es_store_batch e B st1 rest = (r, st')" using Cons.prems(1) s1 one(4) True by (simp add: p)
    note IH = Cons.IH [OF this refl]
    have "stored = ?x # ?rest" "we_message ?x = m" using Cons.prems(2) True by (simp_all add: p one(1), simp add: wal_entry_new_def)
    with IH one True show ?thesis by (simp add: log_of_def)
  next
    case False
    then show ?thesis using Cons.prems s1 one by (auto simp: p log_of_def)
  qed
qed

text \<open>
  C22. Storing a batch. The messages are numbered on from the sequence number of the log. Those
  before the first that cannot be serialized are stored, in order: the file is extended by exactly
  their entries, which the entry loop of the log reads back (entries of up to four gibibytes), and
  the memory takes exactly their messages. The call reports success if these are all, and a
  serialization error otherwise. But once an entry was written, replaying the log of the open
  store fails.
\<close>

theorem store_batch_exact:
  assumes "es_store_batch e B st batch = (r, st')"
    and "stored = takeWhile (serializable B) (numbered_entries (w_sequence (es_wal st)) batch)"
  shows "wf_data (w_file (es_wal st')) = wf_data (w_file (es_wal st)) @ log_of e B stored \<and>
    (bincode_law B \<and> list_all (entry_fits B) stored \<longrightarrow> replay_entries e B (log_of e B stored) = Inr (map we_message stored)) \<and>
    es_bitemporal st' = foldl bitemporal_store_one (es_bitemporal st) (map we_message stored) \<and>
    r = (if length stored = length batch then Inr () else Inl (StoreWal Serialization)) \<and>
    (stored \<noteq> [] \<longrightarrow> wal_replay e B (es_wal st') = (Inl FileRead, es_wal st'))"
  using store_batch_steps [OF assms] at_end_fails(1) replay_log_append [of B stored e "[]"] by auto

theorem store_batch_exact_witness:
  "\<exists>B st st'. es_store_batch ref_ext B st [(9, message_new 5 VSAT [1] Operational), (9, message_new 6 VSAT [2] Operational)] =
       (Inl (StoreWal Serialization), st') \<and>
     replay_entries ref_ext B (drop 18 (wf_data (w_file (es_wal st')))) = Inr [message_new 5 VSAT [1] Operational] \<and>
     wal_replay ref_ext B (es_wal st') = (Inl FileRead, es_wal st')"
proof -
  let ?m = "message_new 5 VSAT [1] Operational" and ?n = "message_new 6 VSAT [2] Operational"
  let ?x = "wal_entry_new 9 1 (message_new 5 VSAT [1] Operational)"
  let ?h = "wal_header_to_bytes (wal_header_new 0)"
  define B where "B = \<lparr>bc_serialize = (\<lambda>x. if x = ?x then Some [7] else None), bc_deserialize = (\<lambda>d. if d = [7] then Some ?x else None)\<rparr>"
  define st where "st = \<lparr>es_wal = \<lparr>w_file = \<lparr>wf_data = ?h, wf_pos = 18\<rparr>, w_sequence = 0\<rparr>,
     es_bitemporal = bitemporal_new 10000, es_mount_point = storage_mount, es_files = []\<rparr>"
  obtain r st' where r: "es_store_batch ref_ext B st [(9, ?m), (9, ?n)] = (r, st')" by fastforce
  have x: "[?x] = takeWhile (serializable B) (numbered_entries (w_sequence (es_wal st)) [(9, ?m), (9, ?n)])"
    by (simp add: st_def B_def serializable_def wal_entry_new_def)
  have B: "bincode_law B" "list_all (entry_fits B) [?x]" by (auto simp: B_def bincode_law_def entry_fits_def)
  have m: "map we_message [?x] = [?m]" and st: "wf_data (w_file (es_wal st)) = ?h" by (simp_all add: wal_entry_new_def st_def)
  have "r = Inl (StoreWal Serialization) \<and> wf_data (w_file (es_wal st')) = ?h @ log_of ref_ext B [?x] \<and>
      replay_entries ref_ext B (log_of ref_ext B [?x]) = Inr [?m] \<and> wal_replay ref_ext B (es_wal st') = (Inl FileRead, es_wal st')"
    using store_batch_exact [OF r x] B unfolding m st by simp
  with r show ?thesis by (intro exI [of _ B] exI [of _ st] exI [of _ st']) (simp add: header_bytes)
qed

end
