(* ===== verification/Sensors.thy ===== *)
theory Sensors
  imports Protocol Checksum Bus
begin

text \<open>
  \<open>src/src/sensor\<close>: the RS-232, RS-485 and CAN readers. The serial port and the CAN socket
  are streams of read outcomes; a reader turns them into messages for the gateway. The two error
  enumerations of the serial readers are one datatype, and the texts of port errors are kept. What
  the port, the pin and the socket answer when they are opened are arguments.
\<close>

unbundle bit_operations_syntax

section \<open>Checksums\<close>

text \<open>One bit and one byte of the reflected CRC-16 with polynomial \<open>0xA001\<close>.\<close>

definition modbus_bit :: "u16 \<Rightarrow> u16" where
  "modbus_bit crc = (if crc AND 1 \<noteq> 0 then drop_bit 1 crc XOR 0xA001 else drop_bit 1 crc)"

definition modbus_byte :: "u16 \<Rightarrow> u8 \<Rightarrow> u16" where
  "modbus_byte crc b = (modbus_bit ^^ 8) (crc XOR ucast b)"

definition compute_modbus_crc :: "bytes \<Rightarrow> u16" where
  "compute_modbus_crc d = foldl modbus_byte 0xFFFF d"

text \<open>The checksum of Micro-Link frames is the same computation.\<close>

definition compute_crc16 :: "bytes \<Rightarrow> u16" where
  "compute_crc16 d = foldl modbus_byte 0xFFFF d"

definition xor_checksum :: "bytes \<Rightarrow> u8" where
  "xor_checksum d = foldl (\<lambda>a b. a XOR b) 0 d"

section \<open>RS-232\<close>

datatype serial_error =
  SerialInit string | SerialRead string | SerialWrite string | GpioInit string | InvalidFrame | CrcMismatch

definition parse_carrier_micro_link :: "u64 \<Rightarrow> bytes \<Rightarrow> (serial_error + message) exec" where
  "parse_carrier_micro_link now d =
     (if length d < 5 then ret (Inl InvalidFrame)
      else do {
        header \<leftarrow> slice d 0 2;
        if header \<noteq> bytes_of ''CM'' then ret (Inl InvalidFrame)
        else do {
          len \<leftarrow> u16_at d 2;
          let n = unat len;
          if length d < 5 + n + 2 then ret (Inl InvalidFrame)
          else do {
            frame_type \<leftarrow> idx d 4;
            payload \<leftarrow> slice d 5 (5 + n);
            crc \<leftarrow> u16_at d (5 + n);
            body \<leftarrow> slice d 0 (5 + n);
            if compute_crc16 body \<noteq> crc then ret (Inl CrcMismatch)
            else ret (Inr (message_new now IridiumSBD (frame_type # payload) Operational)) } } })"

definition parse_thermo_king :: "u64 \<Rightarrow> bytes \<Rightarrow> (serial_error + message) exec" where
  "parse_thermo_king now d =
     (if length d < 5 then ret (Inl InvalidFrame)
      else do {
        stx \<leftarrow> idx d 0;
        etx \<leftarrow> idx d (length d - 2);
        if stx \<noteq> 0x02 \<or> etx \<noteq> 0x03 then ret (Inl InvalidFrame)
        else do {
          addr \<leftarrow> idx d 1;
          cmd \<leftarrow> idx d 2;
          payload \<leftarrow> slice d 3 (length d - 2);
          crc \<leftarrow> idx d (length d - 1);
          body \<leftarrow> slice d 1 (length d - 1);
          if xor_checksum body \<noteq> crc then ret (Inl CrcMismatch)
          else ret (Inr (message_new now IridiumSBD (addr # cmd # payload) Operational)) } })"

definition parse_modbus_rtu :: "u64 \<Rightarrow> bytes \<Rightarrow> (serial_error + message) exec" where
  "parse_modbus_rtu now d =
     (if length d < 4 then ret (Inl InvalidFrame)
      else do {
        addr \<leftarrow> idx d 0;
        func \<leftarrow> idx d 1;
        payload \<leftarrow> slice d 2 (length d - 2);
        trailer \<leftarrow> slice d (length d - 2) (length d);
        body \<leftarrow> slice d 0 (length d - 2);
        if compute_modbus_crc body \<noteq> u16_from_le trailer then ret (Inl CrcMismatch)
        else ret (Inr (message_new now IridiumSBD (addr # func # payload) Operational)) })"

text \<open>The error of opening the port is an argument.\<close>

definition rs232_new :: "string option \<Rightarrow> serial_error + unit" where
  "rs232_new port = (case port of Some err \<Rightarrow> Inl (SerialInit err) | None \<Rightarrow> Inr ())"

text \<open>The outcome of a read on the port.\<close>

datatype read_outcome = ReadData bytes | ReadTimedOut | ReadFailed string

text \<open>What one received chunk is turned into: the first parser that accepts it.\<close>

definition rs232_dispatch :: "u64 \<Rightarrow> bytes \<Rightarrow> message option exec" where
  "rs232_dispatch now d = do {
     r \<leftarrow> parse_carrier_micro_link now d;
     case r of Inr m \<Rightarrow> ret (Some m) | Inl _ \<Rightarrow> do {
     r \<leftarrow> parse_thermo_king now d;
     case r of Inr m \<Rightarrow> ret (Some m) | Inl _ \<Rightarrow> do {
     r \<leftarrow> parse_modbus_rtu now d;
     case r of Inr m \<Rightarrow> ret (Some m) | Inl _ \<Rightarrow> ret None } } }"

text \<open>The messages sent over a sequence of reads, and the error that ended the loop, if any.\<close>

fun rs232_run :: "(u64 \<times> read_outcome) list \<Rightarrow> (message list \<times> serial_error option) exec" where
  "rs232_run [] = ret ([], None)"
| "rs232_run ((now, ReadData d) # rest) =
     (if d = [] then rs232_run rest
      else do {
        m \<leftarrow> rs232_dispatch now d;
        (ms, err) \<leftarrow> rs232_run rest;
        ret (case m of Some m \<Rightarrow> m # ms | None \<Rightarrow> ms, err) })"
| "rs232_run ((now, ReadTimedOut) # rest) = rs232_run rest"
| "rs232_run ((now, ReadFailed e) # rest) = ret ([], Some (SerialRead e))"

section \<open>RS-485\<close>

text \<open>The level of the direction pin and the bytes written to the port.\<close>

record rs485_reader =
  rs_de_re :: bool
  rs_written :: bytes

definition rs485_de_re_pin :: u8 where "rs485_de_re_pin = 5"

definition rs485_new :: "string option \<Rightarrow> gpio \<Rightarrow> u8 list \<Rightarrow> serial_error + rs485_reader \<times> u8 list" where
  "rs485_new port G used =
     (case port of
        Some err \<Rightarrow> Inl (SerialInit err)
      | None \<Rightarrow>
          case open_pins G used [rs485_de_re_pin] of
            Inl err \<Rightarrow> Inl (GpioInit err)
          | Inr used \<Rightarrow> Inr (\<lparr>rs_de_re = False, rs_written = []\<rparr>, used))"

text \<open>The reader has a parser and a checksum of its own.\<close>

definition rs485_compute_modbus_crc :: "bytes \<Rightarrow> u16" where
  "rs485_compute_modbus_crc d = foldl modbus_byte 0xFFFF d"

definition rs485_parse_modbus_rtu :: "u64 \<Rightarrow> bytes \<Rightarrow> (serial_error + message) exec" where
  "rs485_parse_modbus_rtu now d =
     (if length d < 4 then ret (Inl InvalidFrame)
      else do {
        addr \<leftarrow> idx d 0;
        func \<leftarrow> idx d 1;
        payload \<leftarrow> slice d 2 (length d - 2);
        trailer \<leftarrow> slice d (length d - 2) (length d);
        body \<leftarrow> slice d 0 (length d - 2);
        if rs485_compute_modbus_crc body \<noteq> u16_from_le trailer then ret (Inl CrcMismatch)
        else ret (Inr (message_new now IridiumSBD (addr # func # payload) Operational)) })"

definition modbus_frame :: "u8 \<Rightarrow> u8 \<Rightarrow> bytes \<Rightarrow> bytes" where
  "modbus_frame addr func d =
     (let frame = addr # func # d in frame @ u16_to_le (rs485_compute_modbus_crc frame))"

definition send_modbus_request :: "(bytes \<Rightarrow> string option) \<Rightarrow> u8 \<Rightarrow> u8 \<Rightarrow> bytes \<Rightarrow> rs485_reader \<Rightarrow>
    (serial_error + unit) \<times> rs485_reader" where
  "send_modbus_request port addr func d r =
     (let r = r\<lparr>rs_de_re := True\<rparr>;
          frame = modbus_frame addr func d
      in case port frame of
           Some err \<Rightarrow> (Inl (SerialWrite err), r)
         | None \<Rightarrow> (Inr (), r\<lparr>rs_written := rs_written r @ frame, rs_de_re := False\<rparr>))"

definition receive_mode :: "rs485_reader \<Rightarrow> rs485_reader" where
  "receive_mode r = r\<lparr>rs_de_re := False\<rparr>"

fun rs485_run :: "(u64 \<times> read_outcome) list \<Rightarrow> rs485_reader \<Rightarrow>
    (rs485_reader \<times> message list \<times> serial_error option) exec" where
  "rs485_run [] r = ret (r, [], None)"
| "rs485_run ((now, ReadData d) # rest) r =
     (if d = [] then rs485_run rest (receive_mode r)
      else do {
        res \<leftarrow> rs485_parse_modbus_rtu now d;
        (r, ms, err) \<leftarrow> rs485_run rest (receive_mode r);
        ret (r, case res of Inr m \<Rightarrow> m # ms | Inl _ \<Rightarrow> ms, err) })"
| "rs485_run ((now, ReadTimedOut) # rest) r = rs485_run rest (receive_mode r)"
| "rs485_run ((now, ReadFailed e) # rest) r = ret (receive_mode r, [], Some (SerialRead e))"

section \<open>CAN\<close>

record can_frame =
  cf_id :: u32
  cf_data :: bytes

datatype can_error =
  SocketOpen string | SocketConfig string | SocketRead string | SocketWrite string | FrameBuild string

text \<open>The errors of opening the socket and of setting the filter are arguments.\<close>

definition can_new :: "string option \<Rightarrow> string option \<Rightarrow> can_error + unit" where
  "can_new socket filters =
     (case socket of
        Some err \<Rightarrow> Inl (SocketOpen err)
      | None \<Rightarrow> (case filters of Some err \<Rightarrow> Inl (SocketConfig err) | None \<Rightarrow> Inr ()))"

text \<open>
  The filter the reader sets, an identifier and a mask: the socket passes on a frame when its
  identifier agrees with that of the filter on the bits of the mask.
\<close>

definition can_filter :: "u32 \<times> u32" where
  "can_filter = (0x000, 0x7FF)"

definition filter_passes :: "u32 \<times> u32 \<Rightarrow> can_frame \<Rightarrow> bool" where
  "filter_passes flt f = (case flt of (i, bits) \<Rightarrow> cf_id f AND bits = i AND bits)"

text \<open>Building a frame and writing it to the socket are arguments; the frames written are the state.\<close>

definition send_frame :: "(u32 \<Rightarrow> bytes \<Rightarrow> string + can_frame) \<Rightarrow> (can_frame \<Rightarrow> string option) \<Rightarrow> u32 \<Rightarrow> bytes \<Rightarrow>
    can_frame list \<Rightarrow> (can_error + unit) \<times> can_frame list" where
  "send_frame build put can_id d sent =
     (case build can_id d of
        Inl err \<Rightarrow> (Inl (FrameBuild err), sent)
      | Inr f \<Rightarrow> (case put f of Some err \<Rightarrow> (Inl (SocketWrite err), sent) | None \<Rightarrow> (Inr (), sent @ [f])))"

definition parse_j1939 :: "u64 \<Rightarrow> can_frame \<Rightarrow> can_error + message" where
  "parse_j1939 now f =
     (let can_id = cf_id f;
          priority = drop_bit 26 can_id AND 0x07;
          pgn = drop_bit 8 can_id AND 0x03FFFF;
          source = can_id AND 0xFF
      in Inr (message_new now IridiumSBD
           (u32_to_be priority @ u32_to_be pgn @ [ucast source] @ cf_data f) Operational))"

definition parse_canopen :: "u64 \<Rightarrow> can_frame \<Rightarrow> can_error + message" where
  "parse_canopen now f =
     (let can_id = cf_id f;
          function_code = drop_bit 7 can_id AND 0x0F;
          node_id = can_id AND 0x7F
      in Inr (message_new now IridiumSBD ([ucast function_code, ucast node_id] @ cf_data f) Operational))"

definition parse_raw :: "u64 \<Rightarrow> can_frame \<Rightarrow> message" where
  "parse_raw now f = message_new now IridiumSBD (u32_to_be (cf_id f) @ cf_data f) Operational"

definition can_dispatch :: "u64 \<Rightarrow> can_frame \<Rightarrow> message" where
  "can_dispatch now f =
     (case parse_j1939 now f of
        Inr m \<Rightarrow> m
      | Inl _ \<Rightarrow> (case parse_canopen now f of Inr m \<Rightarrow> m | Inl _ \<Rightarrow> parse_raw now f))"

text \<open>The outcome of a read on the socket, and the messages of a sequence of reads.\<close>

datatype can_read = CanFrame can_frame | CanWouldBlock | CanFailed string

fun can_run :: "(u64 \<times> can_read) list \<Rightarrow> message list \<times> can_error option" where
  "can_run [] = ([], None)"
| "can_run ((now, CanFrame f) # rest) = (let (ms, err) = can_run rest in (can_dispatch now f # ms, err))"
| "can_run ((now, CanWouldBlock) # rest) = can_run rest"
| "can_run ((now, CanFailed e) # rest) = ([], Some (SocketRead e))"

section \<open>Error detection of the checksum\<close>

lemma modbus_bit_feedback: "modbus_bit = feedback_right 0xA001"
proof
  fix x :: u16
  have "x AND 1 \<noteq> 0 \<longleftrightarrow> bit x 0" by (simp add: and_one_eq bit_0 odd_iff_mod_2_eq_one)
  then show "modbus_bit x = feedback_right 0xA001 x" unfolding modbus_bit_def feedback_right_def by (simp only: simp_thms)
qed

lemma modbus_bits_inj: "(modbus_bit ^^ n) x = (modbus_bit ^^ n) y \<longleftrightarrow> x = y"
  by (rule funpow_inj) (simp add: modbus_bit_feedback feedback_right_inj)

interpretation modbus_sum: byte_checksum modbus_byte
  by unfold_locales (simp_all add: modbus_byte_def modbus_bits_inj xor_cancel ucast_u8_inj)

section \<open>Parsers\<close>

text \<open>The two Modbus parsers are the same function.\<close>

lemma rs485_modbus_eq [simp]:
  "rs485_compute_modbus_crc = compute_modbus_crc" "rs485_parse_modbus_rtu = parse_modbus_rtu"
  by (simp_all add: fun_eq_iff rs485_compute_modbus_crc_def compute_modbus_crc_def rs485_parse_modbus_rtu_def parse_modbus_rtu_def)

lemma modbus_parse_eq:
  "parse_modbus_rtu now d = ret
     (if length d < 4 then Inl InvalidFrame
      else if compute_modbus_crc (take (length d - 2) d) \<noteq> u16_from_le (drop (length d - 2) d) then Inl CrcMismatch
      else Inr (message_new now IridiumSBD (take (length d - 2) d) Operational))"
proof (cases "length d < 4")
  case False
  then have "idx d 0 = ret (d ! 0)" "idx d 1 = ret (d ! 1)" by (auto simp: idx_def)
  moreover have "d ! 0 # d ! 1 # take (length d - 4) (drop 2 d) = take (length d - 2) d"
  proof -
    obtain a b t where d: "d = a # b # t" using False by (cases d; cases "tl d") auto
    then obtain k where "length t = 2 + k" using False le_Suc_ex [of 2 "length t"] by auto
    with d show ?thesis by simp
  qed
  ultimately show ?thesis using False
    by (simp add: parse_modbus_rtu_def slice_def Let_def numeral_eq_Suc)
qed (simp add: parse_modbus_rtu_def)

lemma modbus_frame_parts:
  "length (modbus_frame a f p) = 4 + length p"
  "take (length (modbus_frame a f p) - 2) (modbus_frame a f p) = a # f # p"
  "drop (length (modbus_frame a f p) - 2) (modbus_frame a f p) = u16_to_le (compute_modbus_crc (a # f # p))"
  by (simp_all add: modbus_frame_def Let_def)

lemma modbus_frame_parsed:
  "parse_modbus_rtu now (modbus_frame a f p) = ret (Inr (message_new now IridiumSBD (a # f # p) Operational))"
  using modbus_frame_parts [of a f p] by (simp only: modbus_parse_eq) simp

lemma carrier_parse_eq:
  "parse_carrier_micro_link now d = ret
     (let n = unat (u16_from_be (take 2 (drop 2 d))) in
      if length d < 5 \<or> take 2 d \<noteq> bytes_of ''CM'' \<or> length d < 5 + n + 2 then Inl InvalidFrame
      else if compute_crc16 (take (5 + n) d) \<noteq> u16_from_be (take 2 (drop (5 + n) d)) then Inl CrcMismatch
      else Inr (message_new now IridiumSBD (d ! 4 # take n (drop 5 d)) Operational))"
  by (auto simp: parse_carrier_micro_link_def panic_simps Let_def)

lemma thermo_parse_eq:
  "parse_thermo_king now d = ret
     (if length d < 5 \<or> d ! 0 \<noteq> 2 \<or> d ! (length d - 2) \<noteq> 3 then Inl InvalidFrame
      else if xor_checksum (take (length d - 2) (drop 1 d)) \<noteq> d ! (length d - 1) then Inl CrcMismatch
      else Inr (message_new now IridiumSBD (d ! 1 # d ! 2 # take (length d - 5) (drop 3 d)) Operational))"
  by (auto simp: parse_thermo_king_def idx_def slice_def Let_def numeral_2_eq_2)

text \<open>What the readers pass on.\<close>

definition reading :: "message \<Rightarrow> bool" where
  "reading m \<longleftrightarrow> m_protocol m = IridiumSBD \<and> m_priority m = Operational \<and> within_limit m"

lemma reading_new [simp]: "reading (message_new now IridiumSBD d Operational)"
  by (simp add: reading_def)

lemma rs232_dispatch_kind:
  "rs232_dispatch now d = ret (Some m) \<Longrightarrow> reading m"
  by (auto simp: rs232_dispatch_def carrier_parse_eq thermo_parse_eq modbus_parse_eq Let_def
      split: sum.splits if_splits)

lemma rs232_messages:
  "rs232_run reads = ret (ms, err) \<Longrightarrow> list_all reading ms"
  by (induction reads arbitrary: ms err rule: rs232_run.induct)
     (auto simp: bind_eq_Some_conv dest!: rs232_dispatch_kind split: if_splits option.splits)

lemma rs485_messages:
  "rs485_run reads r = ret (r', ms, err) \<Longrightarrow> list_all reading ms"
  by (induction reads r arbitrary: r' ms err rule: rs485_run.induct)
     (auto simp: modbus_parse_eq bind_eq_Some_conv split: if_splits sum.splits)

lemma can_messages:
  "can_run reads = (ms, err) \<Longrightarrow> list_all reading ms"
  by (induction reads arbitrary: ms err rule: can_run.induct)
     (auto simp: can_dispatch_def parse_j1939_def Let_def split: prod.splits)

text \<open>The readers never panic, whatever arrives; a failed read ends them, everything before it is kept.\<close>

lemma rs232_never_panics: "rs232_run reads \<noteq> panic"
  by (induction reads rule: rs232_run.induct)
     (auto simp: rs232_dispatch_def carrier_parse_eq thermo_parse_eq modbus_parse_eq split: sum.splits)

lemma rs485_never_panics: "rs485_run reads r \<noteq> panic"
  by (induction reads r rule: rs485_run.induct) (auto simp: modbus_parse_eq)

text \<open>After any read the transceiver listens again, whatever state a request left it in.\<close>

lemma receive_mode_idem [simp]: "receive_mode (receive_mode r) = receive_mode r"
  by (simp add: receive_mode_def)

lemma rs485_listens:
  "rs485_run reads r = ret (r', ms, err) \<Longrightarrow> r' = (if reads = [] then r else receive_mode r)"
proof (induction reads arbitrary: r r' ms err)
  case (Cons x rest)
  obtain now o' where x: "x = (now, o')" by fastforce
  show ?case using Cons.prems Cons.IH [of "receive_mode r"]
    by (cases o') (fastforce simp: x bind_eq_Some_conv split: if_splits)+
qed simp

text \<open>A failed write leaves the transceiver driving the line.\<close>

lemma write_error_keeps_driving:
  "port (modbus_frame addr func d) = Some err \<Longrightarrow>
   send_modbus_request port addr func d r = (Inl (SerialWrite err), r\<lparr>rs_de_re := True\<rparr>)"
  by (simp add: send_modbus_request_def Let_def)

text \<open>
  The J1939 parser accepts every frame, so that CANopen and raw frames are never recognised; the
  identifier can still be recovered from the message.
\<close>

lemma can_always_j1939: "can_dispatch now f = message_new now IridiumSBD
    (u32_to_be (drop_bit 26 (cf_id f) AND 0x07) @ u32_to_be (drop_bit 8 (cf_id f) AND 0x03FFFF) @
     [ucast (cf_id f AND 0xFF)] @ cf_data f) Operational"
  by (simp add: can_dispatch_def parse_j1939_def Let_def)

text \<open>
  The filter that is meant to accept everything passes only identifiers whose low eleven bits are
  zero, so that every J1939 source address that arrives is zero.
\<close>

lemma can_filter_drops:
  assumes "filter_passes can_filter f"
  shows "cf_id f AND 0xFF = 0"
proof -
  have "cf_id f AND 0xFF = (cf_id f AND 0x7FF) AND 0xFF" by (simp add: and.assoc)
  also have "\<dots> = 0" using assms by (simp add: filter_passes_def can_filter_def)
  finally show ?thesis .
qed

text \<open>
  C23. Modbus over RS-485: a request written by one unit is accepted by the parser of another and
  delivers address, function and data; and a frame in
  which any one byte was changed on the wire is rejected with a checksum error. Parsing never
  panics.
\<close>

theorem modbus_wire:
  assumes "i < length (modbus_frame a f p)" and "c \<noteq> modbus_frame a f p ! i"
  shows "rs485_parse_modbus_rtu now (modbus_frame a f p) = ret (Inr (message_new now IridiumSBD (a # f # p) Operational)) \<and>
    rs485_parse_modbus_rtu now ((modbus_frame a f p)[i := c]) = ret (Inl CrcMismatch) \<and> rs485_parse_modbus_rtu now d \<noteq> panic"
proof -
  have f: "modbus_frame a f p = (a # f # p) @ u16_to_le (compute_modbus_crc (a # f # p))" by (simp add: modbus_frame_def Let_def)
  have "compute_modbus_crc (take (length (a # f # p)) ((modbus_frame a f p)[i := c])) \<noteq>
      u16_from_le (drop (length (a # f # p)) ((modbus_frame a f p)[i := c]))"
    using assms unfolding f compute_modbus_crc_def
    by (intro modbus_sum.corrupt_detected) (simp_all, metis to_from_le16)
  then show ?thesis using modbus_frame_parts [of a f p] by (simp add: modbus_parse_eq)
qed

theorem modbus_wire_witness:
  "rs485_parse_modbus_rtu 0 (modbus_frame 1 3 [0, 10]) = ret (Inr (message_new 0 IridiumSBD [1, 3, 0, 10] Operational)) \<and>
   rs485_parse_modbus_rtu 0 ((modbus_frame 1 3 [0, 10])[3 := 11]) = ret (Inl CrcMismatch)"
  using modbus_wire [of 3 1 3 "[0, 10]" 11 0] by (simp add: modbus_frame_parts(1)) (simp add: modbus_frame_def Let_def)

end
