(* ===== verification/Radio.thy ===== *)
theory Radio
  imports Bus
begin

unbundle bit_operations_syntax

text \<open>
  \<open>src/src/hardware/lr1121.rs\<close>: the driver of the LoRa transceiver on the SPI bus, with its chip
  select, interrupt and reset pins. The transceiver is the device parameter of the bus. The driver
  in \<open>src/src/hardware/sx1262.rs\<close> is the same code under other names.
\<close>

section \<open>Configuration\<close>

datatype spreading_factor = SF5 | SF6 | SF7 | SF8 | SF9 | SF10 | SF11 | SF12
datatype bandwidth = BW125 | BW250 | BW500
datatype coding_rate = CR4_5 | CR4_6 | CR4_7 | CR4_8
datatype header_type = ExplicitHeader | ImplicitHeader
datatype crc_mode = CrcEnabled | CrcDisabled
datatype iq_mode = IqStandard | IqInverted

fun sf_byte :: "spreading_factor \<Rightarrow> u8" where
  "sf_byte SF5 = 0x05" | "sf_byte SF6 = 0x06" | "sf_byte SF7 = 0x07" | "sf_byte SF8 = 0x08"
| "sf_byte SF9 = 0x09" | "sf_byte SF10 = 0x0A" | "sf_byte SF11 = 0x0B" | "sf_byte SF12 = 0x0C"

fun bw_byte :: "bandwidth \<Rightarrow> u8" where
  "bw_byte BW125 = 0x00" | "bw_byte BW250 = 0x01" | "bw_byte BW500 = 0x02"

fun cr_byte :: "coding_rate \<Rightarrow> u8" where
  "cr_byte CR4_5 = 0x01" | "cr_byte CR4_6 = 0x02" | "cr_byte CR4_7 = 0x03" | "cr_byte CR4_8 = 0x04"

fun header_byte :: "header_type \<Rightarrow> u8" where
  "header_byte ExplicitHeader = 0x00" | "header_byte ImplicitHeader = 0x01"

fun crc_byte :: "crc_mode \<Rightarrow> u8" where
  "crc_byte CrcEnabled = 0x01" | "crc_byte CrcDisabled = 0x00"

fun iq_byte :: "iq_mode \<Rightarrow> u8" where
  "iq_byte IqStandard = 0x00" | "iq_byte IqInverted = 0x01"

record lora_config =
  lc_frequency :: u32
  lc_bandwidth :: bandwidth
  lc_spreading_factor :: spreading_factor
  lc_coding_rate :: coding_rate
  lc_header_type :: header_type
  lc_crc :: crc_mode
  lc_iq_mode :: iq_mode
  lc_preamble_length :: u16
  lc_tx_power :: u8

definition lora_config_default :: lora_config where
  "lora_config_default =
     \<lparr>lc_frequency = 915000000, lc_bandwidth = BW125, lc_spreading_factor = SF7, lc_coding_rate = CR4_5,
      lc_header_type = ExplicitHeader, lc_crc = CrcEnabled, lc_iq_mode = IqStandard,
      lc_preamble_length = 8, lc_tx_power = 14\<rparr>"

record lora_frame =
  lf_data :: bytes
  lf_rssi :: i16
  lf_snr :: u8
  lf_frequency_error :: u32

datatype lr1121_error =
  LrSpiInit string | LrSpiWrite string | LrSpiRead string | LrGpioInit string | LrTimeout | LrInvalidResponse

section \<open>Registers and commands\<close>

datatype opcode =
  OpWriteRegister | OpReadRegister | OpWriteBuffer | OpReadBuffer | OpSetSleep | OpSetStandby | OpSetFs
  | OpSetTx | OpSetRx | OpStopTimerOnPreamble | OpSetRxDutyCycle | OpSetCad | OpSetTxContinuousWave
  | OpSetTxContinuousPreamble | OpSetPacketType | OpGetIrqStatus | OpClearIrqStatus | OpSetRfFrequency
  | OpSetTxParams | OpSetCadParams | OpSetBufferBaseAddress | OpSetModulationParams | OpSetPacketParams
  | OpGetStatus | OpGetPacketType | OpGetRxBufferGain | OpSetLoraSymbTimeout

fun opcode_byte :: "opcode \<Rightarrow> u8" where
  "opcode_byte OpWriteRegister = 0x0D" | "opcode_byte OpReadRegister = 0x1D"
| "opcode_byte OpWriteBuffer = 0x0E" | "opcode_byte OpReadBuffer = 0x1E" | "opcode_byte OpSetSleep = 0x84"
| "opcode_byte OpSetStandby = 0x80" | "opcode_byte OpSetFs = 0xC1" | "opcode_byte OpSetTx = 0x83"
| "opcode_byte OpSetRx = 0x82" | "opcode_byte OpStopTimerOnPreamble = 0x9F"
| "opcode_byte OpSetRxDutyCycle = 0x94" | "opcode_byte OpSetCad = 0xC5"
| "opcode_byte OpSetTxContinuousWave = 0xD1" | "opcode_byte OpSetTxContinuousPreamble = 0x8B"
| "opcode_byte OpSetPacketType = 0x8A" | "opcode_byte OpGetIrqStatus = 0x12"
| "opcode_byte OpClearIrqStatus = 0x02" | "opcode_byte OpSetRfFrequency = 0x86"
| "opcode_byte OpSetTxParams = 0x8E" | "opcode_byte OpSetCadParams = 0x87"
| "opcode_byte OpSetBufferBaseAddress = 0x8F" | "opcode_byte OpSetModulationParams = 0x8D"
| "opcode_byte OpSetPacketParams = 0x8C" | "opcode_byte OpGetStatus = 0xC0"
| "opcode_byte OpGetPacketType = 0x11" | "opcode_byte OpGetRxBufferGain = 0x18"
| "opcode_byte OpSetLoraSymbTimeout = 0xA0"

datatype rx_register = RegRxNbBytes | RegPktRssiValue | RegPktSnrValue

fun register_byte :: "rx_register \<Rightarrow> u8" where
  "register_byte RegRxNbBytes = 0x13" | "register_byte RegPktRssiValue = 0x1A" | "register_byte RegPktSnrValue = 0x19"

datatype irq =
  TxDone | RxDone | PreambleDetected | SyncWordValid | HeaderValid | HeaderError | CrcError | CadDone
  | CadDetected | IrqTimeout

fun irq_mask :: "irq \<Rightarrow> u16" where
  "irq_mask TxDone = 0x0001" | "irq_mask RxDone = 0x0002" | "irq_mask PreambleDetected = 0x0004"
| "irq_mask SyncWordValid = 0x0008" | "irq_mask HeaderValid = 0x0010" | "irq_mask HeaderError = 0x0020"
| "irq_mask CrcError = 0x0040" | "irq_mask CadDone = 0x0080" | "irq_mask CadDetected = 0x0100"
| "irq_mask IrqTimeout = 0x0200"

definition packet_type_lora :: u8 where "packet_type_lora = 0x01"

definition cs_pin :: u8 where "cs_pin = 8"
definition dio1_pin :: u8 where "dio1_pin = 22"
definition reset_pin :: u8 where "reset_pin = 23"

text \<open>
  Every command: select the chip, write, deselect it. An error returns before the chip is
  deselected.
\<close>

definition spi_command :: "device \<Rightarrow> bytes \<Rightarrow> (lr1121_error, unit) io" where
  "spi_command dev cmd =
     io_then (pin_set cs_pin False) (io_then (bus_write dev LrSpiWrite cmd) (pin_set cs_pin True))"

definition spi_query :: "device \<Rightarrow> bytes \<Rightarrow> nat \<Rightarrow> (lr1121_error, bytes) io" where
  "spi_query dev cmd n =
     io_then (pin_set cs_pin False)
     (io_then (bus_write dev LrSpiWrite cmd)
     (io_bind (bus_read dev LrSpiRead n) (\<lambda>r. io_then (pin_set cs_pin True) (io_return r))))"

definition lr_reset :: "(lr1121_error, unit) io" where
  "lr_reset = io_then (pin_set reset_pin False) (io_then (wait_ms 10) (io_then (pin_set reset_pin True) (wait_ms 10)))"

definition wake_up :: "device \<Rightarrow> (lr1121_error, unit) io" where
  "wake_up dev = io_then (spi_command dev [opcode_byte OpSetStandby, 0x01]) (wait_ms 1)"

definition set_packet_type :: "device \<Rightarrow> u8 \<Rightarrow> (lr1121_error, unit) io" where
  "set_packet_type dev t = spi_command dev [opcode_byte OpSetPacketType, t]"

definition rf_register :: "u32 \<Rightarrow> u32" where
  "rf_register freq_hz = ucast ((ucast freq_hz :: u64) * push_bit 25 1 div 32000000)"

definition set_rf_frequency :: "device \<Rightarrow> u32 \<Rightarrow> (lr1121_error, unit) io" where
  "set_rf_frequency dev freq_hz =
     (let rf_reg = rf_register freq_hz in
      spi_command dev
        [opcode_byte OpSetRfFrequency, ucast (drop_bit 24 rf_reg), ucast (drop_bit 16 rf_reg),
         ucast (drop_bit 8 rf_reg), ucast rf_reg])"

definition set_modulation_params :: "device \<Rightarrow> lora_config \<Rightarrow> (lr1121_error, unit) io" where
  "set_modulation_params dev c =
     spi_command dev
       [opcode_byte OpSetModulationParams, sf_byte (lc_spreading_factor c), bw_byte (lc_bandwidth c),
        cr_byte (lc_coding_rate c), 0x01, header_byte (lc_header_type c), crc_byte (lc_crc c), iq_byte (lc_iq_mode c)]"

definition set_packet_params :: "device \<Rightarrow> lora_config \<Rightarrow> (lr1121_error, unit) io" where
  "set_packet_params dev c =
     spi_command dev
       [opcode_byte OpSetPacketParams, ucast (drop_bit 8 (lc_preamble_length c)), ucast (lc_preamble_length c),
        0x00, crc_byte (lc_crc c), 0x00]"

definition set_tx_params :: "device \<Rightarrow> u8 \<Rightarrow> (lr1121_error, unit) io" where
  "set_tx_params dev power_dbm = spi_command dev [opcode_byte OpSetTxParams, power_dbm, 0x04]"

definition configure_lora :: "device \<Rightarrow> lora_config \<Rightarrow> (lr1121_error, unit) io" where
  "configure_lora dev c =
     io_then (set_rf_frequency dev (lc_frequency c))
     (io_then (set_modulation_params dev c)
     (io_then (set_packet_params dev c) (set_tx_params dev (lc_tx_power c))))"

definition set_buffer_base_address :: "device \<Rightarrow> (lr1121_error, unit) io" where
  "set_buffer_base_address dev = spi_command dev [opcode_byte OpSetBufferBaseAddress, 0x00, 0x00]"

definition clear_irq :: "device \<Rightarrow> (lr1121_error, unit) io" where
  "clear_irq dev = spi_command dev [opcode_byte OpClearIrqStatus, 0xFF, 0xFF]"

text \<open>Opening the bus and the pins can fail; then the chip is reset and configured.\<close>

definition lr1121_new :: "lr1121_error option \<Rightarrow> device \<Rightarrow> u32 \<Rightarrow> (lr1121_error, lora_config) io" where
  "lr1121_new init_error dev frequency_mhz =
     (case init_error of
        Some e \<Rightarrow> io_fail e
      | None \<Rightarrow>
          let c = lora_config_default\<lparr>lc_frequency := frequency_mhz * 1000000\<rparr> in
          io_then lr_reset
          (io_then (wake_up dev)
          (io_then (set_packet_type dev packet_type_lora)
          (io_then (configure_lora dev c)
          (io_then (set_buffer_base_address dev)
          (io_then (clear_irq dev) (io_return c)))))))"

definition write_buffer :: "device \<Rightarrow> bytes \<Rightarrow> (lr1121_error, unit) io" where
  "write_buffer dev d = spi_command dev ([opcode_byte OpWriteBuffer, 0x00] @ d)"

definition read_register :: "device \<Rightarrow> rx_register \<Rightarrow> (lr1121_error, u8) io" where
  "read_register dev reg =
     io_bind (spi_query dev [opcode_byte OpReadRegister, register_byte reg, 0x00] 2) (\<lambda>r. io_exec (idx r 1))"

definition read_buffer :: "device \<Rightarrow> (lr1121_error, bytes) io" where
  "read_buffer dev =
     io_bind (read_register dev RegRxNbBytes) (\<lambda>n.
     io_bind (spi_query dev ([opcode_byte OpReadBuffer, 0x00] @ replicate (unat n) 0) (unat n + 2)) (\<lambda>r.
     io_exec (slice r 2 (length r))))"

definition get_rssi_snr :: "device \<Rightarrow> (lr1121_error, i16 \<times> u8) io" where
  "get_rssi_snr dev =
     io_bind (read_register dev RegPktRssiValue) (\<lambda>rssi.
     io_bind (read_register dev RegPktSnrValue) (\<lambda>snr.
     io_return (ucast rssi - 137, snr)))"

definition get_irq_status :: "device \<Rightarrow> (lr1121_error, u16) io" where
  "get_irq_status dev =
     io_bind (spi_query dev [opcode_byte OpGetIrqStatus, 0x00, 0x00] 3) (\<lambda>r.
     io_bind (io_exec (idx r 1)) (\<lambda>hi. io_bind (io_exec (idx r 2)) (\<lambda>lo. io_return (u16_from_be [hi, lo]))))"

text \<open>The loop has no time-out; the first argument bounds the rounds that are looked at.\<close>

fun wait_for_irq :: "nat \<Rightarrow> device \<Rightarrow> irq \<Rightarrow> (lr1121_error, unit) io" where
  "wait_for_irq 0 dev irq = (\<lambda>l. (Waiting, l))"
| "wait_for_irq (Suc n) dev irq =
     io_bind (pin_read dev dio1_pin) (\<lambda>high.
     if high
     then io_bind (get_irq_status dev) (\<lambda>status.
            if status AND irq_mask irq \<noteq> 0 then io_return ()
            else io_then (wait_ms 10) (wait_for_irq n dev irq))
     else io_then (wait_ms 10) (wait_for_irq n dev irq))"

definition tx_packet :: "nat \<Rightarrow> device \<Rightarrow> bytes \<Rightarrow> (lr1121_error, unit) io" where
  "tx_packet n dev d =
     io_then (write_buffer dev d)
     (io_then (spi_command dev [opcode_byte OpSetTx, 0x00])
     (io_then (wait_for_irq n dev TxDone) (clear_irq dev)))"

definition rx_packet :: "nat \<Rightarrow> device \<Rightarrow> (lr1121_error, lora_frame) io" where
  "rx_packet n dev =
     io_then (spi_command dev [opcode_byte OpSetRx, 0x00])
     (io_then (wait_for_irq n dev RxDone)
     (io_bind (read_buffer dev) (\<lambda>d.
     (io_bind (get_rssi_snr dev) (\<lambda>(rssi, snr).
     (io_then (clear_irq dev)
     (io_return \<lparr>lf_data = d, lf_rssi = rssi, lf_snr = snr, lf_frequency_error = 0\<rparr>)))))))"

section \<open>Frequency\<close>

lemma unat_rf_register:
  assumes "unat f < 4096000000"
  shows "unat (rf_register f) = unat f * 16384 div 15625"
proof -
  have f: "unat f < 2 ^ 32" using unsigned_less [of f] by simp
  have u: "unat (ucast f :: u64) = unat f"
    using f by (simp add: unsigned_ucast_eq take_bit_nat_eq_self_iff)
  have p: "unat (push_bit 25 1 :: u64) = 2 ^ 25" by simp
  have "unat ((ucast f :: u64) * push_bit 25 1) = unat f * 2 ^ 25"
    using f by (subst unat_mult_lem [THEN iffD1]) (simp_all only: u p, simp)
  then have "unat ((ucast f :: u64) * push_bit 25 1 div 32000000) = unat f * 2 ^ 25 div 32000000"
    by (simp only: unat_div) simp
  also have "\<dots> = unat f * 16384 div 15625"
    using div_mult_mult2 [of 2048 "unat f * 16384" 15625] by (simp add: mult.assoc)
  finally have q: "unat ((ucast f :: u64) * push_bit 25 1 div 32000000) = unat f * 16384 div 15625" .
  moreover have "unat f * 16384 div 15625 < 2 ^ 32" using assms by (simp add: div_less_iff_less_mult)
  ultimately show ?thesis
    unfolding rf_register_def unsigned_ucast_eq by (simp add: take_bit_nat_eq_self_iff)
qed

text \<open>Above 4.096 GHz the register value does not fit its thirty-two bits.\<close>

lemma rf_register_truncated: "rf_register 4096000000 = 0"
  by (simp add: rf_register_def)

lemma u32_be_bytes:
  "[ucast (drop_bit 24 w), ucast (drop_bit 16 w), ucast (drop_bit 8 w), ucast w] = u32_to_be w" for w :: u32
proof -
  have b: "(ucast x :: u8) = word_of_nat (unat x mod 256)" for x :: u32
    by (simp add: word_unat_eq_iff unsigned_ucast_eq unsigned_of_nat take_bit_eq_mod)
  have "unat (drop_bit 24 w) = unat w div 2 ^ 24" "unat (drop_bit 16 w) = unat w div 2 ^ 16"
    "unat (drop_bit 8 w) = unat w div 2 ^ 8" by (simp_all add: drop_bit_eq_div unat_div)
  moreover have "be_digits 4 v = [word_of_nat (v div 256 div 256 div 256 mod 256), word_of_nat (v div 256 div 256 mod 256),
      word_of_nat (v div 256 mod 256), word_of_nat (v mod 256)]" for v
  proof -
    have "(4 :: nat) = Suc (Suc (Suc (Suc 0)))" by simp
    then show ?thesis by (simp only: be_digits.simps append.simps)
  qed
  ultimately show ?thesis by (simp only: b u32_to_be_def) (simp add: div_mult2_eq [symmetric])
qed

section \<open>Transactions\<close>

lemma spi_command_Returned_iff:
  "spi_command dev cmd l = (Returned u, l') \<longleftrightarrow>
   l' = l @ [PinSet cs_pin False, BusWrite cmd, PinSet cs_pin True] \<and>
   (\<exists>a. dev_answer dev (l @ [PinSet cs_pin False, BusWrite cmd]) = Answer a)"
  by (auto simp: spi_command_def io_iffs)

lemma spi_query_Returned_iff:
  "spi_query dev cmd n l = (Returned r, l') \<longleftrightarrow>
   l' = l @ [PinSet cs_pin False, BusWrite cmd, BusRead n, PinSet cs_pin True] \<and>
   (\<exists>a. dev_answer dev (l @ [PinSet cs_pin False, BusWrite cmd]) = Answer a) \<and>
   (\<exists>d. dev_answer dev (l @ [PinSet cs_pin False, BusWrite cmd, BusRead n]) = Answer d \<and> r = fill n d)"
  by (auto simp: spi_query_def io_iffs)

text \<open>A failing write leaves the chip selected.\<close>

lemma spi_error_keeps_selected:
  "dev_answer dev (l @ [PinSet cs_pin False, BusWrite cmd]) = IoError t e \<Longrightarrow>
   spi_command dev cmd l = (Failed (LrSpiWrite e), l @ [PinSet cs_pin False, BusWrite cmd])"
  by (simp add: spi_command_def io_then_def io_bind_def pin_set_def bus_write_def)

text \<open>No interrupt, no return: without the pin going high the driver waits for ever.\<close>

lemma wait_without_irq:
  "(\<And>l. \<not> dev_level dev l) \<Longrightarrow> fst (wait_for_irq n dev irq l) = Waiting"
  by (induction n arbitrary: l) (simp_all add: io_bind_def io_then_def pin_read_def wait_ms_def Let_def)

text \<open>
  A transceiver that answers on the bus and, from the \<open>N\<close>-th operation on, signals the interrupt.
\<close>

definition ready_from :: "device \<Rightarrow> irq \<Rightarrow> nat \<Rightarrow> bool" where
  "ready_from dev irq N \<longleftrightarrow>
     (\<forall>l. \<exists>d. dev_answer dev l = Answer d \<and> (N \<le> length l \<longrightarrow> dev_level dev l \<and> u16_from_be [fill 3 d ! 1, fill 3 d ! 2] AND irq_mask irq \<noteq> 0))"

lemma ready_answers: "ready_from dev irq N \<Longrightarrow> \<exists>d. dev_answer dev l = Answer d"
  unfolding ready_from_def by blast

lemma get_irq_status_eq:
  assumes "dev_answer dev (l @ [PinSet cs_pin False, BusWrite [0x12, 0, 0]]) = Answer a"
    and "dev_answer dev (l @ [PinSet cs_pin False, BusWrite [0x12, 0, 0], BusRead 3]) = Answer d"
  shows "get_irq_status dev l = (Returned (u16_from_be [fill 3 d ! 1, fill 3 d ! 2]),
    l @ [PinSet cs_pin False, BusWrite [0x12, 0, 0], BusRead 3, PinSet cs_pin True])"
  using assms
  by (auto simp: get_irq_status_def io_iffs spi_query_Returned_iff io_exec_Returned_iff idx_def)

lemma wait_for_irq_returns:
  assumes "ready_from dev irq N" "N \<le> length l + n" "0 < n"
  shows "\<exists>t. wait_for_irq n dev irq l = (Returned (), l @ t)"
  using assms(2,3)
proof (induction n arbitrary: l)
  case (Suc n)
  let ?l = "l @ [PinRead dio1_pin]"
  let ?l' = "?l @ [PinSet cs_pin False, BusWrite [0x12, 0, 0], BusRead 3, PinSet cs_pin True]"
  obtain a d where ad: "dev_answer dev (?l @ [PinSet cs_pin False, BusWrite [0x12, 0, 0]]) = Answer a"
      "dev_answer dev (?l @ [PinSet cs_pin False, BusWrite [0x12, 0, 0], BusRead 3]) = Answer d"
    using ready_answers [OF assms(1)] by metis
  let ?s = "u16_from_be [fill 3 d ! 1, fill 3 d ! 2]"
  have st: "get_irq_status dev ?l = (Returned ?s, ?l')" by (rule get_irq_status_eq [OF ad])
  have step: "wait_for_irq (Suc n) dev irq l =
      (if dev_level dev ?l
       then if ?s AND irq_mask irq \<noteq> 0 then (Returned (), ?l') else wait_for_irq n dev irq (?l' @ [Wait 10])
       else wait_for_irq n dev irq (?l @ [Wait 10]))"
    by (simp add: io_bind_def io_then_def pin_read_def wait_ms_def io_return_def st)
  show ?case
  proof (cases "N \<le> length ?l")
    case True
    then have "dev_level dev ?l" using assms(1) unfolding ready_from_def by blast
    moreover have "?s AND irq_mask irq \<noteq> 0"
    proof -
      have "N \<le> length (?l @ [PinSet cs_pin False, BusWrite [0x12, 0, 0], BusRead 3])" using True by simp
      then show ?thesis using assms(1) ad(2) unfolding ready_from_def by (metis answer.inject(1))
    qed
    ultimately show ?thesis unfolding step by simp
  next
    case False
    then have n: "0 < n" using Suc.prems by simp
    have "\<exists>t. wait_for_irq n dev irq (l @ u) = (Returned (), (l @ u) @ t)" if "2 \<le> length u" for u
      by (rule Suc.IH) (use Suc.prems that n in simp_all)
    from this [of "[PinRead dio1_pin, Wait 10]"] this [of "PinRead dio1_pin # [PinSet cs_pin False, BusWrite [0x12, 0, 0], BusRead 3, PinSet cs_pin True, Wait 10]"]
    obtain t u where "wait_for_irq n dev irq (?l @ [Wait 10]) = (Returned (), l @ t)"
        "wait_for_irq n dev irq (?l' @ [Wait 10]) = (Returned (), l @ u)" by auto
    then show ?thesis unfolding step by auto
  qed
qed simp

lemma read_register_Returned_iff:
  "read_register dev reg l = (Returned b, l') \<longleftrightarrow>
   l' = l @ [PinSet cs_pin False, BusWrite [0x1D, register_byte reg, 0], BusRead 2, PinSet cs_pin True] \<and>
   (\<exists>a. dev_answer dev (l @ [PinSet cs_pin False, BusWrite [0x1D, register_byte reg, 0]]) = Answer a) \<and>
   (\<exists>d. dev_answer dev (l @ [PinSet cs_pin False, BusWrite [0x1D, register_byte reg, 0], BusRead 2]) = Answer d \<and> b = fill 2 d ! 1)"
  by (auto simp: read_register_def io_iffs spi_query_Returned_iff io_exec_Returned_iff idx_def)

lemma read_buffer_data:
  assumes "read_buffer dev l = (Returned r, l')"
  shows "length r \<le> 255 \<and> (\<exists>l1 d. l' = l1 @ [PinSet cs_pin True] \<and> last l1 = BusRead (length r + 2) \<and>
    dev_answer dev l1 = Answer d \<and> r = drop 2 (fill (length r + 2) d))"
proof -
  from assms obtain n :: u8 and l1 d where n: "l' = (l1 @ [PinSet cs_pin False, BusWrite ([0x1E, 0] @ replicate (unat n) 0), BusRead (unat n + 2)]) @ [PinSet cs_pin True]"
      "dev_answer dev (l1 @ [PinSet cs_pin False, BusWrite ([0x1E, 0] @ replicate (unat n) 0), BusRead (unat n + 2)]) = Answer d"
      "r = drop 2 (fill (unat n + 2) d)"
    unfolding read_buffer_def io_bind_Returned_iff spi_query_Returned_iff io_exec_Returned_iff
    by (auto simp: slice_def)
  moreover have "length r = unat n" using n(3) by simp
  moreover have "unat n \<le> 255" using unat_byte_less [of n] by linarith
  ultimately show ?thesis
    by (intro conjI exI [of _ "l1 @ [PinSet cs_pin False, BusWrite ([0x1E, 0] @ replicate (unat n) 0), BusRead (unat n + 2)]"]
        exI [of _ d]) simp_all
qed

lemma rssi_range: "- 137 \<le> sint (ucast b - 137 :: i16) \<and> sint (ucast b - 137 :: i16) \<le> 118" for b :: u8
proof -
  have "uint (ucast b :: i16) = uint b" "uint b < 256"
    using unsigned_less [of b, where 'a = int] by (simp_all add: unsigned_ucast_eq take_bit_int_eq_self)
  moreover have "(ucast b - 137 :: i16) = word_of_int (uint (ucast b :: i16) - 137)" by (simp only: of_int_diff word_of_int_uint) simp
  ultimately have "sint (ucast b - 137 :: i16) = uint b - 137"
    by (simp only: signed_of_int) (simp add: signed_take_bit_int_eq_self_iff)
  then show ?thesis using \<open>uint b < 256\<close> by simp
qed

text \<open>
  Tuning: for every frequency below 4.096 GHz the register value selects a frequency at most
  one register step, which is less than one Hertz, below the requested one, and two different
  frequencies in Hertz get different register values. The command carries the value with the most
  significant byte first.
\<close>

lemma rf_frequency_accurate:
  assumes "unat f < 4096000000"
  shows "unat (rf_register f) * 15625 \<le> unat f * 16384 \<and> unat f * 16384 < (unat (rf_register f) + 1) * 15625 \<and>
    (\<forall>g. unat g < 4096000000 \<longrightarrow> rf_register g = rf_register f \<longrightarrow> g = f) \<and>
    set_rf_frequency dev f = spi_command dev (0x86 # u32_to_be (rf_register f))"
proof (intro conjI allI impI)
  show "unat (rf_register f) * 15625 \<le> unat f * 16384" "unat f * 16384 < (unat (rf_register f) + 1) * 15625"
    using dividend_less_times_div [of 15625 "unat f * 16384"] by (simp_all add: unat_rf_register [OF assms] mult.commute)
  fix g
  assume g: "unat g < 4096000000" "rf_register g = rf_register f"
  then have eq: "unat g * 16384 div 15625 = unat f * 16384 div 15625"
    using unat_rf_register [OF assms] unat_rf_register [OF g(1)] by simp
  have close: "x < y + 1" if "x * 16384 div 15625 = y * 16384 div 15625" for x y :: nat
    using dividend_less_times_div [of 15625 "y * 16384"] times_div_less_eq_dividend [of 15625 "x * 16384"] that by linarith
  have "unat g = unat f" using close [OF eq] close [OF eq [symmetric]] by linarith
  then show "g = f" by (simp add: word_unat_eq_iff)
next
  show "set_rf_frequency dev f = spi_command dev (0x86 # u32_to_be (rf_register f))"
    by (simp add: set_rf_frequency_def Let_def flip: u32_be_bytes)
qed

lemma rf_frequency_accurate_example:
  "unat (rf_register 915000000) * 15625 \<le> 915000000 * 16384 \<and> 915000000 * 16384 < (unat (rf_register 915000000) + 1) * 15625"
  using rf_frequency_accurate [of 915000000] by simp

text \<open>
  C36. Transmission completes: when the transceiver answers on the bus and signals the end of the
  transmission from some operation on, then with enough rounds the driver returns; it has loaded
  the packet into the buffer, started the transmission, and at the end cleared the interrupts and
  released the chip select.
\<close>

theorem tx_packet_completes:
  assumes "ready_from dev TxDone N" "N \<le> n" "0 < n"
  shows "\<exists>t. tx_packet n dev d l = (Returned (),
    l @ [PinSet cs_pin False, BusWrite ([0x0E, 0x00] @ d), PinSet cs_pin True,
         PinSet cs_pin False, BusWrite [0x83, 0x00], PinSet cs_pin True] @ t @
        [PinSet cs_pin False, BusWrite [0x02, 0xFF, 0xFF], PinSet cs_pin True])"
proof -
  have c: "spi_command dev cmd l = (Returned (), l @ [PinSet cs_pin False, BusWrite cmd, PinSet cs_pin True])" for cmd l
    by (simp add: spi_command_Returned_iff ready_answers [OF assms(1)])
  let ?l = "l @ [PinSet cs_pin False, BusWrite ([0x0E, 0x00] @ d), PinSet cs_pin True,
         PinSet cs_pin False, BusWrite [0x83, 0x00], PinSet cs_pin True]"
  obtain t where t: "wait_for_irq n dev TxDone ?l = (Returned (), ?l @ t)"
    using wait_for_irq_returns [OF assms(1) _ assms(3), of ?l] assms(2) by auto
  then show ?thesis
    by (intro exI [of _ t]) (simp add: tx_packet_def write_buffer_def clear_irq_def io_then_def io_bind_def c)
qed

theorem tx_packet_completes_witness:
  "\<exists>dev t. tx_packet 1 dev [7] [] = (Returned (), t) \<and> \<not> dev_level dev []"
proof -
  let ?dev = "\<lparr>dev_answer = (\<lambda>l. Answer [0, 0, 1]), dev_level = (\<lambda>l. l \<noteq> []), dev_clock = length\<rparr>"
  have "ready_from ?dev TxDone 1" by (auto simp: ready_from_def codec_simps)
  from tx_packet_completes [OF this, of 1 "[7]" "[]"] show ?thesis by (intro exI [of _ ?dev]) auto
qed

text \<open>
  C37. Reception: a received frame has at most 255 bytes, which are the bytes the transceiver
  delivered for the length it announced; the signal strength is between -137 and 118 dBm, so that
  neither the subtraction nor the conversion overflows.
\<close>

theorem rx_packet_bounds:
  assumes "rx_packet n dev l = (Returned f, l')"
  shows "length (lf_data f) \<le> 255 \<and> - 137 \<le> sint (lf_rssi f) \<and> sint (lf_rssi f) \<le> 118 \<and>
    (\<exists>l1 t d. l' = l1 @ t \<and> last l1 = BusRead (length (lf_data f) + 2) \<and> dev_answer dev l1 = Answer d \<and>
       lf_data f = drop 2 (fill (length (lf_data f) + 2) d))"
proof -
  from assms obtain l1 l2 l3 x where r: "read_buffer dev l1 = (Returned (lf_data f), l2)"
      "get_rssi_snr dev l2 = (Returned (lf_rssi f, lf_snr f), l3)" "clear_irq dev l3 = (Returned x, l')"
    by (auto simp: rx_packet_def io_bind_Returned_iff io_then_Returned_iff)
  from r(2) obtain b where "lf_rssi f = ucast (b :: u8) - 137" "\<exists>t. l3 = l2 @ t"
    by (auto simp: get_rssi_snr_def io_bind_Returned_iff read_register_Returned_iff)
  moreover from r(3) have "\<exists>t. l' = l3 @ t" by (auto simp: clear_irq_def spi_command_Returned_iff)
  ultimately show ?thesis using read_buffer_data [OF r(1)] rssi_range by force
qed

theorem rx_packet_bounds_witness:
  "\<exists>dev l' f. rx_packet 1 dev [] = (Returned f, l') \<and> lf_data f = [2, 0] \<and> sint (lf_rssi f) \<le> 118"
proof -
  let ?dev = "\<lparr>dev_answer = (\<lambda>l. Answer [0, 2, 2]), dev_level = (\<lambda>l. True), dev_clock = length\<rparr>"
  have f: "fill 2 [0, 2, 2] = [0, 2]" "fill 3 [0, 2, 2] = [0, 2, 2]" "fill 4 [0, 2, 2 :: u8] = [0, 2, 2, 0]"
    by (simp_all add: fill_def numeral_eq_Suc)
  have s: "u16_from_be [2, 2] AND 2 \<noteq> (0 :: u16)" by (simp add: codec_simps)
  have "\<exists>l'. rx_packet 1 ?dev [] = (Returned \<lparr>lf_data = [2, 0], lf_rssi = ucast (2 :: u8) - 137, lf_snr = 2, lf_frequency_error = 0\<rparr>, l')"
    unfolding One_nat_def
    by (simp add: rx_packet_def read_buffer_def read_register_def get_rssi_snr_def get_irq_status_def clear_irq_def spi_command_def
        spi_query_def io_then_def io_bind_def io_return_def io_exec_def pin_set_def pin_read_def bus_write_def bus_read_def
        idx_def slice_def f s)
  with rx_packet_bounds [of 1 ?dev "[]"] show ?thesis by fastforce
qed

end
