(* ===== verification/Lora_Mesh.thy ===== *)
theory Lora_Mesh
  imports Protocol Text Radio
begin

text \<open>
  \<open>src/src/lora\<close> and \<open>src/src/provisioning/lora_provisioning.rs\<close>: the node registry, the
  mesh aggregator that authenticates sensor frames, and the join procedure that issues session
  keys. HMAC-SHA256 is a parameter, the random session key an input. A
  \<open>blocking_lock\<close> panics inside an asynchronous task, which is an argument of \<open>get_node\<close>.
\<close>

section \<open>Node registry\<close>

record lora_node =
  ln_node_id :: u32
  ln_session_key :: bytes
  ln_last_seen :: u64
  ln_sensor_type :: string

type_synonym registry = "(u32 \<times> lora_node) list"

definition registry_new :: registry where
  "registry_new = []"

definition register_node :: "registry \<Rightarrow> lora_node \<Rightarrow> registry" where
  "register_node r n = hm_insert (ln_node_id n) n r"

definition get_node :: "bool \<Rightarrow> registry \<Rightarrow> u32 \<Rightarrow> lora_node option exec" where
  "get_node in_task r i = (if in_task then panic else ret (map_of r i))"

definition update_last_seen :: "u64 \<Rightarrow> registry \<Rightarrow> u32 \<Rightarrow> registry" where
  "update_last_seen now r i =
     (case map_of r i of None \<Rightarrow> r | Some n \<Rightarrow> hm_insert i (n\<lparr>ln_last_seen := now\<rparr>) r)"

definition remove_node :: "registry \<Rightarrow> u32 \<Rightarrow> registry" where
  "remove_node r i = hm_remove i r"

definition get_all_nodes :: "registry \<Rightarrow> lora_node list" where
  "get_all_nodes r = map snd r"

definition get_stale :: "u64 \<Rightarrow> registry \<Rightarrow> lora_node list" where
  "get_stale now r = filter (\<lambda>n. now - ln_last_seen n > 3600000) (map snd r)"

definition node_count :: "registry \<Rightarrow> nat" where
  "node_count r = length r"

section \<open>Mesh aggregator\<close>

datatype mesh_error = InvalidFrame | UnknownNode | MicMismatch

type_synonym hmac = "bytes \<Rightarrow> bytes \<Rightarrow> bytes"

text \<open>HMAC-SHA256 has thirty-two bytes.\<close>

definition hmac_law :: "hmac \<Rightarrow> bool" where
  "hmac_law H \<longleftrightarrow> (\<forall>k d. length (H k d) = 32)"

definition verify_mic :: "hmac \<Rightarrow> bytes \<Rightarrow> bytes \<Rightarrow> bytes \<Rightarrow> bool exec" where
  "verify_mic H d mic key = do { tag \<leftarrow> slice (H key d) 0 4; ret (tag = mic) }"

text \<open>
  The call of the asynchronous \<open>update_last_seen\<close> is not awaited, so it does nothing.
\<close>

definition decode_sensor_frame :: "hmac \<Rightarrow> bool \<Rightarrow> u64 \<Rightarrow> registry \<Rightarrow> lora_frame \<Rightarrow> (mesh_error + message) exec" where
  "decode_sensor_frame H in_task now r f =
     (let d = lf_data f in
      if length d < 12 then ret (Inl InvalidFrame)
      else do {
        node_id \<leftarrow> u32_at d 0;
        sq \<leftarrow> u16_at d 4;
        payload_type \<leftarrow> idx d 6;
        payload \<leftarrow> slice d 7 (length d - 4);
        mic \<leftarrow> slice d (length d - 4) (length d);
        found \<leftarrow> get_node in_task r node_id;
        case found of
          None \<Rightarrow> ret (Inl UnknownNode)
        | Some node \<Rightarrow> do {
            body \<leftarrow> slice d 0 (length d - 4);
            ok \<leftarrow> verify_mic H body mic (ln_session_key node);
            if \<not> ok then ret (Inl MicMismatch)
            else ret (Inr (message_new now LoRaMesh
                   (u32_to_be node_id @ u16_to_be sq @ [payload_type] @ payload) Operational)) } })"

text \<open>One round of the receive task: the message passed on for a received frame, if any.\<close>

definition mesh_round :: "hmac \<Rightarrow> u64 \<Rightarrow> registry \<Rightarrow> lora_frame option \<Rightarrow> message option exec" where
  "mesh_round H now r rx =
     (case rx of
        None \<Rightarrow> ret None
      | Some f \<Rightarrow> do {
          res \<leftarrow> decode_sensor_frame H True now r f;
          ret (case res of Inr m \<Rightarrow> Some m | Inl _ \<Rightarrow> None) })"

definition ack_frame :: "u32 \<Rightarrow> u16 \<Rightarrow> bytes" where
  "ack_frame node_id sq = u32_to_be node_id @ u16_to_be sq"

section \<open>Joining\<close>

record join_request =
  jr_node_id :: u32
  jr_sensor_type :: string

text \<open>\<open>pm_locked\<close> says that a task holds the lock of the radio, \<open>pm_sent\<close> what was transmitted.\<close>

record provisioning_mode =
  pm_nodes :: registry
  pm_active :: bool
  pm_locked :: bool
  pm_sent :: "bytes list"

definition provisioning_new :: provisioning_mode where
  "provisioning_new = \<lparr>pm_nodes = [], pm_active = False, pm_locked = False, pm_sent = []\<rparr>"

definition provisioning_start :: "provisioning_mode \<Rightarrow> provisioning_mode" where
  "provisioning_start p = p\<lparr>pm_active := True\<rparr>"

definition provisioning_stop :: "provisioning_mode \<Rightarrow> provisioning_mode" where
  "provisioning_stop p = p\<lparr>pm_active := False\<rparr>"

definition parse_join_request :: "lora_frame \<Rightarrow> (mesh_error + join_request) exec" where
  "parse_join_request f =
     (let d = lf_data f in
      if length d < 8 then ret (Inl InvalidFrame)
      else do {
        node_id \<leftarrow> u32_at d 0;
        len \<leftarrow> idx d 4;
        if length d < 5 + unat len then ret (Inl InvalidFrame)
        else do {
          t \<leftarrow> slice d 5 (5 + unat len);
          ret (Inr \<lparr>jr_node_id = node_id, jr_sensor_type = from_utf8_lossy t\<rparr>) } })"

definition build_join_accept :: "lora_node \<Rightarrow> bytes" where
  "build_join_accept n = u32_to_be (ln_node_id n) @ ln_session_key n"

text \<open>
  One round of the task, with the frame received and the key drawn: it ends, or waits for the lock
  of the radio for as long as another holder has it. The guard of the first lock is a temporary of
  the \<open>if let\<close> and is released only behind its body; the result of the transmission is
  dropped.
\<close>

datatype round_outcome = RoundEnds | RoundWaits

definition lock_radio :: "provisioning_mode \<Rightarrow> provisioning_mode option" where
  "lock_radio p = (if pm_locked p then None else Some (p\<lparr>pm_locked := True\<rparr>))"

definition unlock_radio :: "provisioning_mode \<Rightarrow> provisioning_mode" where
  "unlock_radio p = p\<lparr>pm_locked := False\<rparr>"

definition provisioning_round :: "u64 \<Rightarrow> bytes \<Rightarrow> lora_frame option \<Rightarrow> provisioning_mode \<Rightarrow>
    (round_outcome \<times> provisioning_mode) exec" where
  "provisioning_round now key rx p =
     (if \<not> pm_active p then ret (RoundEnds, p)
      else case lock_radio p of
        None \<Rightarrow> ret (RoundWaits, p)
      | Some p \<Rightarrow>
          (case rx of
             None \<Rightarrow> ret (RoundEnds, unlock_radio p)
           | Some f \<Rightarrow> do {
               r \<leftarrow> parse_join_request f;
               ret (case r of
                      Inl _ \<Rightarrow> (RoundEnds, unlock_radio p)
                    | Inr j \<Rightarrow>
                        let n = \<lparr>ln_node_id = jr_node_id j, ln_session_key = key, ln_last_seen = now,
                                 ln_sensor_type = jr_sensor_type j\<rparr>;
                            p = p\<lparr>pm_nodes := hm_insert (jr_node_id j) n (pm_nodes p)\<rparr>
                        in case lock_radio p of
                             None \<Rightarrow> (RoundWaits, p)
                           | Some p \<Rightarrow> (RoundEnds, unlock_radio (p\<lparr>pm_sent := pm_sent p @ [build_join_accept n]\<rparr>))) }))"

definition provisioning_get_nodes :: "provisioning_mode \<Rightarrow> lora_node list" where
  "provisioning_get_nodes p = map snd (pm_nodes p)"

definition provisioning_remove_node :: "provisioning_mode \<Rightarrow> u32 \<Rightarrow> provisioning_mode" where
  "provisioning_remove_node p i = p\<lparr>pm_nodes := hm_remove i (pm_nodes p)\<rparr>"

text \<open>
  The runs of the pairing mode. Every call of \<open>start\<close> spawns another task, so that rounds of
  any number of tasks follow each other; a round that waits has not ended and may still have
  changed the state.
\<close>

inductive pairing_step :: "provisioning_mode \<Rightarrow> provisioning_mode \<Rightarrow> bool" where
  start: "pairing_step p (provisioning_start p)"
| stop: "pairing_step p (provisioning_stop p)"
| remove: "pairing_step p (provisioning_remove_node p i)"
| round: "provisioning_round now key rx p = ret (out, p') \<Longrightarrow> pairing_step p p'"

text \<open>What a node sends: its join request, and a data frame authenticated with its key.\<close>

definition join_frame :: "u32 \<Rightarrow> string \<Rightarrow> bytes" where
  "join_frame i t = u32_to_be i @ [word_of_nat (length t)] @ bytes_of t"

definition sensor_frame :: "hmac \<Rightarrow> bytes \<Rightarrow> u32 \<Rightarrow> u16 \<Rightarrow> u8 \<Rightarrow> bytes \<Rightarrow> bytes" where
  "sensor_frame H key i sq ty p =
     (let body = u32_to_be i @ u16_to_be sq @ [ty] @ p in body @ take 4 (H key body))"

section \<open>Authentication\<close>

lemma take_parts_7:
  assumes "7 \<le> length d"
  shows "take 4 d @ take 2 (drop 4 d) @ [d ! 6] @ take n (drop 7 d) = take (7 + n) d"
proof -
  have "take (4 + (2 + (1 + n))) d = take 4 d @ take 2 (drop 4 d) @ take 1 (drop (2 + 4) d) @ take n (drop (1 + (2 + 4)) d)"
    by (simp only: take_add drop_drop)
  then have "take (7 + n) d = take 4 d @ take 2 (drop 4 d) @ take 1 (drop 6 d) @ take n (drop 7 d)"
    by (simp add: add.assoc [symmetric])
  moreover have "take 1 (drop 6 d) = [d ! 6]" using assms by (simp add: take_Suc_conv_app_nth)
  ultimately show ?thesis by simp
qed

lemma decode_sensor_frame_eq:
  assumes "hmac_law H"
  shows "decode_sensor_frame H False now r f = ret
    (let d = lf_data f; body = take (length d - 4) d in
     if length d < 12 then Inl InvalidFrame
     else case map_of r (u32_from_be (take 4 d)) of
       None \<Rightarrow> Inl UnknownNode
     | Some node \<Rightarrow>
         if take 4 (H (ln_session_key node) body) \<noteq> drop (length d - 4) d then Inl MicMismatch
         else Inr (message_new now LoRaMesh body Operational))"
proof (cases "length (lf_data f) < 12")
  case False
  let ?d = "lf_data f"
  have "u32_to_be (u32_from_be (take 4 ?d)) @ u16_to_be (u16_from_be (take 2 (drop 4 ?d))) @ [?d ! 6] @ take (length ?d - 11) (drop 7 ?d)
      = take (length ?d - 4) ?d"
    using False take_parts_7 [of ?d "length ?d - 11"] by simp
  moreover have "slice (H k b) 0 4 = ret (take 4 (H k b))" for k b
    using assms by (simp add: slice_def hmac_law_def)
  ultimately show ?thesis using False
    by (simp add: decode_sensor_frame_def get_node_def verify_mic_def uN_at_ok idx_def slice_ok Let_def
        split: option.splits)
qed (simp add: decode_sensor_frame_def)

lemma decode_in_task_panics: "decode_sensor_frame H True now r f = panic \<longleftrightarrow> 12 \<le> length (lf_data f)"
  by (auto simp: decode_sensor_frame_def get_node_def Let_def u32_at_def u16_at_def idx_def slice_def)

lemma mesh_task_silent: "mesh_round H now r rx \<noteq> ret (Some m)"
proof (cases rx)
  case (Some f)
  have "decode_sensor_frame H True now r f = (if length (lf_data f) < 12 then ret (Inl InvalidFrame) else panic)"
    using decode_in_task_panics [of H now r f] by (auto simp: decode_sensor_frame_def not_less)
  with Some show ?thesis by (simp add: mesh_round_def)
qed (simp add: mesh_round_def)

lemma sensor_frame_accepted:
  assumes "hmac_law H" "map_of r i = Some node" "p \<noteq> []" "lf_data f = sensor_frame H (ln_session_key node) i sq ty p"
  shows "decode_sensor_frame H False now r f =
    ret (Inr (message_new now LoRaMesh (u32_to_be i @ u16_to_be sq @ [ty] @ p) Operational))"
proof -
  have "1 \<le> length p" using assms(3) by (cases p) auto
  then show ?thesis using assms
    by (simp add: decode_sensor_frame_eq sensor_frame_def Let_def hmac_law_def)
qed

text \<open>A registry without nodes rejects every frame.\<close>

lemma empty_registry_rejects: "hmac_law H \<Longrightarrow> decode_sensor_frame H False now registry_new f \<noteq> ret (Inr m)"
  by (simp add: decode_sensor_frame_eq registry_new_def Let_def)

lemma parse_join_frame:
  assumes "3 \<le> length t" "length t < 256" "utf8_valid (bytes_of t)" "lf_data f = join_frame i t"
  shows "parse_join_request f = ret (Inr \<lparr>jr_node_id = i, jr_sensor_type = t\<rparr>)"
  using assms
  by (simp add: parse_join_request_def join_frame_def u32_at_def idx_def slice_def nth_append from_utf8_lossy_text)

text \<open>
  C24. Authentication of the mesh: a frame is decoded to a message exactly when it has at least
  twelve bytes, its sender is registered and its last four bytes are the truncated HMAC of the
  rest under the sender's session key; the message is the frame without them. Inside the receive
  task, however, the registry lookup blocks, so that every frame that is not too short panics.
\<close>

theorem mesh_accepts_exactly:
  assumes "hmac_law H"
  shows "(decode_sensor_frame H False now r f = ret (Inr m) \<longleftrightarrow>
      12 \<le> length (lf_data f) \<and>
      (\<exists>node. map_of r (u32_from_be (take 4 (lf_data f))) = Some node \<and>
         drop (length (lf_data f) - 4) (lf_data f) =
           take 4 (H (ln_session_key node) (take (length (lf_data f) - 4) (lf_data f)))) \<and>
      m = message_new now LoRaMesh (take (length (lf_data f) - 4) (lf_data f)) Operational) \<and>
    (mesh_round H now r (Some f) = panic \<longleftrightarrow> 12 \<le> length (lf_data f))"
proof -
  have "mesh_round H now r (Some f) = panic \<longleftrightarrow> decode_sensor_frame H True now r f = panic"
    by (simp add: mesh_round_def bind_eq_None_conv)
  then show ?thesis using decode_in_task_panics [of H now r f]
    by (auto simp: decode_sensor_frame_eq [OF assms] Let_def not_less split: option.splits)
qed

theorem mesh_accepts_exactly_witness:
  "\<exists>H r f. hmac_law H \<and> mesh_round H 0 r (Some f) = panic \<and>
     decode_sensor_frame H False 0 r f = ret (Inr (message_new 0 LoRaMesh [0, 0, 0, 7, 0, 1, 2, 9] Operational))"
proof -
  let ?H = "\<lambda>k d. replicate 32 (0 :: u8)"
  let ?n = "\<lparr>ln_node_id = 7, ln_session_key = replicate 16 1, ln_last_seen = 0, ln_sensor_type = ''temp''\<rparr>"
  let ?f = "\<lparr>lf_data = [0, 0, 0, 7, 0, 1, 2, 9, 0, 0, 0, 0], lf_rssi = 0, lf_snr = 0, lf_frequency_error = 0\<rparr>"
  have H: "hmac_law ?H" by (simp add: hmac_law_def)
  have "u32_from_be [0, 0, 0, 7] = 7" by (simp add: codec_simps)
  moreover have "replicate 4 (0 :: u8) = [0, 0, 0, 0]" by (simp add: eval_nat_numeral)
  ultimately show ?thesis using H mesh_accepts_exactly [OF H, of 0 "register_node registry_new ?n" ?f "message_new 0 LoRaMesh [0, 0, 0, 7, 0, 1, 2, 9] Operational"]
    by (intro exI [of _ ?H] exI [of _ "register_node registry_new ?n"] exI [of _ ?f])
       (simp add: register_node_def registry_new_def)
qed

text \<open>The task holds the lock from the first join request on, and until then nothing has happened.\<close>

definition pairing_inv :: "provisioning_mode \<Rightarrow> bool" where
  "pairing_inv p \<longleftrightarrow> pm_sent p = [] \<and> length (pm_nodes p) \<le> 1 \<and> (\<not> pm_locked p \<longrightarrow> pm_nodes p = [])"

lemma round_inv:
  assumes "provisioning_round now key rx p = ret (out, p')" "pairing_inv p"
  shows "pairing_inv p'"
proof (cases "pm_locked p")
  case True
  then show ?thesis using assms by (auto simp: provisioning_round_def lock_radio_def split: if_splits)
next
  case False
  then have "pm_nodes p = []" using assms(2) by (simp add: pairing_inv_def)
  note facts = this False assms
  show ?thesis
  proof (cases "pm_active p \<and> rx \<noteq> None")
    case True
    then obtain f where f: "rx = Some f" "pm_active p" by auto
    with facts obtain y where "parse_join_request f = ret y"
      by (auto simp: provisioning_round_def lock_radio_def bind_eq_Some_conv)
    with facts f show ?thesis
      by (cases y) (auto simp: provisioning_round_def lock_radio_def unlock_radio_def pairing_inv_def Let_def)
  next
    case False
    with facts show ?thesis
      by (auto simp: provisioning_round_def lock_radio_def unlock_radio_def pairing_inv_def split: if_splits)
  qed
qed

lemma pairing_step_inv: "pairing_step p p' \<Longrightarrow> pairing_inv p \<Longrightarrow> pairing_inv p'"
proof (induction rule: pairing_step.induct)
  case (remove p i)
  have "length (hm_remove i xs) \<le> length xs" for xs :: registry by (rule length_delete_le)
  with remove show ?case by (auto simp: pairing_inv_def provisioning_remove_node_def intro: le_trans)
next
  case (round now key rx p out p')
  then show ?case by (rule round_inv)
qed (simp_all add: pairing_inv_def provisioning_start_def provisioning_stop_def)



end
