(* ===== verification/Atecc.thy ===== *)
theory Atecc
  imports Bus Checksum
begin

unbundle bit_operations_syntax

text \<open>
  \<open>src/src/hardware/atecc608b.rs\<close>: the driver of the signing chip on the I2C bus. The chip is the
  device parameter of the bus.
\<close>

section \<open>Commands\<close>

datatype atecc_error =
  AteccI2cInit string | AteccI2cWrite string | AteccI2cRead string | AteccInvalidResponse u8
  | InvalidDigestLength | InvalidSignatureLength | LockFailed

definition op_read :: u8 where "op_read = 0x02"
definition op_random :: u8 where "op_random = 0x1B"
definition op_sign :: u8 where "op_sign = 0x41"
definition op_verify :: u8 where "op_verify = 0x45"
definition zone_configuration :: u8 where "zone_configuration = 0x00"
definition atecc608b_addr :: u8 where "atecc608b_addr = 0x60"

definition crc8_bit :: "u8 \<Rightarrow> u8" where
  "crc8_bit x = (if x AND 0x80 \<noteq> 0 then push_bit 1 x XOR 0x07 else push_bit 1 x)"

definition crc8_byte :: "u8 \<Rightarrow> u8 \<Rightarrow> u8" where
  "crc8_byte crc b = (crc8_bit ^^ 8) (crc XOR b)"

definition crc8 :: "bytes \<Rightarrow> u8" where
  "crc8 d = foldl crc8_byte 0 d"

definition atecc_wake :: "device \<Rightarrow> (atecc_error, unit) io" where
  "atecc_wake dev =
     io_then (bus_address dev AteccI2cWrite 0x00)
     (io_then (bus_write dev AteccI2cWrite [0x00])
     (io_then (wait_ms 1)
     (bus_address dev AteccI2cWrite atecc608b_addr)))"

definition read_serial :: "device \<Rightarrow> (atecc_error, bytes) io" where
  "read_serial dev =
     io_then (atecc_wake dev)
     (let cmd = [op_read, zone_configuration, 0, 0, 0, 9] in
      io_then (bus_write dev AteccI2cWrite (cmd @ [crc8 cmd]))
      (io_then (wait_ms 5)
      (io_bind (bus_read dev AteccI2cRead 32) (\<lambda>r.
       io_bind (io_exec (idx r 0)) (\<lambda>h.
       if h \<noteq> 0x01 then io_fail (AteccInvalidResponse h) else io_exec (slice r 1 10))))))"

text \<open>The chip on bus 1, if the bus can be opened.\<close>

definition atecc_new :: "string option \<Rightarrow> device \<Rightarrow> (atecc_error, unit) io" where
  "atecc_new bus_error dev =
     (case bus_error of
        Some e \<Rightarrow> io_fail (AteccI2cInit e)
      | None \<Rightarrow> io_then (atecc_wake dev) (io_then (read_serial dev) (io_return ())))"

definition sign_command :: "bytes \<Rightarrow> bytes exec" where
  "sign_command digest = do {
     cmd \<leftarrow> store (replicate 36 0) 0 op_sign;
     cmd \<leftarrow> store cmd 1 0x80;
     cmd \<leftarrow> store cmd 2 0x00;
     cmd \<leftarrow> copy_into cmd 3 35 digest;
     body \<leftarrow> slice cmd 0 35;
     store cmd 35 (crc8 body) }"

definition atecc_sign :: "device \<Rightarrow> bytes \<Rightarrow> (atecc_error, bytes) io" where
  "atecc_sign dev digest =
     (if length digest \<noteq> 32 then io_fail InvalidDigestLength
      else io_then (atecc_wake dev)
        (io_bind (io_exec (sign_command digest)) (\<lambda>cmd.
         io_then (bus_write dev AteccI2cWrite cmd)
         (io_then (wait_ms 100)
         (io_bind (bus_read dev AteccI2cRead 68) (\<lambda>r.
          io_bind (io_exec (idx r 0)) (\<lambda>h.
          if h \<noteq> 0x01 then io_fail (AteccInvalidResponse h) else io_exec (slice r 1 65))))))))"

definition verify_command :: "bytes \<Rightarrow> bytes \<Rightarrow> bytes exec" where
  "verify_command digest signature = do {
     cmd \<leftarrow> store (replicate 99 0) 0 op_verify;
     cmd \<leftarrow> store cmd 1 0x00;
     cmd \<leftarrow> store cmd 2 0x00;
     cmd \<leftarrow> store cmd 3 0x00;
     cmd \<leftarrow> copy_into cmd 4 36 digest;
     cmd \<leftarrow> copy_into cmd 36 100 signature;
     body \<leftarrow> slice cmd 0 98;
     store cmd 98 (crc8 body) }"

definition atecc_verify :: "device \<Rightarrow> bytes \<Rightarrow> bytes \<Rightarrow> (atecc_error, bool) io" where
  "atecc_verify dev digest signature =
     (if length digest \<noteq> 32 then io_fail InvalidDigestLength
      else if length signature \<noteq> 64 then io_fail InvalidSignatureLength
      else io_then (atecc_wake dev)
        (io_bind (io_exec (verify_command digest signature)) (\<lambda>cmd.
         io_then (bus_write dev AteccI2cWrite cmd)
         (io_then (wait_ms 50)
         (io_bind (bus_read dev AteccI2cRead 4) (\<lambda>r.
          io_bind (io_exec (idx r 0)) (\<lambda>h. io_return (h = 0x00))))))))"

definition atecc_random :: "device \<Rightarrow> (atecc_error, bytes) io" where
  "atecc_random dev =
     io_then (atecc_wake dev)
     (io_then (bus_write dev AteccI2cWrite [op_random, 0x00, 0x20])
     (io_then (wait_ms 20)
     (io_bind (bus_read dev AteccI2cRead 35) (\<lambda>r.
      io_bind (io_exec (idx r 0)) (\<lambda>h.
      if h \<noteq> 0x01 then io_fail (AteccInvalidResponse h) else io_exec (slice r 1 33))))))"

section \<open>Checksum\<close>

lemma crc8_bit_feedback: "crc8_bit = feedback_left 0x07"
proof
  fix x :: u8
  have "(0x80 :: u8) = 2 ^ 7" by simp
  then have "x AND 0x80 \<noteq> 0 \<longleftrightarrow> bit x 7" by (simp only: and_exp_eq_0_iff_not_bit not_not)
  then show "crc8_bit x = feedback_left 0x07 x" by (simp add: crc8_bit_def feedback_left_def)
qed

lemma crc8_bits_inj: "(crc8_bit ^^ n) x = (crc8_bit ^^ n) y \<longleftrightarrow> x = y"
  by (rule funpow_inj) (simp add: crc8_bit_feedback feedback_left_inj)

interpretation crc8_sum: byte_checksum crc8_byte
  by unfold_locales (simp_all add: crc8_byte_def crc8_bits_inj xor_cancel)

text \<open>Changing any one byte of the data changes the checksum.\<close>

lemma crc8_detects: "i < length d \<Longrightarrow> b \<noteq> d ! i \<Longrightarrow> crc8 (d[i := b]) \<noteq> crc8 d"
  by (simp add: crc8_def crc8_sum.fold_update)

text \<open>The value of the test vector in the test module, which expects 0x5B.\<close>

lemma crc8_byte_unfold:
  "crc8_byte crc b = crc8_bit (crc8_bit (crc8_bit (crc8_bit (crc8_bit (crc8_bit (crc8_bit (crc8_bit (crc XOR b))))))))"
  by (simp add: crc8_byte_def numeral_eq_Suc)

lemma crc8_test_vector: "crc8 [1, 2, 3] = 0x48"
  by (simp add: crc8_def crc8_byte_unfold crc8_bit_def)

section \<open>Transactions\<close>

definition wake_ops :: "bus_op list" where
  "wake_ops = [BusAddress 0x00, BusWrite [0x00], Wait 1, BusAddress 0x60]"

lemma wake_Returned_iff:
  "atecc_wake dev l = (Returned u, l') \<longleftrightarrow> l' = l @ wake_ops \<and> answered dev l wake_ops"
  by (auto simp: atecc_wake_def io_iffs wake_ops_def atecc608b_addr_def)

lemma wake_never_panics: "fst (atecc_wake dev l) \<noteq> Panicked"
  by (simp add: atecc_wake_def io_then_def io_bind_def bus_address_def bus_write_def wait_ms_def Let_def
      split: answer.splits)

lemma sign_command_eq:
  "length digest = 32 \<Longrightarrow>
   sign_command digest = ret ([0x41, 0x80, 0x00] @ digest @ [crc8 ([0x41, 0x80, 0x00] @ digest)])"
  by (simp add: sign_command_def op_sign_def store_def copy_into_def slice_def list_update_append numeral_eq_Suc)

text \<open>The exchange that the reading commands share once the chip is awake.\<close>

definition exchange :: "device \<Rightarrow> bytes \<Rightarrow> nat \<Rightarrow> nat \<Rightarrow> nat \<Rightarrow> (atecc_error, bytes) io" where
  "exchange dev cmd pause n k =
     io_then (bus_write dev AteccI2cWrite cmd)
     (io_then (wait_ms pause)
     (io_bind (bus_read dev AteccI2cRead n) (\<lambda>r.
      io_bind (io_exec (idx r 0)) (\<lambda>h.
      if h \<noteq> 0x01 then io_fail (AteccInvalidResponse h) else io_exec (slice r 1 (Suc k))))))"

lemma exchange_alone:
  assumes "k < n"
  shows "exchange dev cmd pause n k l = (Returned v, l') \<longleftrightarrow>
    l' = l @ [BusWrite cmd, Wait pause, BusRead n] \<and> answered dev l [BusWrite cmd, Wait pause, BusRead n] \<and>
    (\<exists>d. dev_answer dev l' = Answer d \<and> fill n d ! 0 = 1 \<and> v = take k (drop 1 (fill n d)))"
proof -
  have "idx (fill n d) 0 = ret (fill n d ! 0)" "slice (fill n d) 1 (Suc k) = ret (take k (drop 1 (fill n d)))" for d
    using assms by (simp_all add: idx_def slice_def)
  then show ?thesis
    by (simp add: exchange_def io_iffs io_exec_Returned_iff if_distrib [of "\<lambda>f. f _ = _"]) auto
qed

lemma exchange_Returned_iff:
  assumes "k < n"
  shows "io_then (atecc_wake dev) (exchange dev cmd pause n k) l = (Returned v, l') \<longleftrightarrow>
    l' = l @ wake_ops @ [BusWrite cmd, Wait pause, BusRead n] \<and> answered dev l (drop (length l) l') \<and>
    (\<exists>d. dev_answer dev l' = Answer d \<and> fill n d ! 0 = 1 \<and> v = take k (drop 1 (fill n d)))"
  unfolding io_then_Returned_iff wake_Returned_iff exchange_alone [OF assms] by auto

lemma atecc_exchanges:
  "length digest = 32 \<Longrightarrow> atecc_sign dev digest = io_then (atecc_wake dev)
     (exchange dev ([0x41, 0x80, 0x00] @ digest @ [crc8 ([0x41, 0x80, 0x00] @ digest)]) 100 68 64)"
  "read_serial dev = io_then (atecc_wake dev)
     (exchange dev ([0x02, 0, 0, 0, 0, 9] @ [crc8 [0x02, 0, 0, 0, 0, 9]]) 5 32 9)"
  "atecc_random dev = io_then (atecc_wake dev) (exchange dev [0x1B, 0x00, 0x20] 20 35 32)"
  by (simp_all add: fun_eq_iff atecc_sign_def read_serial_def atecc_random_def exchange_def sign_command_eq io_then_def io_bind_def
      io_exec_def op_read_def zone_configuration_def op_random_def Let_def split: prod.splits outcome.splits)

lemma read_serial_length: "read_serial dev l = (Returned v, l') \<Longrightarrow> length v = 9"
  by (auto simp: atecc_exchanges(2) exchange_Returned_iff)

text \<open>The slice for the signature ends behind the command buffer.\<close>

lemma verify_command_panics: "verify_command digest signature = panic"
  by (simp add: verify_command_def store_def copy_into_def split: option.splits)

lemma verify_always_panics:
  assumes "length digest = 32" "length signature = 64" "answered dev l wake_ops"
  shows "atecc_verify dev digest signature l = (Panicked, l @ wake_ops)"
proof -
  have "atecc_wake dev l = (Returned (), l @ wake_ops)" using assms(3) by (simp add: wake_Returned_iff)
  with assms(1,2) show ?thesis
    by (simp add: atecc_verify_def io_then_def io_bind_def io_exec_def verify_command_panics)
qed

text \<open>
  C35. Signing: with a digest of thirty-two bytes the driver wakes the chip, sends the one command
  frame with its checksum, and returns a signature exactly when the chip answered every step and
  its response starts with one; the signature is the next sixty-four bytes, and nothing else is
  put on the bus. Verification, in contrast, never returns: once the chip is awake, building the
  command panics for every digest and signature.
\<close>

theorem sign_exact:
  assumes "length digest = 32" "length signature = 64"
  shows "(atecc_sign dev digest l = (Returned sig, l') \<longleftrightarrow>
      l' = l @ wake_ops @ [BusWrite ([0x41, 0x80, 0x00] @ digest @ [crc8 ([0x41, 0x80, 0x00] @ digest)]), Wait 100, BusRead 68] \<and>
      answered dev l (drop (length l) l') \<and>
      (\<exists>d. dev_answer dev l' = Answer d \<and> fill 68 d ! 0 = 1 \<and> sig = take 64 (drop 1 (fill 68 d)))) \<and>
    (answered dev l wake_ops \<longrightarrow> atecc_verify dev digest signature l = (Panicked, l @ wake_ops))"
  using assms by (simp add: atecc_exchanges(1) exchange_Returned_iff verify_always_panics)

theorem sign_exact_witness:
  "\<exists>dev l'. atecc_sign dev (replicate 32 7) [] = (Returned (replicate 64 9), l') \<and>
     atecc_verify dev (replicate 32 7) (replicate 64 9) [] = (Panicked, wake_ops)"
proof -
  let ?dev = "\<lparr>dev_answer = (\<lambda>l. Answer (1 # replicate 67 9)), dev_level = (\<lambda>l. False), dev_clock = length\<rparr>"
  let ?l = "wake_ops @ [BusWrite ([0x41, 0x80, 0x00] @ replicate 32 7 @ [crc8 ([0x41, 0x80, 0x00] @ replicate 32 7)]), Wait 100, BusRead 68]"
  have "answered ?dev [] ?l" by (simp add: wake_ops_def)
  moreover have "answered ?dev [] wake_ops" by (simp add: wake_ops_def)
  ultimately show ?thesis
    using sign_exact [of "replicate 32 7" "replicate 64 9" ?dev "[]" "replicate 64 9" ?l]
    by (intro exI [of _ ?dev] exI [of _ ?l]) simp
qed

end
