(* ===== verification/Provisioning.thy ===== *)
theory Provisioning
  imports Atecc Externals
begin

text \<open>
  \<open>src/src/provisioning/provision.rs\<close>: the identity of the gateway, its certificate and its
  configuration on the encrypted configuration partition. The certificate library, the JSON
  format and the errors of the file system are parameters; the partition is a directory of text
  files. That the directory exists is all the code asks for when it checks that the partition
  is mounted. The serial number is read over the bus model of the crypto chip.
\<close>

section \<open>Data\<close>

record provisioning_config =
  pc_gateway_id :: string
  pc_site_id :: string
  pc_lora_freq :: u32
  pc_ca_endpoint :: string

definition provisioning_config_default :: provisioning_config where
  "provisioning_config_default =
     \<lparr>pc_gateway_id = [], pc_site_id = ''SITE-001'', pc_lora_freq = 915,
      pc_ca_endpoint = ''https://api.floatgateway.com/v1/provision''\<rparr>"

datatype provisioning_status = NotProvisioned | Provisioning | Provisioned | ProvisioningFailed string

text \<open>Errors of the crypto chip and of the certificate library are carried as they are.\<close>

datatype provisioning_error =
  PvAtecc atecc_error | PvCertificate string | PvSerialization string | PvDeserialization string
| PvCaRequest string | PvCaResponse string | PvFileWrite string | PvFileRead string | PvFileDelete string
| ConfigNotMounted | PvNotProvisioned

record provisioning_service =
  ps_config :: provisioning_config
  ps_status :: provisioning_status

section \<open>The environment\<close>

record config_partition =
  cp_directory :: bool
  cp_files :: "(string \<times> string) list"

text \<open>
  The error of writing, reading or deleting a path, and the formats. A write that fails may have
  changed the file already: its error comes with what is left there, if it is not the old contents.
\<close>

record provisioning_env =
  pe_write :: "string \<Rightarrow> (string \<times> string option) option"
  pe_read :: "string \<Rightarrow> string option"
  pe_delete :: "string \<Rightarrow> string option"
  pe_csr :: "(string \<times> string) list \<Rightarrow> string + string"
  pe_to_json :: "provisioning_config \<Rightarrow> string + string"
  pe_from_json :: "string \<Rightarrow> string + provisioning_config"

definition json_law :: "provisioning_env \<Rightarrow> bool" where
  "json_law E \<longleftrightarrow> (\<forall>c j. pe_to_json E c = Inr j \<longrightarrow> pe_from_json E j = Inr c)"

definition config_path :: string where
  "config_path = ''/mnt/encrypted_config/provisioning.json''"

definition cert_path :: string where
  "cert_path = ''/mnt/encrypted_config/gateway_cert.pem''"

definition file_exists :: "config_partition \<Rightarrow> string \<Rightarrow> bool" where
  "file_exists P p \<longleftrightarrow> cp_directory P \<and> map_of (cp_files P) p \<noteq> None"

definition write_file :: "provisioning_env \<Rightarrow> string \<Rightarrow> string \<Rightarrow> config_partition \<Rightarrow> (provisioning_error + unit) \<times> config_partition" where
  "write_file E p d P =
     (case pe_write E p of
        Some (err, left) \<Rightarrow>
          (Inl (PvFileWrite err), case left of None \<Rightarrow> P | Some d' \<Rightarrow> P\<lparr>cp_files := hm_insert p d' (cp_files P)\<rparr>)
      | None \<Rightarrow> (Inr (), P\<lparr>cp_files := hm_insert p d (cp_files P)\<rparr>))"

section \<open>Operations\<close>

definition is_provisioned :: "config_partition \<Rightarrow> bool" where
  "is_provisioned P \<longleftrightarrow> file_exists P config_path \<and> file_exists P cert_path"

definition service_new :: "ext \<Rightarrow> config_partition \<Rightarrow> device \<Rightarrow> (atecc_error, provisioning_service) io" where
  "service_new e P dev =
     io_bind (read_serial dev) (\<lambda>serial.
     io_return
       \<lparr>ps_config = provisioning_config_default\<lparr>pc_gateway_id := x_hex_encode e serial\<rparr>,
        ps_status = (if is_provisioned P then Provisioned else NotProvisioned)\<rparr>)"

definition generate_csr :: "provisioning_env \<Rightarrow> provisioning_service \<Rightarrow> provisioning_error + string" where
  "generate_csr E s =
     (case pe_csr E [(''CommonName'', pc_gateway_id (ps_config s)), (''OrganizationName'', ''Float Gateway''),
                     (''OrganizationalUnitName'', ''IoT Gateway'')] of
        Inl err \<Rightarrow> Inl (PvCertificate err)
      | Inr csr \<Rightarrow> Inr csr)"

definition request_certificate :: "string \<Rightarrow> provisioning_error + string" where
  "request_certificate csr = Inr ''PLACEHOLDER_CERTIFICATE''"

definition store_certificate :: "provisioning_env \<Rightarrow> string \<Rightarrow> config_partition \<Rightarrow> (provisioning_error + unit) \<times> config_partition" where
  "store_certificate E cert P = (if \<not> cp_directory P then (Inl ConfigNotMounted, P) else write_file E cert_path cert P)"

definition store_config :: "provisioning_env \<Rightarrow> provisioning_service \<Rightarrow> config_partition \<Rightarrow> (provisioning_error + unit) \<times> config_partition" where
  "store_config E s P =
     (if \<not> cp_directory P then (Inl ConfigNotMounted, P)
      else case pe_to_json E (ps_config s) of
        Inl err \<Rightarrow> (Inl (PvSerialization err), P)
      | Inr j \<Rightarrow> write_file E config_path j P)"

definition load_config :: "provisioning_env \<Rightarrow> config_partition \<Rightarrow> provisioning_error + provisioning_config" where
  "load_config E P =
     (if \<not> file_exists P config_path then Inl PvNotProvisioned
      else case pe_read E config_path of
        Some err \<Rightarrow> Inl (PvFileRead err)
      | None \<Rightarrow>
          case pe_from_json E (the (map_of (cp_files P) config_path)) of
            Inl err \<Rightarrow> Inl (PvDeserialization err)
          | Inr c \<Rightarrow> Inr c)"

text \<open>An early return leaves the status as it was set at the start.\<close>

definition provision :: "provisioning_env \<Rightarrow> provisioning_service \<Rightarrow> config_partition \<Rightarrow>
    (provisioning_error + unit) \<times> provisioning_service \<times> config_partition" where
  "provision E s P =
     (let s = s\<lparr>ps_status := Provisioning\<rparr> in
      case generate_csr E s of
        Inl err \<Rightarrow> (Inl err, s, P)
      | Inr csr \<Rightarrow>
      case request_certificate csr of
        Inl err \<Rightarrow> (Inl err, s, P)
      | Inr cert \<Rightarrow>
      case store_certificate E cert P of
        (Inl err, P) \<Rightarrow> (Inl err, s, P)
      | (Inr _, P) \<Rightarrow>
      case store_config E s P of
        (Inl err, P) \<Rightarrow> (Inl err, s, P)
      | (Inr _, P) \<Rightarrow> (Inr (), s\<lparr>ps_status := Provisioned\<rparr>, P))"

definition delete_if_there :: "provisioning_env \<Rightarrow> string \<Rightarrow> config_partition \<Rightarrow> (provisioning_error + unit) \<times> config_partition" where
  "delete_if_there E p P =
     (if file_exists P p
      then case pe_delete E p of
        Some err \<Rightarrow> (Inl (PvFileDelete err), P)
      | None \<Rightarrow> (Inr (), P\<lparr>cp_files := hm_remove p (cp_files P)\<rparr>)
      else (Inr (), P))"

definition factory_reset :: "provisioning_env \<Rightarrow> config_partition \<Rightarrow> (provisioning_error + unit) \<times> config_partition" where
  "factory_reset E P =
     (case delete_if_there E config_path P of
        (Inl err, P) \<Rightarrow> (Inl err, P)
      | (Inr _, P) \<Rightarrow> delete_if_there E cert_path P)"

section \<open>Properties\<close>

lemma paths_differ [simp]: "config_path \<noteq> cert_path" "cert_path \<noteq> config_path"
  by (simp_all add: config_path_def cert_path_def)

lemmas provision_defs = provision_def generate_csr_def request_certificate_def store_certificate_def store_config_def
  write_file_def Let_def

lemma provision_Ok_iff:
  "fst (provision E s P) = Inr () \<longleftrightarrow>
   (\<exists>csr. generate_csr E s = Inr csr) \<and> cp_directory P \<and> pe_write E cert_path = None \<and>
   (\<exists>j. pe_to_json E (ps_config s) = Inr j) \<and> pe_write E config_path = None"
  by (auto simp: provision_defs split: sum.splits option.splits)

lemma provision_status:
  "provision E s P = (r, s', P') \<Longrightarrow>
   ps_status s' = (if r = Inr () then Provisioned else Provisioning) \<and> ps_config s' = ps_config s"
  by (auto simp: provision_defs split: sum.splits option.splits if_splits)

lemma provision_stores:
  assumes "provision E s P = (Inr (), s', P')"
  shows "\<exists>j. pe_to_json E (ps_config s) = Inr j \<and> cp_directory P' \<and>
    cp_files P' = hm_insert config_path j (hm_insert cert_path ''PLACEHOLDER_CERTIFICATE'' (cp_files P))"
  using assms by (auto simp: provision_defs split: sum.splits option.splits if_splits)

lemma factory_reset_effect:
  assumes "factory_reset E P = (Inr (), P')"
  shows "\<not> is_provisioned P' \<and> load_config E P' = Inl PvNotProvisioned \<and> cp_directory P' = cp_directory P \<and>
    (\<forall>p. p \<noteq> config_path \<and> p \<noteq> cert_path \<longrightarrow> map_of (cp_files P') p = map_of (cp_files P) p)"
  using assms
  by (auto simp: factory_reset_def delete_if_there_def is_provisioned_def load_config_def file_exists_def
      split: sum.splits option.splits if_splits)

lemma service_new_id:
  assumes "hex_encode_law e" "service_new e P dev l = (Returned s, l')"
  shows "length (pc_gateway_id (ps_config s)) = 18 \<and> ps_status s = (if is_provisioned P then Provisioned else NotProvisioned)"
  using assms by (auto simp: service_new_def io_bind_Returned_iff hex_encode_law_def dest!: read_serial_length)

text \<open>
  C31. Provisioning succeeds exactly when the certificate request could be made, the directory
  of the partition exists, the configuration has a JSON text and both files could be written.
  It then leaves the gateway provisioned with the configuration readable again; the stored
  certificate is the placeholder text. An error leaves the status at provisioning, never at
  failed. A factory reset that succeeds undoes it and keeps the other files.
\<close>

theorem provisioning_cycle:
  assumes "json_law E"
  shows "case provision E s P of (r, s', P') \<Rightarrow>
    (r = Inr () \<longleftrightarrow>
       (\<exists>csr. generate_csr E s = Inr csr) \<and> cp_directory P \<and> pe_write E cert_path = None \<and>
       (\<exists>j. pe_to_json E (ps_config s) = Inr j) \<and> pe_write E config_path = None) \<and>
    ps_status s' = (if r = Inr () then Provisioned else Provisioning) \<and>
    (r = Inr () \<longrightarrow>
       is_provisioned P' \<and> map_of (cp_files P') cert_path = Some ''PLACEHOLDER_CERTIFICATE'' \<and>
       load_config E P' = (case pe_read E config_path of None \<Rightarrow> Inr (ps_config s) | Some err \<Rightarrow> Inl (PvFileRead err)) \<and>
       (\<forall>P''. factory_reset E P' = (Inr (), P'') \<longrightarrow>
          \<not> is_provisioned P'' \<and> load_config E P'' = Inl PvNotProvisioned \<and>
          (\<forall>p. p \<notin> {config_path, cert_path} \<longrightarrow> map_of (cp_files P'') p = map_of (cp_files P) p)))"
proof -
  obtain r s' P' where r: "provision E s P = (r, s', P')" by (metis prod_cases3)
  have stored: "is_provisioned P' \<and> map_of (cp_files P') cert_path = Some ''PLACEHOLDER_CERTIFICATE'' \<and>
      load_config E P' = (case pe_read E config_path of None \<Rightarrow> Inr (ps_config s) | Some err \<Rightarrow> Inl (PvFileRead err)) \<and>
      (\<forall>p. p \<notin> {config_path, cert_path} \<longrightarrow> map_of (cp_files P') p = map_of (cp_files P) p)" if "r = Inr ()"
    using provision_stores [of E s P s' P'] r that assms
    by (auto simp: is_provisioned_def file_exists_def load_config_def json_law_def split: option.splits)
  have "\<not> is_provisioned P'' \<and> load_config E P'' = Inl PvNotProvisioned \<and>
      (\<forall>p. p \<notin> {config_path, cert_path} \<longrightarrow> map_of (cp_files P'') p = map_of (cp_files P) p)"
    if "r = Inr ()" "factory_reset E P' = (Inr (), P'')" for P''
    using factory_reset_effect [OF that(2)] stored [OF that(1)] by simp
  with stored provision_Ok_iff [of E s P] provision_status [OF r] r show ?thesis by simp
qed

theorem provisioning_cycle_witness:
  "\<exists>E s P s' P'. provision E s P = (Inr (), s', P') \<and> is_provisioned P' \<and> load_config E P' = Inr (ps_config s)"
proof -
  let ?E = "\<lparr>pe_write = (\<lambda>p. None), pe_read = (\<lambda>p. None), pe_delete = (\<lambda>p. None), pe_csr = (\<lambda>dn. Inr ''CSR''),
    pe_to_json = (\<lambda>c. if c = provisioning_config_default then Inr ''{}'' else Inl []),
    pe_from_json = (\<lambda>j. Inr provisioning_config_default)\<rparr>"
  let ?s = "\<lparr>ps_config = provisioning_config_default, ps_status = NotProvisioned\<rparr>"
  let ?P = "\<lparr>cp_directory = True, cp_files = []\<rparr>"
  have "json_law ?E" by (simp add: json_law_def)
  note cycle = provisioning_cycle [OF this, of ?s ?P]
  obtain r s' P' where r: "provision ?E ?s ?P = (r, s', P')" by (metis prod_cases3)
  with cycle have "r = Inr ()" "is_provisioned P'" "load_config ?E P' = Inr (ps_config ?s)" by (simp_all add: generate_csr_def)
  with r show ?thesis by blast
qed

end
