(* ===== verification/Front_Panel.thy ===== *)
theory Front_Panel
  imports Bus
begin

text \<open>
  The configuration button (\<open>src/src/hardware/config_button.rs\<close>), the status light
  (\<open>src/src/hardware/led.rs\<close>) and the watchdog (\<open>src/src/hardware/watchdog.rs\<close>).
  The light and the watchdog run on the bus model. The button thread has a log of its own: the
  level of the pin and the clock are functions of what it has read and sent so far, so that any
  time may pass between two readings, also while a send waits for room in the channel.
\<close>

section \<open>The configuration button\<close>

datatype button_event = Pressed | Released | ProvisioningMode | FactoryReset

datatype button_error = ButtonGpioInit string

datatype button_op = LevelRead | ClockRead | Sent button_event

text \<open>The level is \<open>True\<close> for high; the clock counts milliseconds.\<close>

record button_env =
  be_level :: "button_op list \<Rightarrow> bool"
  be_clock :: "button_op list \<Rightarrow> nat"

record config_button =
  cb_pressed :: bool
  cb_press_start :: "nat option"
  cb_last_level :: bool
  cb_log :: "button_op list"

type_synonym 'a button_op_of = "(config_button, button_error, 'a) prog"

definition config_button_pin :: u8 where "config_button_pin = 18"
definition provisioning_hold_ms :: nat where "provisioning_hold_ms = 3000"
definition factory_reset_hold_ms :: nat where "factory_reset_hold_ms = 10000"
definition debounce_ms :: nat where "debounce_ms = 50"

definition button_level :: "button_env \<Rightarrow> bool button_op_of" where
  "button_level env s = (let l = cb_log s @ [LevelRead] in (Returned (be_level env l), s\<lparr>cb_log := l\<rparr>))"

definition button_clock :: "button_env \<Rightarrow> nat button_op_of" where
  "button_clock env s = (let l = cb_log s @ [ClockRead] in (Returned (be_clock env l), s\<lparr>cb_log := l\<rparr>))"

definition send_event :: "button_event \<Rightarrow> unit button_op_of" where
  "send_event x s = (Returned (), s\<lparr>cb_log := cb_log s @ [Sent x]\<rparr>)"

definition button_set :: "(config_button \<Rightarrow> config_button) \<Rightarrow> unit button_op_of" where
  "button_set f s = (Returned (), f s)"

text \<open>
  The thread calls the \<open>sleep\<close> of the asynchronous runtime and drops the future it
  returns. The call panics on a thread that has no runtime (\<open>timer\<close> is \<open>False\<close>)
  and otherwise returns at once.
\<close>

definition thread_sleep :: "bool \<Rightarrow> nat \<Rightarrow> unit button_op_of" where
  "thread_sleep timer ms s = (if timer then Returned () else Panicked, s)"

definition button_press :: "button_env \<Rightarrow> unit button_op_of" where
  "button_press env =
     io_then (button_set (cb_pressed_update (\<lambda>_. True)))
     (io_bind (button_clock env) (\<lambda>now.
      io_then (button_set (cb_press_start_update (\<lambda>_. Some now)))
      (send_event Pressed)))"

definition report_hold :: "button_env \<Rightarrow> nat \<Rightarrow> unit button_op_of" where
  "report_hold env start =
     io_bind (button_clock env) (\<lambda>now.
       if factory_reset_hold_ms \<le> now - start then send_event FactoryReset
       else if provisioning_hold_ms \<le> now - start then send_event ProvisioningMode
       else io_return ())"

definition button_release :: "button_env \<Rightarrow> unit button_op_of" where
  "button_release env s =
     io_then (button_set (\<lambda>s. s\<lparr>cb_pressed := False, cb_press_start := None\<rparr>))
     (io_then (case cb_press_start s of None \<Rightarrow> io_return () | Some start \<Rightarrow> report_hold env start)
     (send_event Released)) s"

definition level_change :: "bool \<Rightarrow> button_env \<Rightarrow> bool \<Rightarrow> unit button_op_of" where
  "level_change timer env current =
     io_then (thread_sleep timer debounce_ms)
     (io_bind (button_level env) (\<lambda>debounced.
      io_then
        (if debounced = current then if \<not> current then button_press env else button_release env else io_return ())
        (button_set (cb_last_level_update (\<lambda>_. debounced)))))"

text \<open>
  The lock on the start of the press is held by the \<open>if let\<close> for its whole body, and the
  body of the ten-second branch takes it again: the thread waits for itself.
\<close>

definition check_hold :: "button_env \<Rightarrow> unit button_op_of" where
  "check_hold env s =
     (case (cb_pressed s, cb_press_start s) of
        (True, Some start) \<Rightarrow>
          io_bind (button_clock env) (\<lambda>now.
            if factory_reset_hold_ms \<le> now - start
            then io_then (button_set (cb_pressed_update (\<lambda>_. False))) (\<lambda>s. (Waiting, s))
            else if provisioning_hold_ms \<le> now - start then send_event ProvisioningMode
            else io_return ()) s
      | _ \<Rightarrow> io_return () s)"

definition button_round :: "bool \<Rightarrow> button_env \<Rightarrow> unit button_op_of" where
  "button_round timer env s =
     io_bind (button_level env) (\<lambda>current.
       io_then (if current \<noteq> cb_last_level s then level_change timer env current else io_return ())
       (io_then (check_hold env) (thread_sleep timer 10))) s"

fun button_run :: "bool \<Rightarrow> button_env \<Rightarrow> nat \<Rightarrow> unit button_op_of" where
  "button_run timer env 0 = io_return ()"
| "button_run timer env (Suc n) = io_then (button_round timer env) (button_run timer env n)"

text \<open>The thread reads the level once before its loop.\<close>

definition button_new :: "gpio \<Rightarrow> u8 list \<Rightarrow> button_env \<Rightarrow> button_error + (config_button \<times> u8 list)" where
  "button_new G used env =
     (case open_pins G used [config_button_pin] of
        Inl err \<Rightarrow> Inl (ButtonGpioInit err)
      | Inr used \<Rightarrow>
          Inr (\<lparr>cb_pressed = False, cb_press_start = None, cb_last_level = be_level env [LevelRead],
                cb_log = [LevelRead]\<rparr>, used))"

definition is_pressed :: "config_button \<Rightarrow> bool" where
  "is_pressed s = cb_pressed s"

definition press_duration :: "nat \<Rightarrow> config_button \<Rightarrow> nat option" where
  "press_duration now s = map_option (\<lambda>start. now - start) (cb_press_start s)"

section \<open>The status light\<close>

datatype led_state = LedConnected | LedNoUplink | LedBurstInProgress | LedFault | LedOff

datatype led_error = LedGpioInit string

definition led_red_pin :: u8 where "led_red_pin = 17"
definition led_green_pin :: u8 where "led_green_pin = 27"
definition led_blue_pin :: u8 where "led_blue_pin = 6"

definition set_color :: "bool \<Rightarrow> bool \<Rightarrow> bool \<Rightarrow> (led_error, unit) io" where
  "set_color red green blue =
     io_then (pin_set led_red_pin red) (io_then (pin_set led_green_pin green) (pin_set led_blue_pin blue))"

fun pulses :: "nat \<Rightarrow> nat \<Rightarrow> (led_error, unit) io \<Rightarrow> (led_error, unit) io" where
  "pulses 0 ms lit = io_return ()"
| "pulses (Suc n) ms lit =
     io_then lit (io_then (wait_ms ms) (io_then (set_color True True True) (io_then (wait_ms ms) (pulses n ms lit))))"

definition pulse_green_slow :: "(led_error, unit) io" where
  "pulse_green_slow = pulses 5 500 (set_color False True False)"

definition pulse_amber_fast :: "(led_error, unit) io" where
  "pulse_amber_fast = pulses 10 100 (set_color False False True)"

fun show_state :: "led_state \<Rightarrow> (led_error, unit) io" where
  "show_state LedConnected = set_color False True False"
| "show_state LedNoUplink = pulse_green_slow"
| "show_state LedBurstInProgress = pulse_amber_fast"
| "show_state LedFault = set_color True False False"
| "show_state LedOff = set_color True True True"

text \<open>
  The task, given the states it reads from the controller, one per round until it reads that the
  controller was stopped. The second argument is the state it showed last.
\<close>

fun led_task :: "led_state list \<Rightarrow> led_state \<Rightarrow> (led_error, led_state) io" where
  "led_task [] last_state = io_return last_state"
| "led_task (current # rest) last_state =
     io_then (if current \<noteq> last_state then show_state current else io_return ())
     (io_then (wait_ms 100) (led_task rest current))"

definition led_new :: "gpio \<Rightarrow> u8 list \<Rightarrow> led_error + (led_state \<times> u8 list)" where
  "led_new G used =
     (case open_pins G used [led_red_pin, led_green_pin, led_blue_pin] of
        Inl err \<Rightarrow> Inl (LedGpioInit err)
      | Inr used \<Rightarrow> Inr (LedOff, used))"

section \<open>The watchdog\<close>

datatype watchdog_error = WatchdogGpioInit string | KickFailed

definition watchdog_gpio :: u8 where "watchdog_gpio = 26"
definition watchdog_kick_interval_ms :: nat where "watchdog_kick_interval_ms = 25000"

definition watchdog_kick :: "(watchdog_error, unit) io" where
  "watchdog_kick =
     io_then (pin_set watchdog_gpio False) (io_then (wait_ms 10)
     (io_then (pin_set watchdog_gpio True) (io_then (wait_ms 10)
     (pin_set watchdog_gpio False))))"

fun watchdog_task :: "nat \<Rightarrow> (watchdog_error, unit) io" where
  "watchdog_task 0 = io_return ()"
| "watchdog_task (Suc n) = io_then (wait_ms watchdog_kick_interval_ms) (io_then watchdog_kick (watchdog_task n))"

text \<open>The kick task gets a clone of the driver, which takes the pin once more and unwraps the result.\<close>

definition watchdog_clone :: "gpio \<Rightarrow> u8 list \<Rightarrow> u8 list exec" where
  "watchdog_clone G used = (case open_pins G used [watchdog_gpio] of Inl _ \<Rightarrow> None | Inr used \<Rightarrow> ret used)"

definition watchdog_new :: "gpio \<Rightarrow> u8 list \<Rightarrow> (watchdog_error + u8 list) exec" where
  "watchdog_new G used =
     (case open_pins G used [watchdog_gpio] of
        Inl err \<Rightarrow> ret (Inl (WatchdogGpioInit err))
      | Inr used \<Rightarrow> do { used \<leftarrow> watchdog_clone G used; ret (Inr used) })"

section \<open>The button thread\<close>

text \<open>The events sent, and the level they leave a follower at: a release follows a press, holds come between them.\<close>

definition events :: "button_op list \<Rightarrow> button_event list" where
  "events l = List.map_filter (\<lambda>x. case x of Sent v \<Rightarrow> Some v | _ \<Rightarrow> None) l"

fun follow :: "bool \<Rightarrow> button_event list \<Rightarrow> bool option" where
  "follow high [] = Some high"
| "follow high (x # xs) =
     (case x of
        Pressed \<Rightarrow> if high then follow False xs else None
      | Released \<Rightarrow> if \<not> high then follow True xs else None
      | _ \<Rightarrow> if \<not> high then follow False xs else None)"

fun hold_needed :: "button_op \<Rightarrow> nat option" where
  "hold_needed (Sent ProvisioningMode) = Some provisioning_hold_ms"
| "hold_needed (Sent FactoryReset) = Some factory_reset_hold_ms"
| "hold_needed _ = None"

text \<open>The last press was reported right after the clock showed \<open>t\<close>.\<close>

definition pressed_at :: "button_env \<Rightarrow> button_op list \<Rightarrow> nat \<Rightarrow> bool" where
  "pressed_at env l t \<longleftrightarrow>
     (\<exists>j < length l. l ! j = Sent Pressed \<and> (\<forall>k. j < k \<and> k < length l \<longrightarrow> l ! k \<noteq> Sent Pressed) \<and> t = be_clock env (take j l))"

text \<open>At the last reading of the clock the button had been held for \<open>h\<close> milliseconds.\<close>

definition held_for :: "button_env \<Rightarrow> button_op list \<Rightarrow> nat \<Rightarrow> bool" where
  "held_for env l h \<longleftrightarrow> (\<exists>t. pressed_at env l t \<and> h \<le> be_clock env l - t)"

definition holds_justified :: "button_env \<Rightarrow> button_op list \<Rightarrow> bool" where
  "holds_justified env l \<longleftrightarrow>
     (\<forall>i < length l. \<forall>h. hold_needed (l ! i) = Some h \<longrightarrow> held_for env (take i l) h)"

lemma events_simps [simp]: "events [] = []" "events (l @ m) = events l @ events m" "events (Sent v # l) = v # events l"
  "events (LevelRead # l) = events l" "events (ClockRead # l) = events l"
  by (simp_all add: events_def map_filter_def)

lemma follow_append: "follow h (xs @ ys) = (case follow h xs of None \<Rightarrow> None | Some h' \<Rightarrow> follow h' ys)"
  by (induction xs arbitrary: h) (simp_all split: button_event.splits)

lemma pressed_at_snoc [simp]:
  "x \<noteq> Sent Pressed \<Longrightarrow> pressed_at env l t \<Longrightarrow> pressed_at env (l @ [x]) t"
  "pressed_at env (l @ [Sent Pressed]) (be_clock env l)"
proof -
  assume x: "x \<noteq> Sent Pressed" and "pressed_at env l t"
  then obtain j where j: "j < length l" "l ! j = Sent Pressed" "\<forall>k. j < k \<and> k < length l \<longrightarrow> l ! k \<noteq> Sent Pressed"
    "t = be_clock env (take j l)" by (auto simp: pressed_at_def)
  show "pressed_at env (l @ [x]) t"
    unfolding pressed_at_def by (rule exI [of _ j]) (use j x in \<open>auto simp: nth_append less_Suc_eq\<close>)
qed (auto simp: pressed_at_def intro!: exI [of _ "length l"])

lemma justified_snoc [simp]:
  "holds_justified env (l @ [x]) \<longleftrightarrow>
   holds_justified env l \<and> (\<forall>h. hold_needed x = Some h \<longrightarrow> held_for env l h)"
  by (auto simp: holds_justified_def nth_append less_Suc_eq)

lemma held_for_read [intro]:
  "pressed_at env l t \<Longrightarrow> h \<le> be_clock env (l @ [ClockRead]) - t \<Longrightarrow> held_for env (l @ [ClockRead]) h"
  by (auto simp: held_for_def intro!: exI [of _ t])

definition button_ok :: "button_env \<Rightarrow> config_button \<Rightarrow> bool" where
  "button_ok env s \<longleftrightarrow>
     follow (be_level env [LevelRead]) (events (cb_log s)) = Some (cb_last_level s) \<and>
     holds_justified env (cb_log s) \<and>
     (cb_last_level s \<longrightarrow> cb_press_start s = None) \<and>
     (\<forall>t. cb_press_start s = Some t \<longrightarrow> pressed_at env (cb_log s) t)"

lemmas button_defs = io_then_def io_bind_def io_return_def button_level_def button_clock_def send_event_def button_set_def
  thread_sleep_def Let_def

lemma button_new_ok: "button_new G used env = Inr (s, used') \<Longrightarrow> button_ok env s"
  by (auto simp: button_new_def button_ok_def holds_justified_def split: sum.splits)

lemma button_ok_read:
  assumes "button_ok env s" "x = LevelRead \<or> x = ClockRead"
  shows "button_ok env (s\<lparr>cb_log := cb_log s @ [x]\<rparr>)"
  using assms by (auto simp: button_ok_def)

lemma button_press_ok:
  assumes "button_ok env s" "cb_last_level s"
  shows "\<exists>s'. button_press env s = (Returned (), s') \<and> button_ok env (s'\<lparr>cb_last_level := False\<rparr>)"
  using assms by (auto simp: button_press_def button_defs button_ok_def follow_append simp del: append_assoc)

lemma report_hold_log:
  assumes "pressed_at env (cb_log s) start" "holds_justified env (cb_log s)"
    "follow h (events (cb_log s)) = Some False"
    "report_hold env start s = (r, s')"
  shows "r = Returned () \<and> s' = s\<lparr>cb_log := cb_log s'\<rparr> \<and> holds_justified env (cb_log s') \<and>
    follow h (events (cb_log s')) = Some False"
  using assms
  by (auto simp: report_hold_def button_defs follow_append simp del: append_assoc split: if_splits)

lemma button_release_ok:
  assumes ok: "button_ok env s" and low: "\<not> cb_last_level s"
  shows "\<exists>s'. button_release env s = (Returned (), s') \<and> button_ok env (s'\<lparr>cb_last_level := True\<rparr>)"
proof (cases "cb_press_start s")
  case None
  with assms show ?thesis by (auto simp: button_release_def button_defs button_ok_def follow_append)
next
  case (Some start)
  let ?s = "s\<lparr>cb_pressed := False, cb_press_start := None\<rparr>"
  have "pressed_at env (cb_log ?s) start" "holds_justified env (cb_log ?s)"
    "follow (be_level env [LevelRead]) (events (cb_log ?s)) = Some False"
    using ok low Some by (auto simp: button_ok_def)
  note h = report_hold_log [OF this]
  obtain r s' where "report_hold env start ?s = (r, s')" by fastforce
  with h [OF this] Some show ?thesis by (cases s') (auto simp: button_release_def button_defs button_ok_def follow_append)
qed

lemma level_change_ok:
  assumes ok: "button_ok env s" and c: "current \<noteq> cb_last_level s"
  shows "\<exists>s'. level_change True env current s = (Returned (), s') \<and> button_ok env s'"
proof -
  let ?l = "cb_log s @ [LevelRead]" and ?d = "be_level env (cb_log s @ [LevelRead])"
  let ?s = "s\<lparr>cb_log := ?l\<rparr>"
  have s: "button_ok env ?s" using ok by (rule button_ok_read) simp
  show ?thesis
  proof (cases "?d = current")
    case False
    with c have "?d = cb_last_level s" by auto
    with False s show ?thesis by (simp add: level_change_def button_defs button_ok_def)
  next
    case True
    show ?thesis
    proof (cases current)
      case high: True
      with c have "\<not> cb_last_level ?s" by simp
      from button_release_ok [OF s this] obtain s' where "button_release env ?s = (Returned (), s')" "button_ok env (s'\<lparr>cb_last_level := True\<rparr>)" by blast
      with True high show ?thesis by (simp add: level_change_def button_defs)
    next
      case low: False
      with c have "cb_last_level ?s" by simp
      from button_press_ok [OF s this] obtain s' where "button_press env ?s = (Returned (), s')" "button_ok env (s'\<lparr>cb_last_level := False\<rparr>)" by blast
      with True low show ?thesis by (simp add: level_change_def button_defs)
    qed
  qed
qed

lemma check_hold_ok:
  assumes "button_ok env s" "check_hold env s = (r, s')"
  shows "button_ok env s' \<and> (r = Returned () \<or> r = Waiting \<and> held_for env (cb_log s') factory_reset_hold_ms)"
  using assms
  by (auto simp: check_hold_def button_defs button_ok_def follow_append simp del: append_assoc
      split: bool.splits option.splits if_splits)

lemma button_round_ok:
  assumes "button_ok env s" "button_round True env s = (r, s')"
  shows "button_ok env s' \<and> (r = Returned () \<or> r = Waiting \<and> held_for env (cb_log s') factory_reset_hold_ms)"
proof -
  let ?s = "s\<lparr>cb_log := cb_log s @ [LevelRead]\<rparr>" and ?c = "be_level env (cb_log s @ [LevelRead])"
  have s: "button_ok env ?s" using assms(1) by (rule button_ok_read) simp
  define change where "change = (if ?c \<noteq> cb_last_level s then level_change True env ?c else io_return ())"
  obtain s1 where s1: "change ?s = (Returned (), s1)" "button_ok env s1"
    using level_change_ok [OF s, of ?c] s by (cases "?c = cb_last_level s") (auto simp: change_def io_return_def)
  have round: "button_round True env s = io_then change (io_then (check_hold env) (thread_sleep True 10)) ?s"
    unfolding change_def by (simp add: button_round_def io_bind_def [of "button_level env"] button_level_def Let_def)
  obtain r2 s2 where h: "check_hold env s1 = (r2, s2)" by fastforce
  from check_hold_ok [OF s1(2) h] show ?thesis using assms(2)
    by (auto simp: round io_bind_def io_then_def s1(1) h thread_sleep_def)
qed

lemma button_run_ok:
  "button_ok env s \<Longrightarrow> button_run True env n s = (r, s') \<Longrightarrow>
   button_ok env s' \<and> (r = Returned () \<or> r = Waiting \<and> held_for env (cb_log s') factory_reset_hold_ms)"
proof (induction n arbitrary: s)
  case (Suc n)
  obtain r1 s1 where r: "button_round True env s = (r1, s1)" by fastforce
  from button_round_ok [OF Suc.prems(1) r] Suc.IH [of s1] Suc.prems(2) show ?case
    by (auto simp: io_then_def io_bind_def r)
qed (auto simp: io_return_def)

section \<open>Lights and watchdog\<close>

text \<open>The level a pin was last set to.\<close>

definition level_of :: "bus_op list \<Rightarrow> u8 \<Rightarrow> bool option" where
  "level_of l p = fold (\<lambda>x r. case x of PinSet q b \<Rightarrow> if q = p then Some b else r | _ \<Rightarrow> r) l None"

definition led_levels :: "bus_op list \<Rightarrow> bool option list" where
  "led_levels l = map (level_of l) [led_red_pin, led_green_pin, led_blue_pin]"

fun levels_shown :: "led_state \<Rightarrow> bool option list" where
  "levels_shown LedConnected = [Some False, Some True, Some False]"
| "levels_shown LedFault = [Some True, Some False, Some False]"
| "levels_shown _ = [Some True, Some True, Some True]"

lemma level_of_snoc [simp]:
  "level_of (l @ [PinSet q b]) p = (if q = p then Some b else level_of l p)"
  "level_of (l @ [Wait ms]) p = level_of l p"
  by (simp_all add: level_of_def)

lemma set_color_ends:
  "\<exists>l'. set_color r g b l = (Returned (), l') \<and> led_levels l' = [Some r, Some g, Some b]"
  by (simp add: set_color_def io_then_def io_bind_def pin_set_def led_levels_def led_red_pin_def led_green_pin_def
      led_blue_pin_def del: append_assoc)

lemma led_levels_wait [simp]: "led_levels (l @ [Wait ms]) = led_levels l"
  by (simp add: led_levels_def)

lemma pulses_end:
  assumes "0 < n"
  shows "\<exists>l'. pulses n ms (set_color r g b) l = (Returned (), l') \<and> led_levels l' = [Some True, Some True, Some True]"
  using assms
proof (induction n arbitrary: l)
  case (Suc n)
  obtain l1 where l1: "set_color r g b l = (Returned (), l1)" using set_color_ends by blast
  obtain l2 where l2: "set_color True True True (l1 @ [Wait ms]) = (Returned (), l2)"
    "led_levels l2 = [Some True, Some True, Some True]" using set_color_ends by blast
  show ?case
  proof (cases n)
    case 0
    with l1 l2 show ?thesis by (simp add: io_then_def io_bind_def wait_ms_def io_return_def)
  next
    case (Suc m)
    with Suc.IH [of "l2 @ [Wait ms]"] l1 l2 show ?thesis by (simp add: io_then_def io_bind_def wait_ms_def)
  qed
qed simp

lemma show_state_ends: "\<exists>l'. show_state st l = (Returned (), l') \<and> led_levels l' = levels_shown st"
  using set_color_ends pulses_end by (cases st) (simp_all add: pulse_green_slow_def pulse_amber_fast_def)

lemma led_task_shows:
  "last_state \<noteq> LedOff \<longrightarrow> led_levels l = levels_shown last_state \<Longrightarrow>
   \<exists>l'. led_task states last_state l = (Returned (last (last_state # states)), l') \<and>
     (set states \<subseteq> {last_state} \<and> led_levels l' = led_levels l \<or> led_levels l' = levels_shown (last (last_state # states)))"
proof (induction states arbitrary: last_state l)
  case (Cons x xs)
  obtain l1 where l1: "show_state x l = (Returned (), l1)" "led_levels l1 = levels_shown x" using show_state_ends by blast
  show ?case
  proof (cases "x = last_state")
    case True
    with Cons.IH [of x "l @ [Wait 100]"] Cons.prems show ?thesis
      by (auto simp: io_then_def io_bind_def wait_ms_def io_return_def)
  next
    case False
    have same: "set xs \<subseteq> {x} \<Longrightarrow> last (x # xs) = x" using last_in_set [of "x # xs"] by auto
    from l1 Cons.IH [of x "l1 @ [Wait 100]"] obtain l' where
      "led_task xs x (l1 @ [Wait 100]) = (Returned (last (x # xs)), l')" "led_levels l' = levels_shown (last (x # xs))"
      using same by auto
    with False l1 show ?thesis by (simp add: io_then_def io_bind_def wait_ms_def)
  qed
qed (simp add: io_return_def)

text \<open>Times, in milliseconds of waiting, at which the watchdog input rises.\<close>

fun kick_times :: "nat \<Rightarrow> bus_op list \<Rightarrow> nat list" where
  "kick_times t [] = []"
| "kick_times t (Wait ms # l) = kick_times (t + ms) l"
| "kick_times t (PinSet p b # l) = (if p = watchdog_gpio \<and> b then [t] else []) @ kick_times t l"
| "kick_times t (_ # l) = kick_times t l"

fun watchdog_ops :: "nat \<Rightarrow> bus_op list" where
  "watchdog_ops 0 = []"
| "watchdog_ops (Suc n) = [Wait 25000, PinSet 26 False, Wait 10, PinSet 26 True, Wait 10, PinSet 26 False] @ watchdog_ops n"

lemma watchdog_task_ops: "watchdog_task n l = (Returned (), l @ watchdog_ops n)"
  by (induction n arbitrary: l)
     (simp_all add: io_return_def io_then_def io_bind_def wait_ms_def pin_set_def watchdog_kick_def
       watchdog_gpio_def watchdog_kick_interval_ms_def)

lemma watchdog_ops_times: "kick_times t (watchdog_ops n) = map (\<lambda>k. t + 25010 + k * 25020) [0..<n]"
proof (induction n arbitrary: t)
  case (Suc n)
  have "[0..<Suc n] = 0 # map Suc [0..<n]" by (simp add: map_Suc_upt upt_conv_Cons del: upt_Suc)
  with Suc [of "25020 + t"] show ?case by (simp add: watchdog_gpio_def comp_def add.commute add.left_commute del: upt_Suc)
qed simp

lemma watchdog_new_fails:
  assumes "gpio_exclusive G"
  shows "watchdog_new G used = None \<or> (\<exists>err. watchdog_new G used = ret (Inl (WatchdogGpioInit err)))"
proof -
  have "gp_get G (watchdog_gpio # used) watchdog_gpio \<noteq> None" using assms by (simp add: gpio_exclusive_def)
  then show ?thesis by (auto simp: watchdog_new_def watchdog_clone_def open_pins_def split: option.splits)
qed

text \<open>A common-anode light is on where the pin is low: connected shows red and blue.\<close>

lemma led_colors:
  assumes "led_task states LedOff [] = (r, l)" "states \<noteq> []" "last states = LedConnected"
  shows "led_levels l = [Some False, Some True, Some False]"
  using led_task_shows [of LedOff "[]" states] assms last_in_set [of states] by auto

section \<open>Claims\<close>

text \<open>
  C30. The button thread. Without a runtime on the thread, which is how the code starts it, the
  first round panics and no event is ever sent. With one, presses and releases are reported
  alternately, starting from the level at start-up, a provisioning or reset event is sent only
  while the last reported press has lasted three or ten seconds by the clock, and the only way
  the thread stops is that a button was found held for ten seconds: the reset is then not
  reported but the thread waits for a lock it holds.
\<close>

theorem button_events:
  assumes "button_new G used env = Inr (s, used')"
  shows "(\<exists>s'. button_run False env (Suc n) s = (Panicked, s') \<and> events (cb_log s') = []) \<and>
    (case button_run True env n s of (r, s') \<Rightarrow>
      follow (be_level env [LevelRead]) (events (cb_log s')) = Some (cb_last_level s') \<and>
      holds_justified env (cb_log s') \<and>
      (r = Returned () \<or> r = Waiting \<and> held_for env (cb_log s') factory_reset_hold_ms))"
proof
  obtain r s' where "button_run True env n s = (r, s')" by fastforce
  with button_run_ok [OF button_new_ok [OF assms] this]
  show "case button_run True env n s of (r, s') \<Rightarrow>
      follow (be_level env [LevelRead]) (events (cb_log s')) = Some (cb_last_level s') \<and>
      holds_justified env (cb_log s') \<and>
      (r = Returned () \<or> r = Waiting \<and> held_for env (cb_log s') factory_reset_hold_ms)"
    by (simp add: button_ok_def)
qed (use assms in \<open>auto simp: button_new_def button_round_def level_change_def check_hold_def button_defs
      split: sum.splits\<close>)

text \<open>The button is pressed at once, released after four seconds.\<close>

theorem button_events_witness:
  "\<exists>env s. (case button_run True env 3 s of (r, s') \<Rightarrow>
     events (cb_log s') = [Pressed, ProvisioningMode, ProvisioningMode, Released] \<and> holds_justified env (cb_log s'))"
proof -
  let ?env = "\<lparr>be_level = (\<lambda>l. length l \<notin> {2, 3, 7}), be_clock = (\<lambda>l. 1000 * length l)\<rparr>"
  let ?G = "\<lparr>gp_new = None, gp_get = (\<lambda>used p. if p \<in> set used then Some [] else None)\<rparr>"
  obtain s where s: "button_new ?G [] ?env = Inr (s, [18])"
    "s = \<lparr>cb_pressed = False, cb_press_start = None, cb_last_level = True, cb_log = [LevelRead]\<rparr>"
    by (simp add: button_new_def open_pins_def config_button_pin_def)
  have "events (cb_log (snd (button_run True ?env 3 s))) = [Pressed, ProvisioningMode, ProvisioningMode, Released]"
    by (simp add: s(2) numeral_3_eq_3 button_round_def level_change_def button_press_def button_release_def report_hold_def
        check_hold_def button_defs factory_reset_hold_ms_def provisioning_hold_ms_def)
  with button_events [OF s(1), of 3] show ?thesis by (intro exI [of _ ?env] exI [of _ s]) (auto split: prod.splits)
qed

text \<open>
  C39. The watchdog. Taking its pin for the kick task a second time panics, as the pin library
  hands out a pin only once; where it hands it out twice, every kick of the task comes 25.02
  seconds after the one before, below the thirty seconds of the chip.
\<close>

theorem watchdog_panics_or_feeds:
  "(gpio_exclusive G \<longrightarrow> watchdog_new G used = None \<or> (\<exists>err. watchdog_new G used = ret (Inl (WatchdogGpioInit err)))) \<and>
   (\<exists>l'. watchdog_task n l = (Returned (), l @ l') \<and>
      kick_times 0 l' = map (\<lambda>k. 25010 + k * 25020) [0..<n])"
proof
  show "\<exists>l'. watchdog_task n l = (Returned (), l @ l') \<and> kick_times 0 l' = map (\<lambda>k. 25010 + k * 25020) [0..<n]"
    by (intro exI [of _ "watchdog_ops n"]) (simp add: watchdog_task_ops watchdog_ops_times)
qed (use watchdog_new_fails in blast)

theorem watchdog_panics_or_feeds_witness:
  "\<exists>G. gpio_exclusive G \<and> watchdog_new G [] = None \<and>
     (\<exists>l'. watchdog_task 2 [] = (Returned (), l') \<and> kick_times 0 l' = [25010, 50030])"
proof -
  let ?G = "\<lparr>gp_new = None, gp_get = (\<lambda>used p. if p \<in> set used then Some [] else None)\<rparr>"
  have "gpio_exclusive ?G" by (simp add: gpio_exclusive_def)
  moreover have "watchdog_new ?G [] \<noteq> ret (Inl (WatchdogGpioInit err))" for err
    by (simp add: watchdog_new_def watchdog_clone_def open_pins_def)
  ultimately show ?thesis using watchdog_panics_or_feeds [of ?G "[]" 2 "[]"]
    by (intro exI [of _ ?G]) (auto simp: upt_rec)
qed

end
