(* ===== verification/Supervisor.thy ===== *)
theory Supervisor
  imports Gateway_Properties Encrypted_Store Sensors Lora_Mesh Provisioning Front_Panel Gnss
begin

text \<open>
  \<open>src/src/main.rs\<close>: the hardware supervisor, which starts the components and connects
  them. Modelled: the start-up as far as every run gets, the settings read from the environment,
  the start of the radio and of the gateway, the handler of the button events, the two bridges
  that store the messages of the sensors and of the mesh and hand them to the gateway, and the
  shutdown. The round of the satellite fix task is in \<open>Gnss\<close>.
\<close>

section \<open>Start-up\<close>

datatype startup_error = StartWatchdog watchdog_error | StartStore store_error

text \<open>
  The first two steps; \<open>later\<close> stands for all steps that follow, given the pins taken
  and the opened store.
\<close>

definition startup :: "gpio \<Rightarrow> ext \<Rightarrow> bincode \<Rightarrow> system \<Rightarrow>
    (u8 list \<Rightarrow> encrypted_store \<Rightarrow> (startup_error + 'r) exec) \<Rightarrow> (startup_error + 'r) exec" where
  "startup G e B sy later = do {
     w \<leftarrow> watchdog_new G [];
     case w of
       Inl err \<Rightarrow> ret (Inl (StartWatchdog err))
     | Inr used \<Rightarrow> do {
         s \<leftarrow> store_open e B sy;
         case s of
           Inl err \<Rightarrow> ret (Inl (StartStore err))
         | Inr st \<Rightarrow> later used st } }"

section \<open>Configuration\<close>

text \<open>Environment variables; a value that cannot be parsed counts as the default.\<close>

definition env_number :: "(string \<Rightarrow> string option) \<Rightarrow> string \<Rightarrow> nat \<Rightarrow> string \<Rightarrow> nat \<Rightarrow> nat" where
  "env_number env name hi default_text default_value =
     (case parse_unsigned hi (case env name of Some s \<Rightarrow> s | None \<Rightarrow> default_text) of Some n \<Rightarrow> n | None \<Rightarrow> default_value)"

definition lora_freq :: "(string \<Rightarrow> string option) \<Rightarrow> u32" where
  "lora_freq env = word_of_nat (env_number env ''LORA_FREQ'' (2 ^ 32 - 1) ''915'' 915)"

definition credentials_from :: "(string \<Rightarrow> string option) \<Rightarrow> asts_credentials option" where
  "credentials_from env =
     (case env ''ASTS_ACCOUNT_ID'' of
        None \<Rightarrow> None
      | Some account \<Rightarrow>
          case env ''ASTS_API_KEY'' of
            None \<Rightarrow> None
          | Some key \<Rightarrow> Some \<lparr>ac_account_id = account, ac_api_key = key, ac_mno_partner_id = env ''ASTS_MNO_PARTNER_ID''\<rparr>)"

definition telemetry_from :: "(string \<Rightarrow> string option) \<Rightarrow> telemetry_config" where
  "telemetry_from env =
     \<lparr>tc_enabled = (env ''TELEMETRY_ENABLED'' = Some ''true''),
      tc_endpoint = env ''TELEMETRY_ENDPOINT'',
      tc_ping_interval_ms = word_of_nat (env_number env ''TELEMETRY_PING_INTERVAL_MS'' (2 ^ 64 - 1) ''5000'' 5000)\<rparr>"

definition start_radio :: "(string \<Rightarrow> string option) \<Rightarrow> lr1121_error option \<Rightarrow> device \<Rightarrow> (lr1121_error, lora_config) io" where
  "start_radio env init_error dev = lr1121_new init_error dev (lora_freq env)"

definition start_gateway :: "('q, 't, 'f) gateway_ops \<Rightarrow> (string \<Rightarrow> string option) \<Rightarrow> (nat \<Rightarrow> reading) \<Rightarrow> (nat \<Rightarrow> string + u16) \<Rightarrow>
    ('q, 't, 'f) gateway option" where
  "start_gateway X env readings http = gateway_new X 1000 60000000000 (credentials_from env) (telemetry_from env) readings http"

section \<open>Button events\<close>

text \<open>What the events act on: the pairing mode, the configuration partition and the commands run.\<close>

record panel_state =
  pl_mode :: provisioning_mode
  pl_partition :: config_partition
  pl_commands :: "string list"

definition on_button_event :: "provisioning_env \<Rightarrow> button_event \<Rightarrow> panel_state \<Rightarrow> panel_state" where
  "on_button_event E x p =
     (case x of
        ProvisioningMode \<Rightarrow> p\<lparr>pl_mode := provisioning_start (pl_mode p)\<rparr>
      | FactoryReset \<Rightarrow>
          p\<lparr>pl_partition := snd (factory_reset E (pl_partition p)), pl_commands := pl_commands p @ [''reboot'']\<rparr>
      | _ \<Rightarrow> p)"

definition button_task :: "provisioning_env \<Rightarrow> button_event list \<Rightarrow> panel_state \<Rightarrow> panel_state" where
  "button_task E xs p = fold (on_button_event E) xs p"

section \<open>Bridges\<close>

text \<open>
  The result of storing is dropped, so that a message that cannot be stored still reaches the
  gateway. The time of the log entry is an argument.
\<close>

definition bridge_message :: "('q, 't, 'f) gateway_ops \<Rightarrow> bincode \<Rightarrow> u64 \<Rightarrow> message \<Rightarrow>
    encrypted_store \<times> ('q, 't, 'f) gateway \<Rightarrow> (encrypted_store \<times> ('q, 't, 'f) gateway) exec" where
  "bridge_message X B now m sg =
     (case sg of (st, g) \<Rightarrow> do {
        let st' = snd (es_store (go_ext X) B now st m);
        g' \<leftarrow> gateway_send X m g;
        ret (st', g') })"

fun bridge :: "('q, 't, 'f) gateway_ops \<Rightarrow> bincode \<Rightarrow> (u64 \<times> message) list \<Rightarrow>
    encrypted_store \<times> ('q, 't, 'f) gateway \<Rightarrow> (encrypted_store \<times> ('q, 't, 'f) gateway) exec" where
  "bridge X B [] sg = ret sg"
| "bridge X B ((now, m) # rest) sg = do { sg \<leftarrow> bridge_message X B now m sg; bridge X B rest sg }"

section \<open>Shutdown\<close>

text \<open>The light is switched off and its task stopped; the pairing mode is stopped only after the store was closed.\<close>

definition shutdown :: "system \<Rightarrow> provisioning_mode \<Rightarrow> (store_error + unit) \<times> led_state \<times> provisioning_mode" where
  "shutdown sy p =
     (case es_close sy of
        Inl err \<Rightarrow> (Inl err, LedOff, p)
      | Inr _ \<Rightarrow> (Inr (), LedOff, provisioning_stop p))"

section \<open>Lemmas\<close>

lemma button_task_unchanged:
  "FactoryReset \<notin> set xs \<Longrightarrow> pl_partition (button_task E xs p) = pl_partition p \<and> pl_commands (button_task E xs p) = pl_commands p"
  by (induction xs arbitrary: p) (auto simp: button_task_def on_button_event_def split: button_event.splits)

lemma lora_freq_cases:
  "lora_freq env = (case env ''LORA_FREQ'' of
     None \<Rightarrow> 915
   | Some s \<Rightarrow> (case parse_unsigned (2 ^ 32 - 1) s of None \<Rightarrow> 915 | Some n \<Rightarrow> word_of_nat n))"
proof -
  have "parse_unsigned (2 ^ 32 - 1) ''915'' = Some 915"
    by (simp add: parse_unsigned_def parse_nat_def digit_value_def)
  then show ?thesis by (simp add: lora_freq_def env_number_def split: option.splits)
qed

lemma start_radio_frequency:
  "start_radio env None dev l = (Returned c, l') \<Longrightarrow> lc_frequency c = lora_freq env * 1000000"
  by (auto simp: start_radio_def lr1121_new_def io_then_Returned_iff Let_def)

lemma event_position: "x \<in> set (events l) \<Longrightarrow> \<exists>i < length l. l ! i = Sent x"
  by (auto simp: events_def map_filter_def in_set_conv_nth split: button_op.splits)

lemma bridge_regular:
  "list_all (\<lambda>(now, m). \<not> is_emergency m) batch \<Longrightarrow>
   stored = filter (serializable B) (numbered_entries (w_sequence (es_wal st)) batch) \<Longrightarrow>
   \<exists>st' g'. bridge X B batch (st, g) = ret (st', g') \<and> gw_batcher_in g' = gw_batcher_in g @ map snd batch \<and>
     wf_data (w_file (es_wal st')) = wf_data (w_file (es_wal st)) @ log_of (go_ext X) B stored \<and>
     es_bitemporal st' = foldl bitemporal_store_one (es_bitemporal st) (map we_message stored)"
proof (induction batch arbitrary: st g stored)
  case Nil
  then show ?case by (simp add: log_of_def)
next
  case (Cons nm batch)
  obtain now m where nm: "nm = (now, m)" by fastforce
  obtain r st1 where r: "es_store (go_ext X) B now st m = (r, st1)" by fastforce
  let ?x = "wal_entry_new now (w_sequence (es_wal st) + 1) m"
  let ?g = "(tally increment_translated g)\<lparr>gw_batcher_in := gw_batcher_in g @ [m]\<rparr>"
  let ?rest = "filter (serializable B) (numbered_entries (w_sequence (es_wal st1)) batch)"
  note one = es_store_step [OF r refl]
  have "list_all (\<lambda>(now, m). \<not> is_emergency m) batch" using Cons.prems(1) by simp
  from Cons.IH [OF this refl, of st1 ?g] obtain st' g' where
    rest: "bridge X B batch (st1, ?g) = ret (st', g')" "gw_batcher_in g' = gw_batcher_in ?g @ map snd batch"
      "wf_data (w_file (es_wal st')) = wf_data (w_file (es_wal st1)) @ log_of (go_ext X) B ?rest"
      "es_bitemporal st' = foldl bitemporal_store_one (es_bitemporal st1) (map we_message ?rest)" by blast
  have "bridge X B (nm # batch) (st, g) = ret (st', g')"
    using rest(1) Cons.prems(1) nm r by (simp add: bridge_message_def gateway_send_def tally_def Let_def)
  moreover have "stored = (if serializable B ?x then [?x] else []) @ ?rest" "we_message ?x = m"
    using Cons.prems(2) by (simp add: nm one(1)) (simp add: wal_entry_new_def)
  ultimately show ?case using rest(2-4) one(2,3) nm by (intro exI [of _ st'] exI [of _ g']) (simp add: log_of_def)
qed

section \<open>Claims\<close>

text \<open>
  C26. The supervisor never comes up: whatever the pins, the commands and the contents of the log
  file are, start-up ends with an error or a panic in its first two steps, and what the later
  steps would do makes no difference.
\<close>

theorem supervisor_never_starts:
  "startup G e B sy later \<noteq> ret (Inr r) \<and> startup G e B sy later = startup G e B sy later'"
proof -
  have "store_open e B sy \<noteq> ret (Inr st)" for st by (rule store_open_never_succeeds)
  then show ?thesis
    by (cases "store_open e B sy") (auto simp: startup_def split: sum.splits Option.bind_splits)
qed

text \<open>
  Handling the events of a run of the button thread changes the configuration partition or
  reboots only if the button had been found held for ten seconds since its last press.
\<close>

lemma reset_needs_hold:
  assumes "button_new G used env = Inr (s, used')" "button_run True env n s = (r, s')"
    and "p' = button_task E (events (cb_log s')) p"
    and "pl_partition p' \<noteq> pl_partition p \<or> pl_commands p' \<noteq> pl_commands p"
  shows "\<exists>i < length (cb_log s'). cb_log s' ! i = Sent FactoryReset \<and> held_for env (take i (cb_log s')) 10000"
proof -
  have "FactoryReset \<in> set (events (cb_log s'))" using assms(3,4) button_task_unchanged by blast
  then obtain i where "i < length (cb_log s')" "cb_log s' ! i = Sent FactoryReset" using event_position by blast
  moreover have "holds_justified env (cb_log s')"
    using button_run_ok [OF button_new_ok [OF assms(1)] assms(2)] by (simp add: button_ok_def)
  ultimately show ?thesis by (auto simp: holds_justified_def factory_reset_hold_ms_def)
qed

text \<open>
  C27. The bridge from the serial sensors. The messages of a run of the reader reach the gateway's
  batcher all and in order, without a panic, whether or not they could be stored. Numbered on from
  the sequence number of the log, exactly those whose entry can be serialized extend the log file,
  in order, and exactly their messages are added to the memory.
\<close>

theorem sensor_bridge_exact:
  assumes "rs232_run reads = ret (map snd batch, err)"
    and "stored = filter (serializable B) (numbered_entries (w_sequence (es_wal st)) batch)"
  shows "\<exists>st' g'. bridge X B batch (st, g) = ret (st', g') \<and> gw_batcher_in g' = gw_batcher_in g @ map snd batch \<and>
     wf_data (w_file (es_wal st')) = wf_data (w_file (es_wal st)) @ log_of (go_ext X) B stored \<and>
     es_bitemporal st' = foldl bitemporal_store_one (es_bitemporal st) (map we_message stored)"
proof (rule bridge_regular [OF _ assms(2)])
  show "list_all (\<lambda>(now, m). \<not> is_emergency m) batch"
    using rs232_messages [OF assms(1)] by (auto simp: list_all_iff reading_def is_emergency_def)
qed

theorem sensor_bridge_exact_witness:
  "\<exists>B st batch err. rs232_run [(0, ReadData (modbus_frame 1 3 [0, 10]))] = ret (map snd batch, err) \<and>
     (\<forall>g. \<exists>st' g'. bridge list_ops B batch (st, g) = ret (st', g') \<and>
        gw_batcher_in g' = gw_batcher_in g @ [message_new 0 IridiumSBD [1, 3, 0, 10] Operational] \<and>
        wf_data (w_file (es_wal st')) = wf_data (w_file (es_wal st)) @ wal_frame ref_ext [7])"
proof -
  let ?m = "message_new 0 IridiumSBD [1, 3, 0, 10] Operational"
  define x where "x = wal_entry_new 9 1 ?m"
  define B where "B = \<lparr>bc_serialize = (\<lambda>y. if y = x then Some [7] else None), bc_deserialize = (\<lambda>d. if d = [7] then Some x else None)\<rparr>"
  define st where "st = \<lparr>es_wal = \<lparr>w_file = \<lparr>wf_data = wal_header_to_bytes (wal_header_new 0), wf_pos = 18\<rparr>, w_sequence = 0\<rparr>,
     es_bitemporal = bitemporal_new 10000, es_mount_point = storage_mount, es_files = []\<rparr>"
  have "take 2 (modbus_frame 1 3 [0, 10]) = [1, 3]" "modbus_frame 1 3 [0, 10] ! 0 = 1" "modbus_frame 1 3 [0, 10] \<noteq> []"
    by (simp_all add: modbus_frame_def Let_def)
  moreover have "parse_modbus_rtu 0 (modbus_frame 1 3 [0, 10]) = ret (Inr ?m)"
    by (simp add: modbus_frame_parsed)
  ultimately have run: "rs232_run [(0, ReadData (modbus_frame 1 3 [0, 10]))] = ret (map snd [(9, ?m)], None)"
    by (simp add: rs232_dispatch_def carrier_parse_eq thermo_parse_eq bytes_of_def modbus_frame_parts)
  have e: "[x] = filter (serializable B) (numbered_entries (w_sequence (es_wal st)) [(9, ?m)])"
    by (simp add: serializable_def B_def st_def x_def)
  have f: "log_of (go_ext list_ops) B [x] = wal_frame ref_ext [7]" by (simp add: log_of_def entry_frame_def B_def list_ops_def)
  have "\<exists>st' g'. bridge list_ops B [(9, ?m)] (st, g) = ret (st', g') \<and> gw_batcher_in g' = gw_batcher_in g @ map snd [(9 :: u64, ?m)] \<and>
      wf_data (w_file (es_wal st')) = wf_data (w_file (es_wal st)) @ wal_frame ref_ext [7]" for g
    using sensor_bridge_exact [OF run e, of list_ops g] unfolding f by blast
  then show ?thesis using run by (intro exI [of _ B] exI [of _ st] exI [of _ "[(9, ?m)]"] exI [of _ None]) simp
qed

text \<open>
  C29. A Modbus frame with a function code of two or more, once read from the sensor line, can
  never be translated: the message is labelled as an Iridium frame, and the function code is
  read as the high byte of a length above the limit of that format.
\<close>

theorem modbus_reading_untranslatable:
  assumes "hex_decode_law e" "nom_law e" "parse_modbus_rtu now d = ret (Inr m)" "2 \<le> d ! 1"
  shows "translate_sync e now' m = ret (Inl InvalidProtocol)"
proof -
  have m: "4 \<le> length d" "m = message_new now IridiumSBD (take (length d - 2) d) Operational"
    using assms(3) by (auto simp: modbus_parse_eq split: if_splits)
  have "m_data m ! 1 = d ! 1" "m_protocol m = IridiumSBD" using m by (simp_all add: message_new_def)
  then have "translated_bytes e (m_protocol m) (m_data m) = None"
    using assms(4) high_length_rejected [of "m_data m"] by (simp add: translated_bytes_def)
  then show ?thesis by (simp add: translate_sync_eq [OF assms(1,2)])
qed

theorem modbus_reading_untranslatable_witness:
  "\<exists>m. parse_modbus_rtu 0 (modbus_frame 1 3 [0, 10]) = ret (Inr m) \<and> translate_sync ref_ext 5 m = ret (Inl InvalidProtocol)"
proof -
  let ?m = "message_new 0 IridiumSBD [1, 3, 0, 10] Operational"
  have "parse_modbus_rtu 0 (modbus_frame 1 3 [0, 10]) = ret (Inr ?m)"
    by (simp add: modbus_frame_parsed)
  moreover have "2 \<le> modbus_frame 1 3 [0, 10] ! 1" by (simp add: modbus_frame_def Let_def)
  ultimately show ?thesis using modbus_reading_untranslatable [of ref_ext 0 _ ?m 5] ref_ext_laws by blast
qed

end
