(* ===== verification/Spec2Isabelle.thy ===== *)
theory Spec2Isabelle
  imports Codec Nidd Buffers Otel_Reconciler Gnss Gateway_Incoming Supervisor
begin

text \<open>
  A verification development for the Float gateway, a translator between satellite, radio and
  telematics protocols (Rust, under \<open>src/src\<close>). Messages come from sensors on the serial
  lines and the CAN bus, from a LoRa mesh and from callers of the library; the gateway batches
  them, spreads them over memory shards, translates each to the AST SpaceMobile frame format and
  posts them to an HTTP uplink. Caches, stores, a write-ahead log and monitoring surround that
  path; drivers for a radio, a modem, a crypto chip and the front panel sit below it, and
  \<open>main.rs\<close> starts and connects everything.

  \<^bold>\<open>How the code is modelled.\<close> A struct is a \<open>record\<close>, an enum a \<open>datatype\<close>, an
  integer of 8 to 64 bits a \<open>word\<close>, \<open>usize\<close> a \<open>nat\<close>; arithmetic
  wraps as in a release build. A computation that may panic has type \<open>'a exec\<close>
  (\<open>panic\<close> or \<open>ret x\<close>), a \<open>Result\<close> is a sum with the error on the left, and a
  method returns the updated state. Hash maps are association lists without duplicate keys.
  A task is a step on an explicit state, concurrent tasks are an \<open>inductive\<close> step
  relation, and the statements hold for every interleaving of whole steps. The clock, the answers
  of devices and of the HTTP client, and the outcome of system commands are arguments.

  \<^bold>\<open>Third-party code\<close> is a parameter with its documented behaviour as a hypothesis:
  \<open>Externals\<close> has the checksum, hexadecimal, compression and parser functions, with a
  reference instance; \<open>Channels\<close> the bounded channels (locale \<open>bounded_channel\<close>);
  \<open>Floats\<close> the operations on \<open>f64\<close>; \<open>Wal\<close> the bincode serialiser;
  \<open>Lora_Mesh\<close> HMAC-SHA256; \<open>Provisioning\<close> certificates, JSON and what a failing
  file operation leaves behind; \<open>Buffers\<close> how a vector of the standard library allocates,
  of which only the documented guarantee is used; \<open>Bus\<close> the device behind a bus and the pin
  library.

  \<^bold>\<open>Shared theories.\<close> \<open>Prelude\<close> (integers, byte strings, panics, endian codecs, UTF-8,
  association lists), \<open>Decimal\<close> and \<open>Text\<close> (number printing and parsing, string
  search), \<open>Codec\<close> (the contract \<open>codec\<close> of a wire format), \<open>Checksum\<close>
  (the contract \<open>byte_checksum\<close>: a change of one byte is always noticed), \<open>Fifo\<close>
  (a bounded store that drops its oldest item).

  \<^bold>\<open>Protocols and wire formats.\<close>
  \<^item> \<open>Protocol\<close>: \<open>protocol.rs\<close>; protocols, priorities, messages, size limits, the
    classification of delays.
  \<^item> \<open>Iridium\<close>, \<open>Inmarsat\<close>, \<open>Vsat\<close>, \<open>Hfvhf\<close>,
    \<open>SamsaraMsg\<close>, \<open>Nidd\<close>: one theory per parser and writer
    (\<open>iridium_sbd.rs\<close>, \<open>inmarsat_c.rs\<close>, \<open>vsat.rs\<close>, \<open>hfvhf.rs\<close>,
    \<open>samsara.rs\<close>, \<open>nidd.rs\<close>): exactly which inputs are accepted and with what
    result, reading back what was written, detection of a corrupted byte.
  \<^item> \<open>Asts\<close>: \<open>asts_protobuf.rs\<close>, the frame writer of the target format.
  \<^item> \<open>Translator\<close>: \<open>translator.rs\<close>, both translation paths and the two pools; a
    translation succeeds exactly on the payloads its source format accepts and keeps the event
    time and the priority.
  \<^item> \<open>Otel_Span\<close>, \<open>Otel_Bundle\<close>, \<open>Otel_Converter\<close>,
    \<open>Otel_Reconciler\<close>: the \<open>otel_*.rs\<close> files; the compact span codec, bundles with
    and without compression, the OTLP export, and the store of spans by the time they were
    learned; spans survive the whole way, and the queries return the belief at a given time.

  \<^bold>\<open>Gateway components.\<close>
  \<^item> \<open>Batcher\<close>: \<open>batcher.rs\<close> and \<open>transmission_batcher.rs\<close>, the two select
    loops as steps; nothing is lost, duplicated or reordered.
  \<^item> \<open>Bitemporal\<close>, \<open>Cache\<close>, \<open>Snapshot\<close>: \<open>bitemporal.rs\<close>,
    \<open>cache.rs\<close>, \<open>snapshot.rs\<close>; bounds, what each operation changes, eviction order.
  \<^item> \<open>Reliability\<close>, \<open>Cadence\<close>, \<open>Clock\<close>, \<open>Metrics\<close>: circuit
    breaker, retries and health, rate limits, clock offsets, counters
    (\<open>reliability.rs\<close>, \<open>cadence_translation.rs\<close>,
    \<open>clock_reconciliation.rs\<close>, \<open>metrics.rs\<close>).
  \<^item> \<open>Sharding\<close>: \<open>sharding.rs\<close>; routing, back-pressure, worker rounds, and the
    invariant of all operations.
  \<^item> \<open>Gateway\<close>: \<open>gateway.rs\<close> (its spread tracker in \<open>Ewma\<close>), every message
    path, the uplink and the spawned tasks. \<open>Gateway_Invariant\<close> has the invariant,
    \<open>Gateway_Properties\<close> its preservation by every step and what follows: no handler
    panics, only translated messages leave, when an emergency message is posted, what a batch
    becomes. \<open>Gateway_Incoming\<close> follows every message of an incoming batch to the spread
    shard, a regular shard or the uplink.
  \<^item> \<open>Buffers\<close>: \<open>dynamic_buffer.rs\<close> and \<open>lifetime_safe.rs\<close>.

  \<^bold>\<open>Storage, sensors, hardware.\<close>
  \<^item> \<open>Wal\<close>, \<open>Encrypted_Store\<close>: \<open>storage/wal.rs\<close>,
    \<open>storage/encrypted_store.rs\<close>; what a batch adds to log and memory, what replay
    returns for a log in the documented format, and that the code as it is does not keep the
    promise of recovery: it reads its own header with the wrong length, cannot open a log, and can
    read an open one at most once.
  \<^item> \<open>Sensors\<close>: \<open>sensor/*.rs\<close>; the framing of RS-232, Modbus over RS-485, and CAN.
  \<^item> \<open>Lora_Mesh\<close>: \<open>lora/*.rs\<close> and \<open>provisioning/lora_provisioning.rs\<close>; which
    frames are accepted, and why pairing never answers a join request: its task waits for a lock
    of the radio that it holds itself (\<open>RoundWaits\<close>).
  \<^item> \<open>Bus\<close>, \<open>Radio\<close>, \<open>Modem\<close>, \<open>Atecc\<close>, \<open>Front_Panel\<close>:
    \<open>hardware/*.rs\<close>. A driver's state is the log of its bus operations; the lemmas say
    which operations a command performs and what it returns for any device.
  \<^item> \<open>Gnss\<close>: \<open>gnss/*.rs\<close> and the clock task of \<open>main.rs\<close>;
    \<open>Provisioning\<close>: \<open>provisioning/provision.rs\<close>; \<open>Supervisor\<close>:
    \<open>main.rs\<close>, the start-up, the button handler, and the bridges from the sensors and the
    mesh to the store and the gateway.

  The theorem below spans the readers, the mesh and the translator.

  \<^bold>\<open>Loops and fuel.\<close> Recursion is structural or has a termination proof.
  \<open>drain_all\<close>, the loop that empties a channel, is a partial function, and
  \<open>bounded_channel\<close> shows that it returns. Loops that wait for a device
  (\<open>at_loop\<close>, the registration loop, \<open>wait_for_irq\<close>) take a number of rounds and
  return \<open>Waiting\<close> when it is used up. An AT command of the modem ends within any number
  of rounds above its time-out in nanoseconds plus one, since the clock advances with each read
  (\<open>at_loop_terminates\<close>). The radio's wait has no time-out in the code: it ends when the
  device raises the interrupt within the given rounds (\<open>wait_for_irq_returns\<close>), and never
  ends when it does not (\<open>wait_without_irq\<close>).

  \<^bold>\<open>Not modelled.\<close>
  \<^item> \<open>hardware/sx1262.rs\<close> and \<open>hardware/bg95.rs\<close> repeat \<open>lr1121.rs\<close> and
    \<open>gm02sp.rs\<close> under other names; what \<open>Radio\<close> and \<open>Modem\<close> state applies to
    them, and a second copy would add nothing.
  \<^item> \<open>lib.rs\<close> has module declarations and re-exports only.
  \<^item> Of \<open>main.rs\<close>: logging, the panic hook, the signal handlers and the spawning of tasks.
    The steps after the opening of the store are a parameter of \<open>startup\<close>, which no run
    reaches; those with behaviour of their own are modelled one by one.
  \<^item> A system clock before 1970, on which the code panics: a reading of the wall clock is an
    argument of type \<open>u64\<close>, the milliseconds since then.
  \<^item> \<open>shard_step\<close>, whose reachable states the lemmas of \<open>Sharding\<close> are about, has
    the operations the gateway performs. Draining and evicting regular shards are defined, with
    lemmas of their own, but not part of it, since nothing in the program calls them.
  \<^item> The channels into the batchers are unbounded lists: a sender that waits for a place in a full
    channel is a sender whose step comes later.
  \<^item> Everywhere: log output, \<open>Display\<close> texts that no code reads, derived instances, memory
    ordering of atomics, and the interleaving inside one step.
\<close>

text \<open>
  C28. The type invariant of messages. Whatever arrives on the serial lines, the CAN bus or the
  radio, every message that a reader returns or the mesh decodes carries at most as many bytes as
  its protocol allows, and so does every message the translator makes, with the label of the target
  protocol. Two things are left open by the code: the asynchronous translation path returns messages
  of three protocols as they came, checked or not, and the receive task of the mesh, which panics on
  every frame long enough to be decoded, never passes on a message at all.
\<close>

theorem messages_within_limit:
  assumes "hex_decode_law e" "nom_law e" "hmac_law H"
  shows "(\<forall>ms err. rs232_run reads = ret (ms, err) \<longrightarrow> list_all within_limit ms) \<and>
    (\<forall>r' ms err. rs485_run reads r = ret (r', ms, err) \<longrightarrow> list_all within_limit ms) \<and>
    list_all within_limit (fst (can_run frames)) \<and>
    (\<forall>m. decode_sensor_frame H False now nodes f = ret (Inr m) \<longrightarrow> within_limit m \<and> m_protocol m = LoRaMesh) \<and>
    (\<forall>m. mesh_round H now nodes rx \<noteq> ret (Some m)) \<and>
    (\<forall>t. translate_sync e now x = ret (Inr t) \<longrightarrow> within_limit t \<and> m_protocol t = ASTSpaceMobile) \<and>
    (\<forall>t. translate_message e now x = ret (Inr t) \<longrightarrow>
      (if m_protocol x \<in> {NIDD, ASTSpaceMobile, LoRaMesh} then t = x else within_limit t \<and> m_protocol t = ASTSpaceMobile))"
proof (intro conjI allI impI)
  have *: "list_all reading ms \<Longrightarrow> list_all within_limit ms" for ms by (simp add: list_all_iff reading_def)
  show "list_all within_limit ms" if "rs232_run reads = ret (ms, err)" for ms err using rs232_messages [OF that] by (rule *)
  show "list_all within_limit ms" if "rs485_run reads r = ret (r', ms, err)" for r' ms err using rs485_messages [OF that] by (rule *)
  show "list_all within_limit (fst (can_run frames))" using can_messages [of frames] * by (metis prod.collapse)
  show "within_limit m" "m_protocol m = LoRaMesh" if "decode_sensor_frame H False now nodes f = ret (Inr m)" for m
    using that by (auto simp: decode_sensor_frame_eq [OF assms(3)] Let_def split: if_splits option.splits)
  show "mesh_round H now nodes rx \<noteq> ret (Some m)" for m by (rule mesh_task_silent)
  show "within_limit t" "m_protocol t = ASTSpaceMobile" if "translate_sync e now x = ret (Inr t)" for t
    using that by (auto simp: translate_sync_eq [OF assms(1,2)] within_limit_def message_size_def split: option.splits)
  show "if m_protocol x \<in> {NIDD, ASTSpaceMobile, LoRaMesh} then t = x else within_limit t \<and> m_protocol t = ASTSpaceMobile"
    if "translate_message e now x = ret (Inr t)" for t
  proof (cases "m_protocol x \<in> {NIDD, ASTSpaceMobile, LoRaMesh}")
    case True
    with that show ?thesis by (auto simp: translate_message_def)
  next
    case False
    with that show ?thesis by (auto simp: translate_message_eq [OF assms(1,2)] split: option.splits)
  qed
qed

theorem messages_within_limit_witness:
  "\<exists>m. rs232_run [(0, ReadData (modbus_frame 1 3 [0, 10]))] = ret ([m], None) \<and> within_limit m"
proof -
  have "take 2 (modbus_frame 1 3 [0, 10]) = [1, 3]" "modbus_frame 1 3 [0, 10] ! 0 = 1" "modbus_frame 1 3 [0, 10] \<noteq> []"
    by (simp_all add: modbus_frame_def Let_def)
  then have run: "rs232_run [(0, ReadData (modbus_frame 1 3 [0, 10]))] =
      ret ([message_new 0 IridiumSBD [1, 3, 0, 10] Operational], None)"
    by (simp add: rs232_dispatch_def carrier_parse_eq thermo_parse_eq bytes_of_def modbus_frame_parts modbus_frame_parsed)
  moreover have "hmac_law (\<lambda>k d. replicate 32 0)" by (simp add: hmac_law_def)
  ultimately have "list_all within_limit [message_new 0 IridiumSBD [1, 3, 0, 10] Operational]"
    using messages_within_limit [OF ref_ext_laws(1,5), of "\<lambda>k d. replicate 32 0" "[(0, ReadData (modbus_frame 1 3 [0, 10]))]"] by blast
  with run show ?thesis by simp
qed

end
